(* ===== verification/Prelude.thy ===== *)
theory Prelude
  imports Main "HOL-Library.Word" "HOL-Library.Multiset"
begin

unbundle bit_operations_syntax

text \<open>
  What the components share: the machine types of the code (x86-64 Linux: \<open>unsigned long\<close>
  is 64 bits, \<open>unsigned int\<close> 32, \<open>char\<close> 8), the test of a flag in a flag word, the removal
  of one position of a list (a \<open>std::list::erase\<close>), and the collections of facts that
  carry the component proofs.
\<close>

named_theorems flag_simps \<open>how setting and clearing one request flag changes the tests\<close>
named_theorems epoch_simps \<open>the fields of an epoch after one step of the epoch builder\<close>

type_synonym byte = "8 word"
type_synonym u32 = "32 word"
type_synonym u64 = "64 word"

section \<open>Flag words\<close>

text \<open>The C idiom \<open>w & m\<close> used as a condition.\<close>

abbreviation has_mask :: "u64 \<Rightarrow> u64 \<Rightarrow> bool" where
  "has_mask w m \<equiv> w AND m \<noteq> 0"

fun disjoint_masks :: "u64 list \<Rightarrow> bool" where
  "disjoint_masks [] = True"
| "disjoint_masks (m # ms) = (m \<noteq> 0 \<and> (\<forall>k\<in>set ms. m AND k = 0) \<and> disjoint_masks ms)"

lemma mask_disjoint_bits: "m AND k = 0 \<Longrightarrow> bit m n \<Longrightarrow> \<not> bit k n" for m k :: u64
  by (metis bit_and_iff bit_0_eq bot_apply bot_bool_def)

lemma or_mask_same [simp]: "(w OR m) AND m = m" for w m :: u64
  by (rule bit_word_eqI) (auto simp: bit_simps)

lemma or_mask_other: "m AND k = 0 \<Longrightarrow> (w OR m) AND k = w AND k" for w m k :: u64
  by (rule bit_word_eqI) (auto simp: bit_simps dest: mask_disjoint_bits)

lemma clear_mask_same [simp]: "(w AND NOT m) AND m = 0" for w m :: u64
  by (rule bit_word_eqI) (auto simp: bit_simps)

lemma clear_mask_other: "m AND k = 0 \<Longrightarrow> (w AND NOT m) AND k = w AND k" for w m k :: u64
  by (rule bit_word_eqI) (auto simp: bit_simps dest: mask_disjoint_bits)

lemma mask_and_comm: "m AND k = 0 \<Longrightarrow> k AND m = 0" for m k :: u64
  by (simp add: and.commute)

section \<open>Lists\<close>

definition remove_nth :: "nat \<Rightarrow> 'a list \<Rightarrow> 'a list" where
  "remove_nth k xs = take k xs @ drop (Suc k) xs"

lemma length_remove_nth [simp]: "k < length xs \<Longrightarrow> length (remove_nth k xs) = length xs - 1"
  by (simp add: remove_nth_def)

lemma mset_remove_nth: "k < length xs \<Longrightarrow> mset xs = add_mset (xs ! k) (mset (remove_nth k xs))"
  by (metis add_mset_commute append_take_drop_id id_take_nth_drop mset.simps(2) mset_append
      remove_nth_def union_mset_add_mset_right)

lemma set_remove_nth: "set (remove_nth k xs) \<subseteq> set xs"
  using set_take_subset set_drop_subset unfolding remove_nth_def by fastforce

lemma distinct_remove_nth: "distinct xs \<Longrightarrow> distinct (remove_nth k xs)"
  unfolding remove_nth_def
  by (auto simp: distinct_append set_take_disj_set_drop_if_distinct)

lemma remove_nth_index:
  assumes "x \<in> set xs"
  shows "\<exists>k < length xs. xs ! k = x"
  using assms by (meson in_set_conv_nth)

lemma mset_butlast_last: "xs \<noteq> [] \<Longrightarrow> mset xs = add_mset (last xs) (mset (butlast xs))"
  by (cases xs rule: rev_cases) auto

lemma distinct_submset:
  assumes "mset xs \<subseteq># mset ys" "distinct ys"
  shows "distinct xs"
proof -
  obtain zs where "mset ys - mset xs = mset zs" by (metis ex_mset)
  then have "mset ys = mset (xs @ zs)" using assms(1)
    by (metis mset_append subset_mset.add_diff_inverse)
  then show ?thesis using assms(2) mset_eq_imp_distinct_iff by fastforce
qed

lemma last_notin_butlast: "distinct xs \<Longrightarrow> xs \<noteq> [] \<Longrightarrow> last xs \<notin> set (butlast xs)"
  by (cases xs rule: rev_cases) auto

lemma upt_snoc: "0 < l \<Longrightarrow> [s..<s + l] = [s..<s + l - 1] @ [s + l - 1]"
  by (cases l) auto

text \<open>A call that returned, in a sequence of calls that may not.\<close>

lemma bind_SomeE:
  assumes "Option.bind x f = Some y"
  obtains z where "x = Some z" "f z = Some y"
  using assms by (auto simp: bind_eq_Some_conv)

section \<open>Numbers as text\<close>

text \<open>What \<open>%d\<close> and \<open>operator<<\<close> print for a number that is not negative.\<close>

definition digit_char :: "nat \<Rightarrow> char" where
  "digit_char d = ''0123456789abcdef'' ! d"

fun base_string :: "nat \<Rightarrow> nat \<Rightarrow> string" where
  "base_string b n =
     (if b < 2 \<or> n < b then [digit_char n]
      else base_string b (n div b) @ [digit_char (n mod b)])"

declare base_string.simps [simp del]

definition dec_string :: "nat \<Rightarrow> string" where
  "dec_string n = base_string 10 n"

definition hex_string :: "nat \<Rightarrow> string" where
  "hex_string n = base_string 16 n"

end
