(* ===== verification/Disk_Write.thy ===== *)
theory Disk_Write
  imports Prelude
begin

text \<open>
  The logged block operation: \<open>struct disk_write_op_meta\<close> of \<open>code/disk_wrapper_ioctl.h\<close>,
  the flag predicates of \<open>code/utils/utils_c.c\<close> and the class \<open>disk_write\<close> of
  \<open>code/utils/utils.h\<close> and \<open>code/utils/utils.cpp\<close>.

  The values of the \<open>REQ_\<close> flags come from the kernel's \<open>blk_types.h\<close>, which is not in the
  repository: they are the argument \<open>R\<close> of every definition that tests a flag.  What the code
  relies on is \<open>req_ok\<close>: each flag is a non-empty mask and no two flags share a bit.
  \<open>flag_names_req\<close> is the instance read off the table \<open>flag_names\<close> of \<open>code/disk_wrapper.c\<close>,
  which lists the flags by bit position.

  The data of an operation is shared between copies (\<open>shared_ptr\<close>); no code of the
  repository writes through the pointer after it is filled, and \<open>set_data\<close> allocates a fresh
  buffer, so a copy of the bytes is the same thing.  \<open>None\<close> is the null pointer.
\<close>

section \<open>Request flags\<close>

record req_flags =
  REQ_WRITE :: u64
  REQ_SYNC :: u64
  REQ_META :: u64
  REQ_DISCARD :: u64
  REQ_FUA :: u64
  REQ_FLUSH :: u64
  REQ_SOFTBARRIER :: u64
  REQ_FLUSH_SEQ :: u64

definition req_masks :: "req_flags \<Rightarrow> u64 list" where
  "req_masks R = [REQ_WRITE R, REQ_SYNC R, REQ_META R, REQ_DISCARD R, REQ_FUA R, REQ_FLUSH R,
     REQ_SOFTBARRIER R, REQ_FLUSH_SEQ R]"

definition req_ok :: "req_flags \<Rightarrow> bool" where
  "req_ok R = disjoint_masks (req_masks R)"

definition flag_names :: "string list" where
  "flag_names = [
     ''write'', ''fail fast dev'', ''fail fast transport'', ''fail fast driver'', ''sync'',
     ''meta'', ''prio'', ''discard'', ''secure'', ''write same'', ''no idle'', ''fua'', ''flush'',
     ''read ahead'', ''throttled'', ''sorted'', ''soft barrier'', ''no merge'', ''started'',
     ''don't prep'', ''queued'', ''elv priv'', ''failed'', ''quiet'', ''preempt'', ''alloced'',
     ''copy user'', ''flush seq'', ''io stat'', ''mixed merge'', ''kernel'', ''pm'', ''end'',
     ''nr bits'']"

definition flag_bit :: "string \<Rightarrow> u64" where
  "flag_bit n = push_bit (length (takeWhile (\<lambda>k. k \<noteq> n) flag_names)) 1"

definition flag_names_req :: req_flags where
  "flag_names_req = \<lparr>REQ_WRITE = flag_bit ''write'', REQ_SYNC = flag_bit ''sync'',
     REQ_META = flag_bit ''meta'', REQ_DISCARD = flag_bit ''discard'', REQ_FUA = flag_bit ''fua'',
     REQ_FLUSH = flag_bit ''flush'', REQ_SOFTBARRIER = flag_bit ''soft barrier'',
     REQ_FLUSH_SEQ = flag_bit ''flush seq''\<rparr>"

lemma flag_names_req_simps [simp]:
  "REQ_WRITE flag_names_req = 1" "REQ_SYNC flag_names_req = 0x10"
  "REQ_META flag_names_req = 0x20" "REQ_DISCARD flag_names_req = 0x80"
  "REQ_FUA flag_names_req = 0x800" "REQ_FLUSH flag_names_req = 0x1000"
  "REQ_SOFTBARRIER flag_names_req = 0x10000" "REQ_FLUSH_SEQ flag_names_req = 0x8000000"
  by (simp_all add: flag_names_req_def flag_bit_def flag_names_def)

lemma req_ok_flag_names [simp]: "req_ok flag_names_req"
  by (simp add: req_ok_def req_masks_def)

section \<open>The metadata of an operation and its flag predicates\<close>

record disk_write_op_meta =
  bi_flags :: u64
  bi_rw :: u64
  write_sector :: u64
  meta_size :: u32

definition c_is_async_write :: "req_flags \<Rightarrow> disk_write_op_meta \<Rightarrow> bool" where
  "c_is_async_write R m \<longleftrightarrow>
     \<not> (has_mask (bi_rw m) (REQ_SYNC R) \<or>
        has_mask (bi_rw m) (REQ_FUA R) \<or>
        has_mask (bi_rw m) (REQ_FLUSH R) \<or>
        has_mask (bi_rw m) (REQ_FLUSH_SEQ R) \<or>
        has_mask (bi_rw m) (REQ_SOFTBARRIER R)) \<and>
     has_mask (bi_rw m) (REQ_WRITE R)"

definition c_is_barrier_write :: "req_flags \<Rightarrow> disk_write_op_meta \<Rightarrow> bool" where
  "c_is_barrier_write R m \<longleftrightarrow>
     (has_mask (bi_rw m) (REQ_FUA R) \<or>
      has_mask (bi_rw m) (REQ_FLUSH R) \<or>
      has_mask (bi_rw m) (REQ_FLUSH_SEQ R) \<or>
      has_mask (bi_rw m) (REQ_SOFTBARRIER R)) \<and>
     has_mask (bi_rw m) (REQ_WRITE R)"

definition c_is_meta :: "req_flags \<Rightarrow> disk_write_op_meta \<Rightarrow> bool" where
  "c_is_meta R m \<longleftrightarrow> has_mask (bi_rw m) (REQ_META R)"

definition c_has_write_flag :: "req_flags \<Rightarrow> disk_write_op_meta \<Rightarrow> bool" where
  "c_has_write_flag R m \<longleftrightarrow> has_mask (bi_rw m) (REQ_WRITE R)"

definition c_has_flush_flag :: "req_flags \<Rightarrow> disk_write_op_meta \<Rightarrow> bool" where
  "c_has_flush_flag R m \<longleftrightarrow> has_mask (bi_rw m) (REQ_FLUSH R)"

definition c_has_flush_seq_flag :: "req_flags \<Rightarrow> disk_write_op_meta \<Rightarrow> bool" where
  "c_has_flush_seq_flag R m \<longleftrightarrow> has_mask (bi_rw m) (REQ_FLUSH_SEQ R)"

definition c_has_FUA_flag :: "req_flags \<Rightarrow> disk_write_op_meta \<Rightarrow> bool" where
  "c_has_FUA_flag R m \<longleftrightarrow> has_mask (bi_rw m) (REQ_FUA R)"

definition c_set_flush_flag :: "req_flags \<Rightarrow> disk_write_op_meta \<Rightarrow> disk_write_op_meta" where
  "c_set_flush_flag R m = m\<lparr>bi_rw := bi_rw m OR REQ_FLUSH R\<rparr>"

definition c_set_flush_seq_flag :: "req_flags \<Rightarrow> disk_write_op_meta \<Rightarrow> disk_write_op_meta" where
  "c_set_flush_seq_flag R m = m\<lparr>bi_rw := bi_rw m OR REQ_FLUSH_SEQ R\<rparr>"

definition c_clear_flush_flag :: "req_flags \<Rightarrow> disk_write_op_meta \<Rightarrow> disk_write_op_meta" where
  "c_clear_flush_flag R m = m\<lparr>bi_rw := bi_rw m AND NOT (REQ_FLUSH R)\<rparr>"

definition c_clear_flush_seq_flag :: "req_flags \<Rightarrow> disk_write_op_meta \<Rightarrow> disk_write_op_meta" where
  "c_clear_flush_seq_flag R m = m\<lparr>bi_rw := bi_rw m AND NOT (REQ_FLUSH_SEQ R)\<rparr>"

lemmas meta_defs = c_is_async_write_def c_is_barrier_write_def c_is_meta_def c_has_write_flag_def
  c_has_flush_flag_def c_has_flush_seq_flag_def c_has_FUA_flag_def c_set_flush_flag_def
  c_set_flush_seq_flag_def c_clear_flush_flag_def c_clear_flush_seq_flag_def

section \<open>The class disk_write\<close>

record disk_write =
  metadata :: disk_write_op_meta
  dw_data :: "byte list option"

definition is_async_write :: "req_flags \<Rightarrow> disk_write \<Rightarrow> bool" where
  "is_async_write R dw = c_is_async_write R (metadata dw)"

definition is_barrier_write :: "req_flags \<Rightarrow> disk_write \<Rightarrow> bool" where
  "is_barrier_write R dw = c_is_barrier_write R (metadata dw)"

definition is_meta :: "req_flags \<Rightarrow> disk_write \<Rightarrow> bool" where
  "is_meta R dw = c_is_meta R (metadata dw)"

definition has_write_flag :: "req_flags \<Rightarrow> disk_write \<Rightarrow> bool" where
  "has_write_flag R dw = c_has_write_flag R (metadata dw)"

definition has_flush_flag :: "req_flags \<Rightarrow> disk_write \<Rightarrow> bool" where
  "has_flush_flag R dw = c_has_flush_flag R (metadata dw)"

definition has_flush_seq_flag :: "req_flags \<Rightarrow> disk_write \<Rightarrow> bool" where
  "has_flush_seq_flag R dw = c_has_flush_seq_flag R (metadata dw)"

definition has_FUA_flag :: "req_flags \<Rightarrow> disk_write \<Rightarrow> bool" where
  "has_FUA_flag R dw = c_has_FUA_flag R (metadata dw)"

definition set_flush_flag :: "req_flags \<Rightarrow> disk_write \<Rightarrow> disk_write" where
  "set_flush_flag R dw = dw\<lparr>metadata := c_set_flush_flag R (metadata dw)\<rparr>"

definition set_flush_seq_flag :: "req_flags \<Rightarrow> disk_write \<Rightarrow> disk_write" where
  "set_flush_seq_flag R dw = dw\<lparr>metadata := c_set_flush_seq_flag R (metadata dw)\<rparr>"

definition clear_flush_flag :: "req_flags \<Rightarrow> disk_write \<Rightarrow> disk_write" where
  "clear_flush_flag R dw = dw\<lparr>metadata := c_clear_flush_flag R (metadata dw)\<rparr>"

definition clear_flush_seq_flag :: "req_flags \<Rightarrow> disk_write \<Rightarrow> disk_write" where
  "clear_flush_seq_flag R dw = dw\<lparr>metadata := c_clear_flush_seq_flag R (metadata dw)\<rparr>"

lemmas dw_flag_defs = is_async_write_def is_barrier_write_def is_meta_def has_write_flag_def
  has_flush_flag_def has_flush_seq_flag_def has_FUA_flag_def set_flush_flag_def
  set_flush_seq_flag_def clear_flush_flag_def clear_flush_seq_flag_def

text \<open>
  The constructor and \<open>set_data\<close> copy \<open>metadata.size\<close> bytes from the caller's buffer
  (\<open>memcpy\<close>).  Reading past the end of that buffer is undefined behaviour and is the result
  \<open>None\<close>.
\<close>

definition copy_data :: "u32 \<Rightarrow> byte list option \<Rightarrow> byte list option \<Rightarrow> byte list option option" where
  "copy_data n old d =
     (if 0 < n then
        (case d of
           None \<Rightarrow> Some old
         | Some bs \<Rightarrow> if unat n \<le> length bs then Some (Some (take (unat n) bs)) else None)
      else Some old)"

definition make_disk_write :: "disk_write_op_meta \<Rightarrow> byte list option \<Rightarrow> disk_write option" where
  "make_disk_write m d =
     map_option (\<lambda>bs. \<lparr>metadata = m, dw_data = bs\<rparr>) (copy_data (meta_size m) None d)"

definition set_data :: "disk_write \<Rightarrow> byte list option \<Rightarrow> disk_write option" where
  "set_data dw d =
     map_option (\<lambda>bs. dw\<lparr>dw_data := bs\<rparr>) (copy_data (meta_size (metadata dw)) (dw_data dw) d)"

text \<open>A buffer an operation holds has exactly \<open>metadata.size\<close> bytes.\<close>

definition dw_wf :: "disk_write \<Rightarrow> bool" where
  "dw_wf dw \<longleftrightarrow>
     (case dw_data dw of None \<Rightarrow> True | Some bs \<Rightarrow> length bs = unat (meta_size (metadata dw)))"

text \<open>
  \<open>operator==\<close>: the four metadata fields, then the null pointers, then \<open>memcmp\<close> over
  \<open>a.metadata.size\<close> bytes; \<open>None\<close> where \<open>memcmp\<close> would read past a buffer.
\<close>

definition memcmp_eq :: "nat \<Rightarrow> byte list \<Rightarrow> byte list \<Rightarrow> bool option" where
  "memcmp_eq n a b =
     (if n \<le> length a \<and> n \<le> length b then Some (take n a = take n b) else None)"

definition dw_eq :: "disk_write \<Rightarrow> disk_write \<Rightarrow> bool option" where
  "dw_eq a b =
     (let ma = metadata a; mb = metadata b in
      if (bi_flags ma, bi_rw ma, write_sector ma, meta_size ma) =
         (bi_flags mb, bi_rw mb, write_sector mb, meta_size mb) then
        (case (dw_data a, dw_data b) of
           (None, Some _) \<Rightarrow> Some False
         | (Some _, None) \<Rightarrow> Some False
         | (None, None) \<Rightarrow> Some True
         | (Some da, Some db) \<Rightarrow> memcmp_eq (unat (meta_size ma)) da db)
      else Some False)"

definition dw_ne :: "disk_write \<Rightarrow> disk_write \<Rightarrow> bool option" where
  "dw_ne a b = map_option Not (dw_eq a b)"

definition get_data :: "disk_write \<Rightarrow> byte list option" where
  "get_data dw = dw_data dw"

lemma make_disk_write_wf: "make_disk_write m d = Some dw \<Longrightarrow> dw_wf dw \<and> metadata dw = m"
  by (auto simp: make_disk_write_def copy_data_def dw_wf_def split: if_splits option.splits)

lemma set_data_wf: "dw_wf dw \<Longrightarrow> set_data dw d = Some dw' \<Longrightarrow> dw_wf dw' \<and> metadata dw' = metadata dw"
  by (auto simp: set_data_def copy_data_def dw_wf_def split: if_splits option.splits)

lemma meta_eqI:
  "(bi_flags a, bi_rw a, write_sector a, meta_size a) =
   (bi_flags b, bi_rw b, write_sector b, meta_size b) \<longleftrightarrow> (a :: disk_write_op_meta) = b"
  by auto

lemma dw_eq_iff: "dw_wf a \<Longrightarrow> dw_wf b \<Longrightarrow> dw_eq a b = Some (a = b)"
proof -
  assume "dw_wf a" "dw_wf b"
  moreover have "a = b \<longleftrightarrow> metadata a = metadata b \<and> dw_data a = dw_data b"
    by auto
  ultimately show ?thesis
    by (auto simp: dw_eq_def Let_def dw_wf_def memcmp_eq_def meta_eqI simp del: prod.inject
        split: option.splits)
qed

section \<open>How the flag operations change the tests\<close>

lemma req_okD:
  assumes "req_ok R"
  shows "REQ_FLUSH R \<noteq> 0" "REQ_FLUSH_SEQ R \<noteq> 0" "REQ_WRITE R \<noteq> 0" "REQ_FUA R \<noteq> 0"
    "REQ_FLUSH R AND REQ_WRITE R = 0" "REQ_FLUSH R AND REQ_META R = 0"
    "REQ_FLUSH R AND REQ_FUA R = 0" "REQ_FLUSH R AND REQ_SOFTBARRIER R = 0"
    "REQ_FLUSH R AND REQ_FLUSH_SEQ R = 0" "REQ_FLUSH R AND REQ_SYNC R = 0"
    "REQ_FLUSH_SEQ R AND REQ_WRITE R = 0" "REQ_FLUSH_SEQ R AND REQ_META R = 0"
    "REQ_FLUSH_SEQ R AND REQ_FUA R = 0" "REQ_FLUSH_SEQ R AND REQ_SOFTBARRIER R = 0"
    "REQ_FLUSH_SEQ R AND REQ_FLUSH R = 0" "REQ_FLUSH_SEQ R AND REQ_SYNC R = 0"
  using assms by (auto simp: req_ok_def req_masks_def and.commute)

lemma flag_tests_set_flush [flag_simps]:
  assumes "req_ok R"
  shows "has_flush_flag R (set_flush_flag R dw)"
    "has_write_flag R (set_flush_flag R dw) = has_write_flag R dw"
    "has_FUA_flag R (set_flush_flag R dw) = has_FUA_flag R dw"
    "has_flush_seq_flag R (set_flush_flag R dw) = has_flush_seq_flag R dw"
    "is_meta R (set_flush_flag R dw) = is_meta R dw"
  using req_okD [OF assms] by (auto simp: dw_flag_defs meta_defs or_mask_other)

lemma flag_tests_clear_flush [flag_simps]:
  assumes "req_ok R"
  shows "\<not> has_flush_flag R (clear_flush_flag R dw)"
    "has_write_flag R (clear_flush_flag R dw) = has_write_flag R dw"
    "has_FUA_flag R (clear_flush_flag R dw) = has_FUA_flag R dw"
    "has_flush_seq_flag R (clear_flush_flag R dw) = has_flush_seq_flag R dw"
    "is_meta R (clear_flush_flag R dw) = is_meta R dw"
  using req_okD [OF assms] by (auto simp: dw_flag_defs meta_defs clear_mask_other)

lemma flag_tests_set_flush_seq [flag_simps]:
  assumes "req_ok R"
  shows "has_flush_seq_flag R (set_flush_seq_flag R dw)"
    "has_write_flag R (set_flush_seq_flag R dw) = has_write_flag R dw"
    "has_FUA_flag R (set_flush_seq_flag R dw) = has_FUA_flag R dw"
    "has_flush_flag R (set_flush_seq_flag R dw) = has_flush_flag R dw"
    "is_meta R (set_flush_seq_flag R dw) = is_meta R dw"
  using req_okD [OF assms] by (auto simp: dw_flag_defs meta_defs or_mask_other)

lemma flag_tests_clear_flush_seq [flag_simps]:
  assumes "req_ok R"
  shows "\<not> has_flush_seq_flag R (clear_flush_seq_flag R dw)"
    "has_write_flag R (clear_flush_seq_flag R dw) = has_write_flag R dw"
    "has_FUA_flag R (clear_flush_seq_flag R dw) = has_FUA_flag R dw"
    "has_flush_flag R (clear_flush_seq_flag R dw) = has_flush_flag R dw"
    "is_meta R (clear_flush_seq_flag R dw) = is_meta R dw"
  using req_okD [OF assms] by (auto simp: dw_flag_defs meta_defs clear_mask_other)

lemma flag_ops_frame [simp]:
  "dw_data (set_flush_flag R dw) = dw_data dw" "dw_data (clear_flush_flag R dw) = dw_data dw"
  "dw_data (set_flush_seq_flag R dw) = dw_data dw"
  "dw_data (clear_flush_seq_flag R dw) = dw_data dw"
  "write_sector (metadata (clear_flush_flag R dw)) = write_sector (metadata dw)"
  "write_sector (metadata (clear_flush_seq_flag R dw)) = write_sector (metadata dw)"
  "meta_size (metadata (clear_flush_flag R dw)) = meta_size (metadata dw)"
  "meta_size (metadata (clear_flush_seq_flag R dw)) = meta_size (metadata dw)"
  by (simp_all add: dw_flag_defs meta_defs)

lemma barrier_has_write: "is_barrier_write R dw \<Longrightarrow> has_write_flag R dw"
  by (simp add: dw_flag_defs meta_defs)

lemma async_not_barrier: "is_async_write R dw \<Longrightarrow> \<not> is_barrier_write R dw"
  by (auto simp: dw_flag_defs meta_defs)

section \<open>Sample operations\<close>

text \<open>Concrete operations for the witnesses of the development.\<close>

definition sample_op :: "u64 \<Rightarrow> u64 \<Rightarrow> byte list \<Rightarrow> disk_write" where
  "sample_op rw sector bs =
     \<lparr>metadata = \<lparr>bi_flags = 0, bi_rw = rw, write_sector = sector, meta_size = of_nat (length bs)\<rparr>,
      dw_data = Some bs\<rparr>"

lemma sample_op_simps [simp]:
  "bi_rw (metadata (sample_op rw sector bs)) = rw"
  "write_sector (metadata (sample_op rw sector bs)) = sector"
  "meta_size (metadata (sample_op rw sector bs)) = of_nat (length bs)"
  "bi_flags (metadata (sample_op rw sector bs)) = 0"
  "dw_data (sample_op rw sector bs) = Some bs"
  by (simp_all add: sample_op_def)

end
