(* ===== verification/Disk_Wrapper.thy ===== *)
theory Disk_Wrapper
  imports Disk_Write "HOL-Library.Finite_Map"
begin

text \<open>
  \<open>code/disk_wrapper.c\<close>: the block device \<open>/dev/hwm\<close>, which logs the write requests that pass
  through it and hands the log to user space one entry at a time.

  The log is a linked list in kernel memory.  Memory is a finite map from addresses to nodes:
  a node that is freed leaves the map, and following a pointer to it is \<open>None\<close> (a use after
  free), as is a copy past the end of a buffer.  The allocator, \<open>access_ok\<close> and \<open>copy_to_user\<close> are
  the kernel's: what they return is an argument.
\<close>

section \<open>State\<close>

record write_node =
  node_meta :: disk_write_op_meta
  node_data :: "byte list option"
  node_next :: "nat option"

type_synonym heap = "(nat, write_node) fmap"

record hwm_device =
  log_on :: bool
  heap :: heap
  writes :: "nat option"
  current_write :: "nat option"
  current_log_write :: "nat option"

definition empty_device :: hwm_device where
  "empty_device = \<lparr>log_on = False, heap = fmempty, writes = None, current_write = None,
     current_log_write = None\<rparr>"

text \<open>The loop of \<open>free_logs\<close> frees the node and goes on with its successor.\<close>

function free_loop :: "heap \<Rightarrow> nat option \<Rightarrow> heap option" where
  "free_loop h None = Some h"
| "free_loop h (Some a) =
     (case fmlookup h a of
        None \<Rightarrow> None
      | Some n \<Rightarrow> free_loop (fmdrop a h) (node_next n))"
  by pat_completeness auto
termination
proof (relation "measure (\<lambda>(h, a). card (fmdom' h))", goal_cases)
  case (2 h a n)
  then have "a \<in> fmdom' h" by (simp add: fmdom'I)
  then have "card (fmdom' h - {a}) < card (fmdom' h)" by (intro psubset_card_mono) auto
  then show ?case by simp
qed simp

definition free_logs :: "hwm_device \<Rightarrow> hwm_device option" where
  "free_logs D =
     map_option (\<lambda>h. D\<lparr>heap := h, current_write := None, writes := None, current_log_write := None\<rparr>)
       (free_loop (heap D) (writes D))"

section \<open>The ioctls\<close>

datatype wrapper_errno = W_ENODATA | W_EFAULT | W_EINVAL

definition HWM_LOG_OFF :: u32 where "HWM_LOG_OFF = 0xff00"
definition HWM_LOG_ON :: u32 where "HWM_LOG_ON = 0xff01"
definition HWM_GET_LOG_META :: u32 where "HWM_GET_LOG_META = 0xff02"
definition HWM_GET_LOG_DATA :: u32 where "HWM_GET_LOG_DATA = 0xff03"
definition HWM_NEXT_ENT :: u32 where "HWM_NEXT_ENT = 0xff04"
definition HWM_CLR_LOG :: u32 where "HWM_CLR_LOG = 0xff05"

lemmas hwm_cmds = HWM_LOG_OFF_def HWM_LOG_ON_def HWM_GET_LOG_META_def HWM_GET_LOG_DATA_def
  HWM_NEXT_ENT_def HWM_CLR_LOG_def

text \<open>What an ioctl leaves in the memory \<open>arg\<close> points to.\<close>

datatype user_mem = Untouched | User_meta disk_write_op_meta | User_data "byte list"

text \<open>
  The copy loops: \<open>ks\<close> is what the calls of \<open>copy_to_user\<close> return, the number of bytes not copied
  (after its end, 0).  The bytes for the next call are taken from \<open>off\<close> on.  For the metadata the
  code adds the offset to a pointer to the structure, that is, in units of the structure: a second
  call reads outside of it.
\<close>

fun copy_data_loop :: "nat list \<Rightarrow> byte list \<Rightarrow> nat \<Rightarrow> byte list" where
  "copy_data_loop [] d off = drop off d"
| "copy_data_loop (k # ks) d off =
     (if length d - off = 0 then []
      else (let not_copied = min k (length d - off) in
        take (length d - off - not_copied) (drop off d) @
          copy_data_loop ks d (length d - not_copied)))"

definition copy_meta_loop :: "nat list \<Rightarrow> disk_write_op_meta \<Rightarrow> disk_write_op_meta option" where
  "copy_meta_loop ks m =
     (case ks of
        [] \<Rightarrow> Some m
      | k # _ \<Rightarrow> if k = 0 then Some m else None)"

definition disk_wrapper_ioctl :: "bool \<Rightarrow> nat list \<Rightarrow> u32 \<Rightarrow> hwm_device
    \<Rightarrow> (wrapper_errno option \<times> user_mem \<times> hwm_device) option" where
  "disk_wrapper_ioctl access_ok ks cmd D =
     (if cmd = HWM_LOG_OFF then Some (None, Untouched, D\<lparr>log_on := False\<rparr>)
      else if cmd = HWM_LOG_ON then Some (None, Untouched, D\<lparr>log_on := True\<rparr>)
      else if cmd = HWM_GET_LOG_META then
        (case current_log_write D of
           None \<Rightarrow> Some (Some W_ENODATA, Untouched, D)
         | Some a \<Rightarrow>
             if \<not> access_ok then Some (Some W_EFAULT, Untouched, D)
             else Option.bind (fmlookup (heap D) a)
               (\<lambda>n. map_option (\<lambda>m. (None, User_meta m, D)) (copy_meta_loop ks (node_meta n))))
      else if cmd = HWM_GET_LOG_DATA then
        (case current_log_write D of
           None \<Rightarrow> Some (Some W_ENODATA, Untouched, D)
         | Some a \<Rightarrow>
             Option.bind (fmlookup (heap D) a)
               (\<lambda>n. if \<not> access_ok then Some (Some W_EFAULT, Untouched, D)
                    else Option.bind (node_data n)
                      (\<lambda>d. let size = unat (meta_size (node_meta n)) in
                           if length d < size then None
                           else Some (None, User_data (copy_data_loop ks (take size d) 0), D))))
      else if cmd = HWM_NEXT_ENT then
        (case current_log_write D of
           None \<Rightarrow> Some (Some W_ENODATA, Untouched, D)
         | Some a \<Rightarrow>
             map_option (\<lambda>n. (None, Untouched, D\<lparr>current_log_write := node_next n\<rparr>))
               (fmlookup (heap D) a))
      else if cmd = HWM_CLR_LOG then map_option (\<lambda>D'. (None, Untouched, D')) (free_logs D)
      else Some (Some W_EINVAL, Untouched, D))"

section \<open>Requests\<close>

text \<open>
  The request as the driver sees it.  It is passed on to the wrapped device unchanged, whatever
  happens in the log.
\<close>

record wrapped_bio =
  wb_flags :: u64
  wb_rw :: u64
  wb_sector :: u64
  wb_size :: u32
  wb_segs :: "byte list list"

definition is_logged :: "req_flags \<Rightarrow> wrapped_bio \<Rightarrow> bool" where
  "is_logged R b \<longleftrightarrow>
     has_mask (wb_rw b) (REQ_FLUSH R) \<or> has_mask (wb_rw b) (REQ_FUA R) \<or>
     has_mask (wb_rw b) (REQ_FLUSH_SEQ R) \<or> has_mask (wb_rw b) (REQ_WRITE R) \<or>
     has_mask (wb_rw b) (REQ_DISCARD R)"

definition bio_meta :: "wrapped_bio \<Rightarrow> disk_write_op_meta" where
  "bio_meta b = \<lparr>bi_flags = wb_flags b, bi_rw = wb_rw b, write_sector = wb_sector b,
     meta_size = wb_size b\<rparr>"

text \<open>
  \<open>bio_for_each_segment\<close>: the segments are copied one after the other into the buffer.  \<open>None\<close> if
  they do not fit.
\<close>

fun copy_segments :: "byte list \<Rightarrow> nat \<Rightarrow> byte list list \<Rightarrow> byte list option" where
  "copy_segments buf copied_data [] = Some buf"
| "copy_segments buf copied_data (s # segs) =
     (if copied_data + length s \<le> length buf
      then copy_segments (take copied_data buf @ s @ drop (copied_data + length s) buf)
             (copied_data + length s) segs
      else None)"

text \<open>
  \<open>node\<close> is the address \<open>kzalloc\<close> returns, \<open>junk\<close> the contents of the buffer \<open>kmalloc\<close> returns;
  \<open>None\<close> is a null pointer.  When the buffer cannot be allocated the node is freed, but stays
  linked: the list, \<open>current_write\<close> and possibly \<open>writes\<close> point to it.
\<close>

definition disk_wrapper_bio :: "req_flags \<Rightarrow> nat option \<Rightarrow> (nat \<Rightarrow> byte) option \<Rightarrow> wrapped_bio
    \<Rightarrow> hwm_device \<Rightarrow> hwm_device option" where
  "disk_wrapper_bio R node junk b D =
     (if log_on D \<and> is_logged R b then
        (case node of
           None \<Rightarrow> Some D
         | Some w \<Rightarrow>
             (let m = bio_meta b;
                  h = fmupd w \<lparr>node_meta = m, node_data = None, node_next = None\<rparr> (heap D)
              in Option.bind
                   (case current_write D of
                      None \<Rightarrow> Some (D\<lparr>heap := h, writes := Some w, current_log_write := Some w\<rparr>)
                    | Some c \<Rightarrow>
                        map_option (\<lambda>n. D\<lparr>heap := fmupd c (n\<lparr>node_next := Some w\<rparr>) h\<rparr>) (fmlookup h c))
                   (\<lambda>D1.
                      let D2 = D1\<lparr>current_write := Some w\<rparr> in
                      case junk of
                        None \<Rightarrow> Some (D2\<lparr>heap := fmdrop w (heap D2)\<rparr>)
                      | Some j \<Rightarrow>
                          Option.bind (copy_segments (map j [0..<unat (meta_size m)]) 0 (wb_segs b))
                            (\<lambda>d. map_option
                                   (\<lambda>n. D2\<lparr>heap := fmupd w (n\<lparr>node_data := Some d\<rparr>) (heap D2)\<rparr>)
                                   (fmlookup (heap D2) w)))))
      else Some D)"

section \<open>Module initialisation and cleanup\<close>

text \<open>
  What the kernel answers while the module is loaded, and what the module holds of it.  The
  target and flags paths are module parameters.
\<close>

record wrapper_env =
  env_major :: int
  target_found :: bool
  target_has_queue :: bool
  target_has_fn :: bool
  flags_found :: bool
  flags_has_queue :: bool
  disk_allocated :: bool
  queue_allocated :: bool

record wrapper_module =
  registered :: bool
  holds_target :: bool
  holds_flags :: bool
  has_disk :: bool
  has_queue :: bool
  disk_added :: bool
  device :: hwm_device

datatype init_errno = I_ENOTTY | I_ENOMEM

definition disk_wrapper_init :: "wrapper_env \<Rightarrow> string \<Rightarrow> string \<Rightarrow> wrapper_module
    \<Rightarrow> init_errno option \<times> wrapper_module" where
  "disk_wrapper_init E target_path flags_path M =
     (if length target_path = 0 then (Some I_ENOTTY, M)
      else if length flags_path = 0 then (Some I_ENOTTY, M)
      else
        (let fail = (\<lambda>M. (Some I_ENOMEM, M\<lparr>registered := False\<rparr>));
             M1 = M\<lparr>device := (device M)\<lparr>log_on := False\<rparr>\<rparr>
         in if env_major E \<le> 0 then fail M1
            else
              (let M2 = M1\<lparr>registered := True\<rparr> in
               if \<not> target_found E then fail M2
               else
                 (let M3 = M2\<lparr>holds_target := True\<rparr> in
                  if \<not> target_has_queue E then fail M3
                  else if \<not> target_has_fn E then fail M3
                  else if \<not> flags_found E then fail M3
                  else if \<not> flags_has_queue E then fail (M3\<lparr>holds_flags := True\<rparr>)
                  else if \<not> disk_allocated E then fail M3
                  else
                    (let M4 = M3\<lparr>has_disk := True\<rparr> in
                     if \<not> queue_allocated E then fail M4
                     else (None, M4\<lparr>has_queue := True, disk_added := True\<rparr>))))))"

definition hello_cleanup :: "wrapper_module \<Rightarrow> wrapper_module option" where
  "hello_cleanup M =
     map_option
       (\<lambda>D. M\<lparr>device := D, holds_target := False, has_queue := False, disk_added := False,
              has_disk := False, registered := False\<rparr>)
       (free_logs (device M))"

text \<open>
  The flags of a request as text, as the driver prints them: \<open>nr\<close> is \<open>__REQ_NR_BITS\<close>.  \<open>None\<close> when
  a name past the end of \<open>flag_names\<close> is read.
\<close>

fun flag_lines :: "u64 \<Rightarrow> nat list \<Rightarrow> string list option" where
  "flag_lines w [] = Some []"
| "flag_lines w (i # is) =
     (if has_mask w (push_bit i 1) then
        (if i < length flag_names
         then map_option (\<lambda>ls. (CHR 0x09 # flag_names ! i) # ls) (flag_lines w is) else None)
      else flag_lines w is)"

definition pad8 :: "string \<Rightarrow> string" where
  "pad8 s = replicate (8 - length s) (CHR ''0'') @ s"

definition print_rw_flags :: "nat \<Rightarrow> u64 \<Rightarrow> u64 \<Rightarrow> string list option" where
  "print_rw_flags nr rw flags =
     Option.bind (flag_lines rw [0..<nr])
       (\<lambda>l1. map_option
          (\<lambda>l2. [CHR 0x09 # ''raw rw flags: 0x'' @ pad8 (hex_string (unat rw))] @ l1 @
                [CHR 0x09 # ''raw flags flags: '' @ pad8 (hex_string (unat flags))] @ l2)
          (flag_lines flags [0..<nr]))"

end
