(* ===== verification/Disk_Wrapper_Log.thy ===== *)
theory Disk_Wrapper_Log
  imports Disk_Wrapper
begin

text \<open>
  The log of \<open>Disk_Wrapper\<close> as a list.  \<open>log_inv\<close> says that the linked list is well formed;
  \<open>logged\<close> and \<open>unread\<close> read it off, all of it and from the cursor on.  Every operation keeps the
  invariant as long as the memory for the data of a request is there.  The locale \<open>log_device\<close>
  is what the harness relies on when it fetches the log.
\<close>

section \<open>The list in memory\<close>

fun chain :: "heap \<Rightarrow> nat option \<Rightarrow> nat list \<Rightarrow> bool" where
  "chain h p [] = (p = None)"
| "chain h p (a # as) =
     (p = Some a \<and> (case fmlookup h a of None \<Rightarrow> False | Some n \<Rightarrow> chain h (node_next n) as))"

text \<open>The operation a node stands for: a request without data has no buffer in user space.\<close>

definition entry :: "write_node \<Rightarrow> disk_write" where
  "entry n = \<lparr>metadata = node_meta n,
     dw_data = (if meta_size (node_meta n) = 0 then None else node_data n)\<rparr>"

function walk :: "heap \<Rightarrow> nat option \<Rightarrow> disk_write list" where
  "walk h None = []"
| "walk h (Some a) =
     (case fmlookup h a of
        None \<Rightarrow> []
      | Some n \<Rightarrow> entry n # walk (fmdrop a h) (node_next n))"
  by pat_completeness auto
termination
proof (relation "measure (\<lambda>(h, a). card (fmdom' h))", goal_cases)
  case (2 h a n)
  then have "a \<in> fmdom' h" by (simp add: fmdom'I)
  then have "card (fmdom' h - {a}) < card (fmdom' h)" by (intro psubset_card_mono) auto
  then show ?case by simp
qed simp

definition logged :: "hwm_device \<Rightarrow> disk_write list" where
  "logged D = walk (heap D) (writes D)"

definition unread :: "hwm_device \<Rightarrow> disk_write list" where
  "unread D = walk (heap D) (current_log_write D)"

definition node_ok :: "write_node \<Rightarrow> bool" where
  "node_ok n \<longleftrightarrow>
     (case node_data n of None \<Rightarrow> False | Some d \<Rightarrow> length d = unat (meta_size (node_meta n)))"

definition log_inv :: "nat list \<Rightarrow> hwm_device \<Rightarrow> bool" where
  "log_inv as D \<longleftrightarrow>
     chain (heap D) (writes D) as \<and> distinct as \<and> fmdom' (heap D) = set as \<and>
     current_write D = (if as = [] then None else Some (last as)) \<and>
     (\<forall>a\<in>set as. node_ok (the (fmlookup (heap D) a))) \<and>
     (case current_log_write D of None \<Rightarrow> True | Some a \<Rightarrow> a \<in> set as)"

lemma chain_frame:
  "(\<And>a. a \<in> set as \<Longrightarrow> map_option node_next (fmlookup h' a) = map_option node_next (fmlookup h a)) \<Longrightarrow>
    chain h p as \<Longrightarrow> chain h' p as"
proof (induction as arbitrary: p)
  case (Cons a as)
  obtain n where n: "p = Some a" "fmlookup h a = Some n" "chain h (node_next n) as"
    using Cons.prems(2) by (auto split: option.splits)
  moreover have "map_option node_next (fmlookup h' a) = Some (node_next n)"
    using Cons.prems(1) [of a] n by simp
  moreover have "chain h' (node_next n) as" using Cons.IH [OF _ n(3)] Cons.prems(1) by simp
  ultimately show ?case by auto
qed simp

lemma chain_walk:
  "chain h p as \<Longrightarrow> distinct as \<Longrightarrow> walk h p = map (\<lambda>a. entry (the (fmlookup h a))) as"
proof (induction as arbitrary: h p)
  case (Cons a as)
  then obtain n where n: "p = Some a" "fmlookup h a = Some n" "chain h (node_next n) as"
    by (auto split: option.splits)
  then have "chain (fmdrop a h) (node_next n) as"
    using Cons.prems(2) by (intro chain_frame [OF _ n(3)]) auto
  from Cons.IH [OF this] have "walk (fmdrop a h) (node_next n) =
      map (\<lambda>b. entry (the (fmlookup (fmdrop a h) b))) as"
    using Cons.prems(2) by simp
  also have "\<dots> = map (\<lambda>b. entry (the (fmlookup h b))) as"
    using Cons.prems(2) by (intro map_cong) auto
  finally show ?case using n by simp
qed simp

lemma chain_free: "chain h p as \<Longrightarrow> distinct as \<Longrightarrow> free_loop h p = Some (fmdrop_set (set as) h)"
proof (induction as arbitrary: h p)
  case (Cons a as)
  then obtain n where n: "p = Some a" "fmlookup h a = Some n" "chain h (node_next n) as"
    by (auto split: option.splits)
  then have "chain (fmdrop a h) (node_next n) as"
    using Cons.prems(2) by (intro chain_frame [OF _ n(3)]) auto
  then have "free_loop (fmdrop a h) (node_next n) = Some (fmdrop_set (set as) (fmdrop a h))"
    using Cons by simp
  moreover have "fmdrop_set (set as) (fmdrop a h) = fmdrop_set (set (a # as)) h"
    by (rule fmap_ext) auto
  ultimately show ?case using n by simp
qed (auto intro: fmap_ext)

lemma chain_suffix:
  "chain h p as \<Longrightarrow> a \<in> set as \<Longrightarrow> chain h (Some a) (dropWhile (\<lambda>b. b \<noteq> a) as)"
  by (induction as arbitrary: p) (auto split: option.splits)

lemma dropWhile_hd: "a \<in> set as \<Longrightarrow> \<exists>bs. dropWhile (\<lambda>b. b \<noteq> a) as = a # bs"
  by (induction as) auto

lemma chain_lookup: "chain h p as \<Longrightarrow> a \<in> set as \<Longrightarrow> fmlookup h a \<noteq> None"
  by (induction as arbitrary: p) (auto split: option.splits)

text \<open>Appending a node: the last node's successor becomes the new one.\<close>

lemma chain_snoc:
  assumes "chain h p (bs @ [c])" "fmlookup h' c = Some n" "node_next n = Some w"
    "fmlookup h' w = Some m" "node_next m = None" "c \<notin> set bs"
    "\<And>a. a \<in> set bs \<Longrightarrow> fmlookup h' a = fmlookup h a"
  shows "chain h' p (bs @ [c, w])"
  using assms(1,6,7)
proof (induction bs arbitrary: p)
  case Nil
  then show ?case using assms(2-5) by (auto split: option.splits)
next
  case (Cons b bs)
  have "fmlookup h' b = fmlookup h b" using Cons.prems(3) by simp
  then show ?case using Cons by (auto split: option.splits)
qed

section \<open>What the invariant gives\<close>

lemma log_inv_logged: "log_inv as D \<Longrightarrow> logged D = map (\<lambda>a. entry (the (fmlookup (heap D) a))) as"
  by (simp add: log_inv_def logged_def chain_walk)

lemma log_inv_unread:
  assumes "log_inv as D"
  shows "unread D = (case current_log_write D of
      None \<Rightarrow> []
    | Some a \<Rightarrow> map (\<lambda>b. entry (the (fmlookup (heap D) b))) (dropWhile (\<lambda>b. b \<noteq> a) as))"
proof (cases "current_log_write D")
  case (Some a)
  then have "chain (heap D) (Some a) (dropWhile (\<lambda>b. b \<noteq> a) as)" "distinct (dropWhile (\<lambda>b. b \<noteq> a) as)"
    using assms chain_suffix by (auto simp: log_inv_def)
  then show ?thesis using Some chain_walk by (simp add: unread_def del: walk.simps)
qed (simp add: unread_def)

lemma log_inv_empty: "log_inv [] empty_device"
  by (simp add: log_inv_def empty_device_def)

lemma copy_data_loop_all: "off \<le> length d \<Longrightarrow> copy_data_loop ks d off = drop off d"
proof (induction ks d off rule: copy_data_loop.induct)
  case (2 k ks d off)
  show ?case
  proof (cases "length d - off = 0")
    case False
    define nc where "nc = min k (length d - off)"
    have nc: "nc \<le> length d - off" by (simp add: nc_def)
    have "copy_data_loop ks d (length d - nc) = drop (length d - nc) d"
      using 2(1) [OF False nc_def] by simp
    then have "copy_data_loop (k # ks) d off =
        take (length d - off - nc) (drop off d) @ drop (length d - nc) d"
      using False by (simp add: nc_def Let_def)
    also have "drop (length d - nc) d = drop (length d - off - nc) (drop off d)"
      using nc 2(2) by (simp add: add.commute)
    finally show ?thesis by (simp only: append_take_drop_id)
  qed (use 2(2) in simp)
qed simp

lemma copy_segments_concat:
  "c + length (concat segs) \<le> length buf \<Longrightarrow>
    copy_segments buf c segs = Some (take c buf @ concat segs @ drop (c + length (concat segs)) buf)"
proof (induction segs arbitrary: buf c)
  case (Cons s segs)
  let ?b = "take c buf @ s @ drop (c + length s) buf"
  have "c \<le> length buf" "length ?b = length buf" using Cons.prems by auto
  then have "copy_segments ?b (c + length s) segs =
      Some (take (c + length s) ?b @ concat segs @ drop (c + length s + length (concat segs)) ?b)"
    using Cons.prems by (intro Cons.IH) simp
  then show ?case using Cons.prems \<open>c \<le> length buf\<close> by (simp add: ac_simps)
qed simp

section \<open>Logging a request\<close>

text \<open>
  The operation a request is logged as.  Bytes of the buffer no segment covers stay as \<open>kmalloc\<close>
  returned them.
\<close>

definition logged_op :: "(nat \<Rightarrow> byte) \<Rightarrow> wrapped_bio \<Rightarrow> disk_write" where
  "logged_op j b =
     \<lparr>metadata = bio_meta b,
      dw_data =
        (if wb_size b = 0 then None
         else Some (concat (wb_segs b) @ map j [length (concat (wb_segs b))..<unat (wb_size b)]))\<rparr>"

text \<open>The heap after the new node \<open>w\<close> has been linked in, with or without its buffer.\<close>

definition linked :: "nat \<Rightarrow> byte list option \<Rightarrow> wrapped_bio \<Rightarrow> hwm_device \<Rightarrow> heap" where
  "linked w d b D =
     (let h = fmupd w \<lparr>node_meta = bio_meta b, node_data = d, node_next = None\<rparr> (heap D) in
      case current_write D of
        None \<Rightarrow> h
      | Some c \<Rightarrow> (case fmlookup (heap D) c of
            None \<Rightarrow> h | Some n \<Rightarrow> fmupd c (n\<lparr>node_next := Some w\<rparr>) h))"

lemma linked_lookup:
  assumes "log_inv as D" "w \<notin> set as"
  shows "fmlookup (linked w d b D) w = Some \<lparr>node_meta = bio_meta b, node_data = d, node_next = None\<rparr>"
    "a \<noteq> w \<Longrightarrow> current_write D \<noteq> Some a \<Longrightarrow> fmlookup (linked w d b D) a = fmlookup (heap D) a"
    "current_write D = Some a \<Longrightarrow>
      fmlookup (linked w d b D) a = Some ((the (fmlookup (heap D) a))\<lparr>node_next := Some w\<rparr>)"
proof -
  have c: "current_write D = Some c \<Longrightarrow> c \<in> set as \<and> (\<exists>n. fmlookup (heap D) c = Some n)" for c
    using assms(1) chain_lookup by (fastforce simp: log_inv_def split: if_splits)
  show "fmlookup (linked w d b D) w = Some \<lparr>node_meta = bio_meta b, node_data = d, node_next = None\<rparr>"
    using c assms(2) by (auto simp: linked_def Let_def split: option.split)
  show "a \<noteq> w \<Longrightarrow> current_write D \<noteq> Some a \<Longrightarrow> fmlookup (linked w d b D) a = fmlookup (heap D) a"
    by (auto simp: linked_def Let_def split: option.split)
  show "current_write D = Some a \<Longrightarrow>
      fmlookup (linked w d b D) a = Some ((the (fmlookup (heap D) a))\<lparr>node_next := Some w\<rparr>)"
    using c [of a] by (auto simp: linked_def Let_def)
qed

lemma linked_dom: "log_inv as D \<Longrightarrow> fmdom' (linked w d b D) = insert w (set as)"
  using chain_lookup [of "heap D" "writes D" as "last as"]
  by (auto simp: linked_def Let_def log_inv_def fmlookup_dom'_iff split: option.splits if_splits)

lemma linked_chain:
  assumes "log_inv as D" "w \<notin> set as"
  shows "chain (linked w d b D) (if as = [] then Some w else writes D) (as @ [w])"
proof (cases as rule: rev_cases)
  case Nil
  then show ?thesis using linked_lookup(1) [OF assms] by simp
next
  case (snoc bs c)
  have c: "current_write D = Some c" "chain (heap D) (writes D) (bs @ [c])" "c \<notin> set bs"
    using assms(1) snoc by (auto simp: log_inv_def)
  have "chain (linked w d b D) (writes D) (bs @ [c, w])"
  proof (rule chain_snoc [OF c(2) linked_lookup(3) [OF assms c(1)] _ linked_lookup(1) [OF assms]])
    fix a assume a: "a \<in> set bs"
    then have "a \<noteq> w" "a \<noteq> c" using assms(2) snoc c(3) by auto
    then show "fmlookup (linked w d b D) a = fmlookup (heap D) a"
      using linked_lookup(2) [OF assms, of a] c(1) by simp
  qed (use c(3) in simp_all)
  then show ?thesis using snoc by simp
qed

lemma linked_entry:
  assumes "log_inv as D" "w \<notin> set as" "a \<in> set as"
  shows "entry (the (fmlookup (linked w d b D) a)) = entry (the (fmlookup (heap D) a))"
    "node_ok (the (fmlookup (linked w d b D) a)) = node_ok (the (fmlookup (heap D) a))"
proof -
  have aw: "a \<noteq> w" using assms(2,3) by auto
  show "entry (the (fmlookup (linked w d b D) a)) = entry (the (fmlookup (heap D) a))"
    using linked_lookup(2,3) [OF assms(1,2), of a] aw
    by (cases "current_write D = Some a") (simp_all add: entry_def)
  show "node_ok (the (fmlookup (linked w d b D) a)) = node_ok (the (fmlookup (heap D) a))"
    using linked_lookup(2,3) [OF assms(1,2), of a] aw
    by (cases "current_write D = Some a") (simp_all add: node_ok_def split: option.split)
qed

text \<open>The device with the new node linked in, which every branch of the code goes through.\<close>

definition linked_device :: "nat \<Rightarrow> byte list option \<Rightarrow> wrapped_bio \<Rightarrow> hwm_device \<Rightarrow> hwm_device" where
  "linked_device w d b D =
     D\<lparr>heap := linked w d b D, current_write := Some w,
       writes := (if current_write D = None then Some w else writes D),
       current_log_write := (if current_write D = None then Some w else current_log_write D)\<rparr>"

lemma disk_wrapper_bio_linked:
  assumes "log_inv as D" "log_on D" "is_logged R b" "w \<notin> set as"
  shows "disk_wrapper_bio R (Some w) None b D =
      Some (linked_device w None b D \<lparr>heap := fmdrop w (linked w None b D)\<rparr>)" (is ?a)
    and "length (concat (wb_segs b)) \<le> unat (wb_size b) \<Longrightarrow>
      disk_wrapper_bio R (Some w) (Some j) b D =
      Some (linked_device w (Some (concat (wb_segs b) @
        map j [length (concat (wb_segs b))..<unat (wb_size b)])) b D)" (is "_ \<Longrightarrow> ?b")
proof -
  have c: "c \<in> set as \<and> c \<noteq> w \<and> (\<exists>n. fmlookup (heap D) c = Some n)" if "current_write D = Some c" for c
    using assms(1,4) that chain_lookup by (fastforce simp: log_inv_def split: if_splits)
  show ?a
  proof (cases "current_write D")
    case None
    then show ?thesis
      using assms(2,3) by (simp add: disk_wrapper_bio_def linked_device_def linked_def Let_def)
  next
    case (Some x)
    then obtain n where "fmlookup (heap D) x = Some n" "x \<noteq> w" using c by blast
    then show ?thesis
      using assms(2,3) Some by (simp add: disk_wrapper_bio_def linked_device_def linked_def Let_def)
  qed
  assume len: "length (concat (wb_segs b)) \<le> unat (wb_size b)"
  let ?d = "concat (wb_segs b) @ map j [length (concat (wb_segs b))..<unat (wb_size b)]"
  have copy: "copy_segments (map j [0..<unat (meta_size (bio_meta b))]) 0 (wb_segs b) = Some ?d"
    using len copy_segments_concat [of 0 "wb_segs b" "map j [0..<unat (meta_size (bio_meta b))]"]
    by (simp add: bio_meta_def drop_map del: length_concat)
  have comm: "fmupd w y (fmupd x z (fmupd w v h)) = fmupd x z (fmupd w y h)" if "x \<noteq> w"
    for x y z v and h :: heap
    using that by (intro fmap_ext) auto
  show ?b
  proof (cases "current_write D")
    case None
    then show ?thesis
      using assms(2,3) copy
      by (simp add: disk_wrapper_bio_def linked_device_def linked_def Let_def del: length_concat)
  next
    case (Some x)
    then obtain n where "fmlookup (heap D) x = Some n" "x \<noteq> w" using c by blast
    then show ?thesis
      using assms(2,3) Some copy
      by (simp add: disk_wrapper_bio_def linked_device_def linked_def Let_def comm del: length_concat)
  qed
qed

lemma fresh_address: "log_inv as D \<Longrightarrow> fmlookup (heap D) w = None \<Longrightarrow> w \<notin> set as"
  using chain_lookup [of "heap D" "writes D" as w] by (auto simp: log_inv_def)

lemma log_inv_current: "log_inv as D \<Longrightarrow> (current_write D = None) = (as = [])"
  by (simp add: log_inv_def)

lemma log_inv_cursor: "log_inv as D \<Longrightarrow> current_log_write D = Some a \<Longrightarrow> a \<in> set as"
  by (simp add: log_inv_def)

lemma linked_device_inv:
  assumes inv: "log_inv as D" "w \<notin> set as" and d: "length d = unat (wb_size b)"
  defines "D' \<equiv> linked_device w (Some d) b D"
  defines "e \<equiv> \<lparr>metadata = bio_meta b, dw_data = (if wb_size b = 0 then None else Some d)\<rparr>"
  shows "log_inv (as @ [w]) D'" "logged D' = logged D @ [e]"
    "unread D' = (if as = [] \<or> current_log_write D \<noteq> None then unread D @ [e] else [])"
proof -
  let ?h = "linked w (Some d) b D"
  have cur: "current_write D = None \<longleftrightarrow> as = []" by (rule log_inv_current [OF inv(1)])
  have heap: "heap D' = ?h" by (simp add: D'_def linked_device_def)
  have chain: "chain ?h (writes D') (as @ [w])"
    using linked_chain [OF inv, of "Some d" b] cur
    by (cases "as = []") (auto simp: D'_def linked_device_def)
  have ok: "\<forall>a\<in>set (as @ [w]). node_ok (the (fmlookup ?h a))"
    using inv(1) linked_entry(2) [OF inv] linked_lookup(1) [OF inv] d
    by (auto simp: log_inv_def node_ok_def bio_meta_def)
  have cursor: "current_log_write D' = (if as = [] then Some w else current_log_write D)"
    using cur by (simp add: D'_def linked_device_def)
  show inv': "log_inv (as @ [w]) D'"
    using chain ok linked_dom [OF inv(1), of w "Some d" b] inv cursor
    by (auto simp: log_inv_def heap split: option.splits) (auto simp: D'_def linked_device_def)
  have e: "entry (the (fmlookup ?h w)) = e"
    using linked_lookup(1) [OF inv] by (simp add: entry_def e_def bio_meta_def)
  have es: "map (\<lambda>a. entry (the (fmlookup ?h a))) bs = map (\<lambda>a. entry (the (fmlookup (heap D) a))) bs"
    if "set bs \<subseteq> set as" for bs
    using that linked_entry(1) [OF inv] by (intro map_cong) auto
  show "logged D' = logged D @ [e]"
    using log_inv_logged [OF inv'] log_inv_logged [OF inv(1)] es [of as] e by (simp add: heap)
  show "unread D' = (if as = [] \<or> current_log_write D \<noteq> None then unread D @ [e] else [])"
  proof (cases "current_log_write D")
    case None
    then show ?thesis
      using log_inv_unread [OF inv'] log_inv_unread [OF inv(1)] cursor e by (simp add: heap)
  next
    case (Some a)
    then have a: "a \<in> set as" by (rule log_inv_cursor [OF inv(1)])
    then have "dropWhile (\<lambda>b. b \<noteq> a) (as @ [w]) = dropWhile (\<lambda>b. b \<noteq> a) as @ [w]"
      by (simp add: dropWhile_append1)
    moreover have "set (dropWhile (\<lambda>b. b \<noteq> a) as) \<subseteq> set as" by (auto dest: set_dropWhileD)
    moreover have "as \<noteq> []" using a by auto
    ultimately show ?thesis
      using log_inv_unread [OF inv'] log_inv_unread [OF inv(1)] cursor e es Some
      by (simp add: heap del: dropWhile_append)
  qed
qed

lemma disk_wrapper_bio_logs:
  assumes "log_inv as D" "log_on D" "is_logged R b" "w \<notin> set as"
    "length (concat (wb_segs b)) \<le> unat (wb_size b)"
  obtains D' where "disk_wrapper_bio R (Some w) (Some j) b D = Some D'" "log_inv (as @ [w]) D'"
    "log_on D'" "logged D' = logged D @ [logged_op j b]"
    "unread D' = (if as = [] \<or> current_log_write D \<noteq> None then unread D @ [logged_op j b] else [])"
    "current_log_write D' = (if as = [] then Some w else current_log_write D)"
proof -
  let ?d = "concat (wb_segs b) @ map j [length (concat (wb_segs b))..<unat (wb_size b)]"
  have d: "length ?d = unat (wb_size b)" using assms(5) by simp
  have r: "disk_wrapper_bio R (Some w) (Some j) b D = Some (linked_device w (Some ?d) b D)"
    by (rule disk_wrapper_bio_linked(2) [OF assms])
  show thesis
    using that [OF r] linked_device_inv [OF assms(1,4) d] assms(2) log_inv_current [OF assms(1)]
    unfolding logged_op_def by (simp add: linked_device_def)
qed

section \<open>The ioctls\<close>

lemma hwm_cmds_distinct [simp]:
  "HWM_LOG_ON \<noteq> HWM_LOG_OFF" "HWM_GET_LOG_META \<noteq> HWM_LOG_OFF" "HWM_GET_LOG_META \<noteq> HWM_LOG_ON"
  "HWM_GET_LOG_DATA \<noteq> HWM_LOG_OFF" "HWM_GET_LOG_DATA \<noteq> HWM_LOG_ON"
  "HWM_GET_LOG_DATA \<noteq> HWM_GET_LOG_META" "HWM_NEXT_ENT \<noteq> HWM_LOG_OFF" "HWM_NEXT_ENT \<noteq> HWM_LOG_ON"
  "HWM_NEXT_ENT \<noteq> HWM_GET_LOG_META" "HWM_NEXT_ENT \<noteq> HWM_GET_LOG_DATA"
  "HWM_CLR_LOG \<noteq> HWM_LOG_OFF" "HWM_CLR_LOG \<noteq> HWM_LOG_ON" "HWM_CLR_LOG \<noteq> HWM_GET_LOG_META"
  "HWM_CLR_LOG \<noteq> HWM_GET_LOG_DATA" "HWM_CLR_LOG \<noteq> HWM_NEXT_ENT"
  by (simp_all add: hwm_cmds)

lemma log_inv_fields:
  "log_inv as D \<Longrightarrow> log_inv as (D\<lparr>log_on := x\<rparr>)"
  by (simp add: log_inv_def)

lemma free_logs_inv:
  assumes "log_inv as D"
  shows "free_logs D = Some (empty_device\<lparr>log_on := log_on D\<rparr>)"
proof -
  have "fmdrop_set (set as) (heap D) = fmempty"
  proof (rule fmap_ext)
    fix a
    have "a \<notin> set as \<Longrightarrow> fmlookup (heap D) a = None"
      using assms by (auto simp: log_inv_def fmdom'_notD)
    then show "fmlookup (fmdrop_set (set as) (heap D)) a = fmlookup fmempty a" by auto
  qed
  then show ?thesis
    using chain_free [of "heap D" "writes D" as] assms
    by (simp add: free_logs_def log_inv_def empty_device_def)
qed

text \<open>The entry at the cursor and what comes after it.\<close>

lemma unread_Cons:
  assumes "log_inv as D" "current_log_write D = Some a"
  obtains n d where "fmlookup (heap D) a = Some n" "node_data n = Some d"
    "length d = unat (meta_size (node_meta n))"
    "unread D = entry n # unread (D\<lparr>current_log_write := node_next n\<rparr>)"
    "log_inv as (D\<lparr>current_log_write := node_next n\<rparr>)"
proof -
  have a: "a \<in> set as" by (rule log_inv_cursor [OF assms])
  obtain bs where bs: "dropWhile (\<lambda>b. b \<noteq> a) as = a # bs" using dropWhile_hd [OF a] by blast
  have c: "chain (heap D) (Some a) (a # bs)"
    using chain_suffix [OF _ a, of "heap D" "writes D"] assms(1) bs by (simp add: log_inv_def)
  then obtain n where n: "fmlookup (heap D) a = Some n" "chain (heap D) (node_next n) bs"
    by (auto split: option.splits)
  have "node_ok n" using assms(1) a n(1) by (auto simp: log_inv_def)
  then obtain d where d: "node_data n = Some d" "length d = unat (meta_size (node_meta n))"
    by (auto simp: node_ok_def split: option.splits)
  have "distinct (a # bs)" "set (a # bs) \<subseteq> set as"
    using assms(1) bs set_dropWhileD [of _ "\<lambda>b. b \<noteq> a" as]
    by (metis distinct_dropWhile log_inv_def, metis subsetI)
  then have dist: "distinct bs" "set bs \<subseteq> set as" by auto
  have next': "node_next n = Some b \<Longrightarrow> b \<in> set as" for b
    using n(2) dist(2) by (cases bs) auto
  have "log_inv as (D\<lparr>current_log_write := node_next n\<rparr>)"
    using assms(1) next' by (auto simp: log_inv_def split: option.split)
  moreover have "unread (D\<lparr>current_log_write := node_next n\<rparr>) = map (\<lambda>b. entry (the (fmlookup (heap D) b))) bs"
    using chain_walk [OF n(2) dist(1)] by (simp add: unread_def)
  moreover have "unread D = map (\<lambda>b. entry (the (fmlookup (heap D) b))) (a # bs)"
    using log_inv_unread [OF assms(1)] assms(2) bs by simp
  ultimately show thesis using that n(1) d by simp
qed

lemma get_meta_ioctl:
  "disk_wrapper_ioctl True [] HWM_GET_LOG_META D =
    (case current_log_write D of
       None \<Rightarrow> Some (Some W_ENODATA, Untouched, D)
     | Some a \<Rightarrow> map_option (\<lambda>n. (None, User_meta (node_meta n), D)) (fmlookup (heap D) a))"
  by (cases "current_log_write D"; cases "fmlookup (heap D) (the (current_log_write D))")
    (simp_all add: disk_wrapper_ioctl_def copy_meta_loop_def)

lemma get_data_ioctl:
  assumes "current_log_write D = Some a" "fmlookup (heap D) a = Some n" "node_data n = Some d"
    "length d = unat (meta_size (node_meta n))"
  shows "disk_wrapper_ioctl True ks HWM_GET_LOG_DATA D = Some (None, User_data d, D)"
  using assms by (simp add: disk_wrapper_ioctl_def copy_data_loop_all Let_def)

lemma next_ioctl:
  "disk_wrapper_ioctl x ks HWM_NEXT_ENT D =
    (case current_log_write D of
       None \<Rightarrow> Some (Some W_ENODATA, Untouched, D)
     | Some a \<Rightarrow> map_option (\<lambda>n. (None, Untouched, D\<lparr>current_log_write := node_next n\<rparr>))
         (fmlookup (heap D) a))"
  by (simp add: disk_wrapper_ioctl_def)

lemma clear_ioctl:
  "log_inv as D \<Longrightarrow> disk_wrapper_ioctl x ks HWM_CLR_LOG D =
    Some (None, Untouched, empty_device\<lparr>log_on := log_on D\<rparr>)"
  by (simp add: disk_wrapper_ioctl_def free_logs_inv)

section \<open>The contract of a log device\<close>

text \<open>
  What a client that fetches the log relies on: the commands return the entry at the cursor,
  a second one moves the cursor, and at the end \<open>ENODATA\<close> says so.
\<close>

locale log_device =
  fixes dev_ioctl :: "u32 \<Rightarrow> 's \<Rightarrow> (wrapper_errno option \<times> user_mem \<times> 's) option"
    and dev_ok :: "'s \<Rightarrow> bool"
    and rest :: "'s \<Rightarrow> disk_write list"
  assumes at_end: "dev_ok s \<Longrightarrow> rest s = [] \<Longrightarrow>
      dev_ioctl HWM_GET_LOG_META s = Some (Some W_ENODATA, Untouched, s)"
    and at_meta: "dev_ok s \<Longrightarrow> rest s = e # es \<Longrightarrow>
      dev_ioctl HWM_GET_LOG_META s = Some (None, User_meta (metadata e), s)"
    and at_data: "dev_ok s \<Longrightarrow> rest s = e # es \<Longrightarrow>
      \<exists>d. dev_ioctl HWM_GET_LOG_DATA s = Some (None, User_data d, s) \<and>
        make_disk_write (metadata e) (Some d) = Some e"
    and at_next: "dev_ok s \<Longrightarrow> rest s = e # es \<Longrightarrow>
      \<exists>s'. dev_ioctl HWM_NEXT_ENT s = Some (None, Untouched, s') \<and> dev_ok s' \<and> rest s' = es"

text \<open>The wrapper device, however \<open>copy_to_user\<close> splits the data.\<close>

definition wrapper_dev :: "nat list \<Rightarrow> u32 \<Rightarrow> hwm_device
    \<Rightarrow> (wrapper_errno option \<times> user_mem \<times> hwm_device) option" where
  "wrapper_dev ks cmd D = disk_wrapper_ioctl True (if cmd = HWM_GET_LOG_META then [] else ks) cmd D"

interpretation wrapper_log: log_device "wrapper_dev ks" "\<lambda>D. \<exists>as. log_inv as D" unread for ks
proof unfold_locales
  fix D :: hwm_device and e es
  assume "\<exists>as. log_inv as D"
  then obtain as where inv: "log_inv as D" by blast
  have none: "current_log_write D = None" if "unread D = []"
    using that unread_Cons [OF inv] by (cases "current_log_write D") auto
  have some: "\<exists>a. current_log_write D = Some a" if "unread D = e # es"
    using that by (cases "current_log_write D") (auto simp: unread_def)
  show "unread D = [] \<Longrightarrow> wrapper_dev ks HWM_GET_LOG_META D = Some (Some W_ENODATA, Untouched, D)"
    using none by (simp add: wrapper_dev_def get_meta_ioctl)
  assume u: "unread D = e # es"
  then obtain a where a: "current_log_write D = Some a" using some by blast
  obtain n d where n: "fmlookup (heap D) a = Some n" "node_data n = Some d"
    "length d = unat (meta_size (node_meta n))"
    "unread D = entry n # unread (D\<lparr>current_log_write := node_next n\<rparr>)"
    "log_inv as (D\<lparr>current_log_write := node_next n\<rparr>)"
    by (rule unread_Cons [OF inv a])
  have e: "e = entry n" "es = unread (D\<lparr>current_log_write := node_next n\<rparr>)" using u n(4) by simp_all
  show "wrapper_dev ks HWM_GET_LOG_META D = Some (None, User_meta (metadata e), D)"
    using a n(1) by (simp add: wrapper_dev_def get_meta_ioctl e entry_def)
  show "\<exists>d. wrapper_dev ks HWM_GET_LOG_DATA D = Some (None, User_data d, D) \<and>
      make_disk_write (metadata e) (Some d) = Some e"
    using get_data_ioctl [OF a n(1,2,3), of ks] n(2,3)
    by (auto simp: wrapper_dev_def e entry_def make_disk_write_def copy_data_def word_gt_0)
  show "\<exists>D'. wrapper_dev ks HWM_NEXT_ENT D = Some (None, Untouched, D') \<and>
      (\<exists>as. log_inv as D') \<and> unread D' = es"
    using a n(1,5) e(2) by (auto simp: wrapper_dev_def next_ioctl)
qed

section \<open>The wrapper as a state machine\<close>

text \<open>
  Requests, with what the allocator returns for them, and ioctls.  An event is \<open>admissible\<close> if
  allocations return unused memory and do not fail once the node is there, the segments of a request fit the size it
  announces, and \<open>copy_to_user\<close> copies the metadata in one piece.
\<close>

datatype wrapper_event = Bio "nat option" "(nat \<Rightarrow> byte) option" wrapped_bio | Wioctl bool "nat list" u32

definition wrapper_step :: "req_flags \<Rightarrow> wrapper_event \<Rightarrow> hwm_device \<Rightarrow> hwm_device option" where
  "wrapper_step R e D =
     (case e of
        Bio node junk b \<Rightarrow> disk_wrapper_bio R node junk b D
      | Wioctl access_ok ks cmd \<Rightarrow> map_option (\<lambda>(_, _, D'). D') (disk_wrapper_ioctl access_ok ks cmd D))"

definition admissible :: "wrapper_event \<Rightarrow> hwm_device \<Rightarrow> bool" where
  "admissible e D \<longleftrightarrow>
     (case e of
        Bio node junk b \<Rightarrow>
          length (concat (wb_segs b)) \<le> unat (wb_size b) \<and>
          (case node of None \<Rightarrow> True | Some w \<Rightarrow> fmlookup (heap D) w = None \<and> junk \<noteq> None)
      | Wioctl access_ok ks cmd \<Rightarrow> cmd = HWM_GET_LOG_META \<longrightarrow> ks = [])"

inductive wrapper_reach :: "req_flags \<Rightarrow> hwm_device \<Rightarrow> bool" for R where
  start: "wrapper_reach R empty_device"
| event: "wrapper_reach R D \<Longrightarrow> admissible e D \<Longrightarrow> wrapper_step R e D = Some D' \<Longrightarrow> wrapper_reach R D'"

inductive_cases wrapper_reachE: "wrapper_reach R D"

lemma bio_skipped: "\<not> (log_on D \<and> is_logged R b) \<Longrightarrow> disk_wrapper_bio R node junk b D = Some D"
  "disk_wrapper_bio R None junk b D = Some D"
  by (auto simp: disk_wrapper_bio_def)

lemma wrapper_step_ok:
  assumes "log_inv as D" "admissible e D"
  shows "\<exists>D' as'. wrapper_step R e D = Some D' \<and> log_inv as' D'"
proof (cases e)
  case (Bio node junk b)
  show ?thesis
  proof (cases "log_on D \<and> is_logged R b \<and> node \<noteq> None")
    case True
    then obtain w j where w: "node = Some w" "junk = Some j" "fmlookup (heap D) w = None"
      "length (concat (wb_segs b)) \<le> unat (wb_size b)"
      using assms(2) Bio by (auto simp: admissible_def)
    have c: "log_on D" "is_logged R b" "w \<notin> set as"
      using True fresh_address [OF assms(1) w(3)] by auto
    obtain D' where "disk_wrapper_bio R (Some w) (Some j) b D = Some D'" "log_inv (as @ [w]) D'"
      by (rule disk_wrapper_bio_logs [OF assms(1) c w(4), of j])
    then show ?thesis using w Bio by (auto simp: wrapper_step_def)
  next
    case False
    then show ?thesis using assms(1) Bio bio_skipped by (auto simp: wrapper_step_def)
  qed
next
  case (Wioctl x ks cmd)
  have cleared: "\<exists>as'. log_inv as' (empty_device\<lparr>log_on := y\<rparr>)" for y
    using log_inv_fields [OF log_inv_empty] by blast
  show ?thesis
  proof (cases "current_log_write D")
    case None
    then show ?thesis
      using assms(1) Wioctl log_inv_fields clear_ioctl [OF assms(1)] cleared
      by (auto simp: wrapper_step_def disk_wrapper_ioctl_def)
  next
    case (Some a)
    obtain n d where n: "fmlookup (heap D) a = Some n" "node_data n = Some d"
      "length d = unat (meta_size (node_meta n))" "log_inv as (D\<lparr>current_log_write := node_next n\<rparr>)"
      by (rule unread_Cons [OF assms(1) Some])
    have meta: "cmd = HWM_GET_LOG_META \<Longrightarrow> ks = []"
      using assms(2) Wioctl by (simp add: admissible_def)
    show ?thesis
      using assms(1) Wioctl log_inv_fields clear_ioctl [OF assms(1)] cleared Some n meta
      by (auto simp: wrapper_step_def disk_wrapper_ioctl_def copy_meta_loop_def Let_def)
  qed
qed

lemma wrapper_reach_inv: "wrapper_reach R D \<Longrightarrow> \<exists>as. log_inv as D"
proof (induction rule: wrapper_reach.induct)
  case start
  show ?case using log_inv_empty by blast
next
  case (event D e D')
  then show ?case using wrapper_step_ok by (metis option.inject)
qed



text \<open>
  C19: with logging on, a request with one of the write, flush, FUA, flush sequence and discard
  flags is appended to the log, its data taken from its segments in order, and nothing else of
  the log changes; an unread log goes on to the new entry.
\<close>

theorem request_is_logged:
  assumes "wrapper_reach R D" "log_on D" "is_logged R b" "fmlookup (heap D) w = None"
    "length (concat (wb_segs b)) = unat (wb_size b)"
  shows "\<exists>D'. disk_wrapper_bio R (Some w) (Some j) b D = Some D' \<and> wrapper_reach R D' \<and>
    logged D' = logged D @ [\<lparr>metadata = bio_meta b,
      dw_data = (if wb_size b = 0 then None else Some (concat (wb_segs b)))\<rparr>] \<and>
    unread D' = (if logged D = [] \<or> current_log_write D \<noteq> None
      then unread D @ [last (logged D')] else [])"
proof -
  obtain as where inv: "log_inv as D" using wrapper_reach_inv [OF assms(1)] by blast
  have w: "w \<notin> set as" by (rule fresh_address [OF inv assms(4)])
  have op: "logged_op j b = \<lparr>metadata = bio_meta b,
      dw_data = (if wb_size b = 0 then None else Some (concat (wb_segs b)))\<rparr>"
    using assms(5) by (simp add: logged_op_def)
  have as: "as = [] \<longleftrightarrow> logged D = []" using log_inv_logged [OF inv] by simp
  have len: "length (concat (wb_segs b)) \<le> unat (wb_size b)" using assms(5) by simp
  obtain D' where D': "disk_wrapper_bio R (Some w) (Some j) b D = Some D'"
    "logged D' = logged D @ [logged_op j b]"
    "unread D' = (if as = [] \<or> current_log_write D \<noteq> None then unread D @ [logged_op j b] else [])"
    by (rule disk_wrapper_bio_logs [OF inv assms(2,3) w len, of j])
  have "wrapper_reach R D'"
    by (rule wrapper_reach.event [OF assms(1), of "Bio (Some w) (Some j) b"])
      (use D'(1) assms(4) len in \<open>auto simp: admissible_def wrapper_step_def\<close>)
  then show ?thesis using D' op as by simp
qed

definition sample_wb :: "u64 \<Rightarrow> byte list \<Rightarrow> wrapped_bio" where
  "sample_wb rw bs = \<lparr>wb_flags = 0, wb_rw = rw, wb_sector = 8, wb_size = of_nat (length bs), wb_segs = [bs]\<rparr>"

definition sample_on :: hwm_device where
  "sample_on = empty_device\<lparr>log_on := True\<rparr>"

lemma sample_on_reach: "wrapper_reach R sample_on"
  by (rule wrapper_reach.event [OF wrapper_reach.start, of "Wioctl True [] HWM_LOG_ON"])
    (simp_all add: admissible_def wrapper_step_def disk_wrapper_ioctl_def sample_on_def)

lemma sample_on_simps [simp]:
  "log_on sample_on" "heap sample_on = fmempty" "logged sample_on = []" "unread sample_on = []"
  "writes sample_on = None" "current_write sample_on = None" "current_log_write sample_on = None"
  by (simp_all add: sample_on_def empty_device_def logged_def unread_def)

theorem request_is_logged_witness:
  "\<exists>D'. disk_wrapper_bio flag_names_req (Some 100) (Some (\<lambda>_. 9)) (sample_wb 1 [1, 2]) sample_on = Some D' \<and>
    logged D' = [\<lparr>metadata = bio_meta (sample_wb 1 [1, 2]), dw_data = Some [1, 2]\<rparr>] \<and>
    unread D' = logged D'"
  using request_is_logged [OF sample_on_reach, of flag_names_req "sample_wb 1 [1, 2]" 100 "\<lambda>_. 9"]
  by (auto simp: is_logged_def sample_wb_def)

lemma free_loop_dangling:
  "chain h p (as @ [w]) \<Longrightarrow> distinct (as @ [w]) \<Longrightarrow> free_loop (fmdrop w h) p = None"
proof (induction as arbitrary: h p)
  case (Cons a as)
  then obtain n where n: "p = Some a" "fmlookup h a = Some n" "chain h (node_next n) (as @ [w])"
    by (auto split: option.splits)
  then have "chain (fmdrop a h) (node_next n) (as @ [w])"
    using Cons.prems(2) by (intro chain_frame [OF _ n(3)]) auto
  then have "free_loop (fmdrop w (fmdrop a h)) (node_next n) = None"
    using Cons.IH Cons.prems(2) by simp
  moreover have "fmdrop w (fmdrop a h) = fmdrop a (fmdrop w h)" by (rule fmap_ext) auto
  ultimately show ?case using n Cons.prems(2) by auto
qed auto

text \<open>
  C40: when the buffer for the data of a request cannot be allocated, the node is freed but stays
  in the list: \<open>current_write\<close> points to freed memory, and both clearing the log and logging the
  next request follow a dangling pointer.
\<close>

theorem failed_buffer_leaves_dangling:
  assumes "wrapper_reach R D" "log_on D" "is_logged R b" "fmlookup (heap D) w = None"
  shows "\<exists>D'. disk_wrapper_bio R (Some w) None b D = Some D' \<and>
    current_write D' = Some w \<and> fmlookup (heap D') w = None \<and>
    disk_wrapper_ioctl access_ok ks HWM_CLR_LOG D' = None \<and>
    (\<forall>w' junk b'. w' \<noteq> w \<and> is_logged R b' \<longrightarrow> disk_wrapper_bio R (Some w') junk b' D' = None)"
proof -
  obtain as where inv: "log_inv as D" using wrapper_reach_inv [OF assms(1)] by blast
  have w: "w \<notin> set as" by (rule fresh_address [OF inv assms(4)])
  let ?D = "linked_device w None b D \<lparr>heap := fmdrop w (linked w None b D)\<rparr>"
  have "chain (linked w None b D) (writes ?D) (as @ [w])"
    using linked_chain [OF inv w, of None b] log_inv_current [OF inv]
    by (auto simp: linked_device_def)
  moreover have "distinct (as @ [w])" using inv w by (simp add: log_inv_def)
  ultimately have "free_loop (heap ?D) (writes ?D) = None" by (simp add: free_loop_dangling)
  then have "disk_wrapper_ioctl access_ok ks HWM_CLR_LOG ?D = None"
    by (simp add: disk_wrapper_ioctl_def free_logs_def)
  moreover have "disk_wrapper_bio R (Some w') junk b' ?D = None" if "w' \<noteq> w" "is_logged R b'" for w' junk b'
    using that assms(2) by (simp add: disk_wrapper_bio_def linked_device_def Let_def)
  ultimately show ?thesis
    using disk_wrapper_bio_linked(1) [OF inv assms(2,3) w] by (simp add: linked_device_def)
qed

theorem failed_buffer_leaves_dangling_witness:
  "\<exists>D'. disk_wrapper_bio flag_names_req (Some 100) None (sample_wb 1 [1, 2]) sample_on = Some D' \<and>
    disk_wrapper_ioctl True [] HWM_CLR_LOG D' = None"
  using failed_buffer_leaves_dangling [OF sample_on_reach, of flag_names_req "sample_wb 1 [1, 2]" 100 True "[]"]
  by (auto simp: is_logged_def sample_wb_def)

section \<open>Loading and unloading\<close>

definition unloaded :: wrapper_module where
  "unloaded = \<lparr>registered = False, holds_target = False, holds_flags = False, has_disk = False,
     has_queue = False, disk_added = False, device = empty_device\<rparr>"

text \<open>
  The module loads exactly if both paths are given and every resource is there; unloading it,
  whatever it has logged, gives back everything it took.  Loading that fails after the target
  device has been opened keeps the target device.
\<close>

theorem wrapper_load_unload:
  assumes "disk_wrapper_init E t f unloaded = (err, M)" "wrapper_reach R D"
  shows "(err = None) = (t \<noteq> [] \<and> f \<noteq> [] \<and> env_major E > 0 \<and> target_found E \<and> target_has_queue E \<and>
      target_has_fn E \<and> flags_found E \<and> flags_has_queue E \<and> disk_allocated E \<and> queue_allocated E) \<and>
    (if err = None then
       hello_cleanup (M\<lparr>device := D\<rparr>) = Some (unloaded\<lparr>device := empty_device\<lparr>log_on := log_on D\<rparr>\<rparr>)
     else \<not> registered M \<and> \<not> disk_added M \<and>
       holds_target M = (err = Some I_ENOMEM \<and> env_major E > 0 \<and> target_found E))"
proof
  show "(err = None) = (t \<noteq> [] \<and> f \<noteq> [] \<and> env_major E > 0 \<and> target_found E \<and> target_has_queue E \<and>
      target_has_fn E \<and> flags_found E \<and> flags_has_queue E \<and> disk_allocated E \<and> queue_allocated E)"
    using assms(1) by (auto simp: disk_wrapper_init_def Let_def split: if_splits)
  obtain as where inv: "log_inv as D" using wrapper_reach_inv [OF assms(2)] by blast
  show "if err = None then
       hello_cleanup (M\<lparr>device := D\<rparr>) = Some (unloaded\<lparr>device := empty_device\<lparr>log_on := log_on D\<rparr>\<rparr>)
     else \<not> registered M \<and> \<not> disk_added M \<and>
       holds_target M = (err = Some I_ENOMEM \<and> env_major E > 0 \<and> target_found E)"
    using assms(1) free_logs_inv [OF inv]
    by (auto simp: disk_wrapper_init_def Let_def unloaded_def hello_cleanup_def split: if_splits)
qed

definition sample_env :: "bool \<Rightarrow> wrapper_env" where
  "sample_env q = \<lparr>env_major = 250, target_found = True, target_has_queue = True, target_has_fn = True,
     flags_found = True, flags_has_queue = True, disk_allocated = True, queue_allocated = q\<rparr>"

theorem wrapper_load_unload_witness:
  "\<exists>M. disk_wrapper_init (sample_env True) ''/dev/a'' ''/dev/b'' unloaded = (None, M) \<and>
     hello_cleanup (M\<lparr>device := sample_on\<rparr>) = Some (unloaded\<lparr>device := sample_on\<rparr>)"
proof -
  obtain err M where i: "disk_wrapper_init (sample_env True) ''/dev/a'' ''/dev/b'' unloaded = (err, M)"
    by (cases "disk_wrapper_init (sample_env True) ''/dev/a'' ''/dev/b'' unloaded")
  show ?thesis
    using i wrapper_load_unload [OF i sample_on_reach] by (auto simp: sample_env_def sample_on_def)
qed

end
