(* ===== verification/Cow_Brd.thy ===== *)
theory Cow_Brd
  imports Disk_Write "HOL-Library.Finite_Map"
begin

text \<open>
  \<open>code/cow_brd.c\<close>: the copy-on-write RAM block device.  A device keeps its contents in a radix
  tree of pages; a snapshot device has a parent, reads the pages it has not written from the
  parent, and copies a page of the parent when it first writes to it.

  A page is a function from the offset to the byte there (offsets below \<open>PAGE_SIZE\<close> count), the
  radix tree a finite map from page index to page.  Copies that leave a page, and a \<open>BUG_ON\<close>
  that fires, are \<open>None\<close>.  Sectors are natural numbers: the capacity check of
  \<open>brd_make_request\<close> keeps them far below \<open>2^64\<close>.  Each operation is one step; concurrent
  writers, and what the lock is worth, are in \<open>Cow_Brd_Race\<close>, RCU is not modelled.  The page allocator and the radix tree preallocation may fail; a list
  of booleans, one per allocation, says which do (after its end, none).
\<close>

section \<open>Constants and pages\<close>

definition PAGE_SHIFT :: nat where "PAGE_SHIFT = 12"
definition SECTOR_SHIFT :: nat where "SECTOR_SHIFT = 9"
definition PAGE_SIZE :: nat where "PAGE_SIZE = 2 ^ PAGE_SHIFT"
definition PAGE_SECTORS_SHIFT :: nat where "PAGE_SECTORS_SHIFT = PAGE_SHIFT - SECTOR_SHIFT"
definition PAGE_SECTORS :: nat where "PAGE_SECTORS = push_bit PAGE_SECTORS_SHIFT 1"

type_synonym page = "nat \<Rightarrow> byte"
type_synonym page_tree = "(nat, page) fmap"

definition zero_page :: page where "zero_page = (\<lambda>_. 0)"

definition page_index :: "nat \<Rightarrow> nat" where
  "page_index sector = drop_bit PAGE_SECTORS_SHIFT sector"

definition page_offset :: "nat \<Rightarrow> nat" where
  "page_offset sector = push_bit SECTOR_SHIFT (sector AND (PAGE_SECTORS - 1))"

lemma page_consts [simp]: "PAGE_SIZE = 4096" "PAGE_SECTORS = 8" "PAGE_SECTORS_SHIFT = 3"
  "SECTOR_SHIFT = 9"
  by (simp_all add: PAGE_SIZE_def PAGE_SHIFT_def PAGE_SECTORS_def PAGE_SECTORS_SHIFT_def
      SECTOR_SHIFT_def push_bit_eq_mult)

lemma page_index_div: "page_index sector = sector div 8"
  by (simp add: page_index_def drop_bit_eq_div)

lemma page_offset_mod: "page_offset sector = sector mod 8 * 512"
proof -
  have "sector AND 7 = take_bit 3 sector"
    by (simp add: take_bit_eq_mask mask_eq_exp_minus_1)
  then show ?thesis by (simp add: page_offset_def push_bit_eq_mult take_bit_eq_mod)
qed

text \<open>\<open>memcpy\<close> into and out of a page.\<close>

definition page_write :: "page \<Rightarrow> nat \<Rightarrow> byte list \<Rightarrow> page" where
  "page_write p off bs = (\<lambda>i. if off \<le> i \<and> i < off + length bs then bs ! (i - off) else p i)"

definition page_read :: "page \<Rightarrow> nat \<Rightarrow> nat \<Rightarrow> byte list" where
  "page_read p off n = map p [off..<off + n]"

section \<open>Pages of a device\<close>

datatype errno = EIO | ENOMEM | ENOTTY | EINVAL | ENODATA | EFAULT | ENODEV | ERANGE

fun next_alloc :: "bool list \<Rightarrow> bool \<times> bool list" where
  "next_alloc [] = (True, [])"
| "next_alloc (b # bs) = (b, bs)"

definition brd_lookup_page :: "page_tree \<Rightarrow> nat \<Rightarrow> page option" where
  "brd_lookup_page t sector = fmlookup t (page_index sector)"

text \<open>\<open>pp\<close> is the tree of the parent, if there is one.  The result says whether there is a page.\<close>

definition brd_insert_page :: "page_tree option \<Rightarrow> bool list \<Rightarrow> page_tree \<Rightarrow> nat
    \<Rightarrow> bool \<times> page_tree \<times> bool list" where
  "brd_insert_page pp ms t sector =
     (case brd_lookup_page t sector of
        Some p \<Rightarrow> (True, t, ms)
      | None \<Rightarrow>
          (let (page, ms1) = next_alloc ms in
           if \<not> page then (False, t, ms1)
           else
             (let (preload, ms2) = next_alloc ms1 in
              if \<not> preload then (False, t, ms2)
              else
                (let idx = page_index sector;
                     contents =
                       (case pp of
                          None \<Rightarrow> zero_page
                        | Some q \<Rightarrow>
                            (case brd_lookup_page q sector of
                               None \<Rightarrow> zero_page
                             | Some parent_page \<Rightarrow> parent_page))
                 in (True, fmupd idx contents t, ms2)))))"

definition brd_zero_page :: "page_tree \<Rightarrow> nat \<Rightarrow> page_tree" where
  "brd_zero_page t sector =
     (case brd_lookup_page t sector of
        None \<Rightarrow> t
      | Some p \<Rightarrow> fmupd (page_index sector) zero_page t)"

definition FREE_BATCH :: nat where "FREE_BATCH = 16"

text \<open>\<open>radix_tree_gang_lookup\<close>: the first \<open>FREE_BATCH\<close> indices from \<open>pos\<close> on, in order.\<close>

definition gang_lookup :: "page_tree \<Rightarrow> nat \<Rightarrow> nat list" where
  "gang_lookup t pos = take FREE_BATCH (filter (\<lambda>k. pos \<le> k) (sorted_list_of_set (fmdom' t)))"

definition dom_size :: "page_tree \<Rightarrow> nat" where
  "dom_size t = card (fmdom' t)"

lemma fmdom'_fold_fmdrop [simp]: "fmdom' (fold fmdrop ks t) = fmdom' t - set ks"
  by (induction ks arbitrary: t) auto

lemma gang_lookup_subset: "set (gang_lookup t pos) \<subseteq> fmdom' t"
  by (auto simp: gang_lookup_def dest!: in_set_takeD)

function free_pages_loop :: "page_tree \<Rightarrow> nat \<Rightarrow> page_tree" where
  "free_pages_loop t pos =
     (let pages = gang_lookup t pos;
          t' = fold fmdrop pages t;
          pos' = (if pages = [] then pos else last pages) + 1
      in if length pages = FREE_BATCH then free_pages_loop t' pos' else t')"
  by pat_completeness auto

termination
proof (relation "measure (\<lambda>(t, pos). dom_size t)", goal_cases)
  case 1
  show ?case by simp
next
  case (2 t pos pages t' pos')
  then have "pages \<noteq> []" by (auto simp: FREE_BATCH_def)
  then obtain k where "k \<in> set pages" by (cases pages) auto
  then have "fmdom' t - set pages \<subset> fmdom' t" using gang_lookup_subset [of t pos] 2(1) by auto
  then show ?case using 2 by (auto simp: dom_size_def intro!: psubset_card_mono)
qed

declare free_pages_loop.simps [simp del]

definition brd_free_pages :: "page_tree \<Rightarrow> page_tree" where
  "brd_free_pages t = free_pages_loop t 0"

section \<open>Copying to and from a device\<close>

definition copy_to_brd_setup :: "page_tree option \<Rightarrow> bool list \<Rightarrow> page_tree \<Rightarrow> nat \<Rightarrow> nat
    \<Rightarrow> errno option \<times> page_tree \<times> bool list" where
  "copy_to_brd_setup pp ms t sector n =
     (let offset = page_offset sector;
          copy = min n (PAGE_SIZE - offset);
          (ok, t1, ms1) = brd_insert_page pp ms t sector
      in if \<not> ok then (Some ENOMEM, t1, ms1)
         else if copy < n then
           (let (ok', t2, ms2) = brd_insert_page pp ms1 t1 (sector + drop_bit SECTOR_SHIFT copy)
            in if \<not> ok' then (Some ENOMEM, t2, ms2) else (None, t2, ms2))
         else (None, t1, ms1))"

function discard_from_brd :: "page_tree \<Rightarrow> nat \<Rightarrow> nat \<Rightarrow> page_tree" where
  "discard_from_brd t sector n =
     (if n \<ge> PAGE_SIZE
      then discard_from_brd (brd_zero_page t sector)
             (sector + drop_bit SECTOR_SHIFT PAGE_SIZE) (n - PAGE_SIZE)
      else t)"
  by pat_completeness auto
termination
  by (relation "measure (\<lambda>(t, s, n). n)") auto

declare discard_from_brd.simps [simp del]

text \<open>
  \<open>src\<close> holds the \<open>n\<close> bytes to be written.  A second page is first given the tail of the
  parent's page, if the parent has it, and then the rest of the data.
\<close>

definition copy_to_brd :: "page_tree option \<Rightarrow> page_tree \<Rightarrow> byte list \<Rightarrow> nat \<Rightarrow> page_tree option" where
  "copy_to_brd pp t src sector =
     (let n = length src;
          offset = page_offset sector;
          copy = min n (PAGE_SIZE - offset)
      in case brd_lookup_page t sector of
           None \<Rightarrow> None
         | Some page \<Rightarrow>
             (let t1 = fmupd (page_index sector) (page_write page offset (take copy src)) t in
              if copy < n then
                (let src2 = drop copy src;
                     sector2 = sector + drop_bit SECTOR_SHIFT copy;
                     copy2 = n - copy
                 in case brd_lookup_page t1 sector2 of
                      None \<Rightarrow> None
                    | Some page2 \<Rightarrow>
                        if copy2 > PAGE_SIZE then None
                        else
                          (let dst =
                             (case pp of
                                None \<Rightarrow> page2
                              | Some q \<Rightarrow>
                                  (case brd_lookup_page q sector2 of
                                     None \<Rightarrow> page2
                                   | Some parent_page \<Rightarrow>
                                       page_write page2 copy2
                                         (page_read parent_page copy2 (PAGE_SIZE - copy2))))
                           in Some (fmupd (page_index sector2) (page_write dst 0 src2) t1)))
              else Some t1))"

text \<open>The bytes a read returns.  In the second page the parent's page is read from \<open>offset\<close> on.\<close>

definition copy_from_brd :: "page_tree option \<Rightarrow> page_tree \<Rightarrow> nat \<Rightarrow> nat \<Rightarrow> byte list option" where
  "copy_from_brd pp t sector n =
     (let offset = page_offset sector;
          copy = min n (PAGE_SIZE - offset);
          first =
            (case brd_lookup_page t sector of
               Some page \<Rightarrow> page_read page offset copy
             | None \<Rightarrow>
                 (case Option.bind pp (\<lambda>q. brd_lookup_page q sector) of
                    Some page \<Rightarrow> page_read page offset copy
                  | None \<Rightarrow> replicate copy 0))
      in if copy < n then
           (let sector2 = sector + drop_bit SECTOR_SHIFT copy;
                copy2 = n - copy
            in if copy2 > PAGE_SIZE then None
               else
                 (case brd_lookup_page t sector2 of
                    Some page \<Rightarrow> Some (first @ page_read page 0 copy2)
                  | None \<Rightarrow>
                      (case Option.bind pp (\<lambda>q. brd_lookup_page q sector2) of
                         Some page \<Rightarrow>
                           if offset + copy2 > PAGE_SIZE then None
                           else Some (first @ page_read page offset copy2)
                       | None \<Rightarrow> Some (first @ replicate copy2 0))))
         else Some first)"

section \<open>Requests\<close>

text \<open>
  The kernel's constants and macros the driver uses: \<open>READ\<close>, \<open>READA\<close>, \<open>WRITE\<close>, the part of the
  flags \<open>bio_rw\<close> returns, \<open>fls\<close>, and the limits on minor numbers.  The flag \<open>REQ_DISCARD\<close> is taken
  from \<open>req_flags\<close>.
\<close>

record kernel_api =
  READ :: u64
  READA :: u64
  WRITE :: u64
  bio_rw :: "u64 \<Rightarrow> u64"
  DISK_MAX_PARTS :: nat
  MINORBITS :: nat
  RAMDISK_MAJOR :: int
  fls :: "nat \<Rightarrow> nat"

text \<open>
  A \<open>bio\<close>: the memory of its segments, in order, as byte lists.  \<open>bio_end_sector\<close> is the
  kernel's: the first sector after the request.
\<close>

record bio =
  bio_sector :: nat
  bio_flags :: u64
  bio_size :: nat
  bio_segs :: "byte list list"

definition bio_end_sector :: "bio \<Rightarrow> nat" where
  "bio_end_sector b = bio_sector b + drop_bit 9 (bio_size b)"

definition brd_do_bvec :: "kernel_api \<Rightarrow> page_tree option \<Rightarrow> bool list \<Rightarrow> page_tree \<Rightarrow> byte list \<Rightarrow> u64
    \<Rightarrow> nat \<Rightarrow> (errno option \<times> page_tree \<times> byte list \<times> bool list) option" where
  "brd_do_bvec K pp ms t mem rw sector =
     (if rw \<noteq> READ K then
        (let (err, t1, ms1) = copy_to_brd_setup pp ms t sector (length mem) in
         if err \<noteq> None then Some (err, t1, mem, ms1)
         else map_option (\<lambda>t2. (None, t2, mem, ms1)) (copy_to_brd pp t1 mem sector))
      else map_option (\<lambda>mem'. (None, t, mem', ms)) (copy_from_brd pp t sector (length mem)))"

text \<open>The loop over the segments; \<open>err\<close> is what the loop leaves when it has no segment.\<close>

fun segment_loop :: "kernel_api \<Rightarrow> page_tree option \<Rightarrow> errno option \<Rightarrow> bool list \<Rightarrow> page_tree
    \<Rightarrow> byte list list \<Rightarrow> u64 \<Rightarrow> nat
    \<Rightarrow> (errno option \<times> page_tree \<times> byte list list \<times> bool list) option" where
  "segment_loop K pp err ms t [] rw sector = Some (err, t, [], ms)"
| "segment_loop K pp err ms t (mem # segs) rw sector =
     (case brd_do_bvec K pp ms t mem rw sector of
        None \<Rightarrow> None
      | Some (Some e, t1, mem1, ms1) \<Rightarrow> Some (Some e, t1, mem1 # segs, ms1)
      | Some (None, t1, mem1, ms1) \<Rightarrow>
          map_option (\<lambda>(err', t2, segs', ms2). (err', t2, mem1 # segs', ms2))
            (segment_loop K pp None ms1 t1 segs rw
              (sector + drop_bit SECTOR_SHIFT (length mem))))"

section \<open>Devices\<close>

text \<open>
  \<open>parent_brd\<close> is the number of the parent device.  \<open>capacity\<close>, \<open>disk_name\<close> and \<open>first_minor\<close> are
  the fields the driver sets in its \<open>gendisk\<close>.
\<close>

record brd_device =
  brd_number :: nat
  parent_brd :: "nat option"
  is_writable :: bool
  is_snapshot :: bool
  disk_name :: string
  first_minor :: nat
  capacity :: nat
  brd_pages :: page_tree

definition find_brd :: "brd_device list \<Rightarrow> nat \<Rightarrow> brd_device option" where
  "find_brd devs i = find (\<lambda>d. brd_number d = i) devs"

definition upd_brd :: "brd_device list \<Rightarrow> brd_device \<Rightarrow> brd_device list" where
  "upd_brd devs d = map (\<lambda>d'. if brd_number d' = brd_number d then d else d') devs"

definition parent_tree :: "brd_device list \<Rightarrow> brd_device \<Rightarrow> page_tree option" where
  "parent_tree devs d = Option.bind (parent_brd d) (\<lambda>i. map_option brd_pages (find_brd devs i))"

text \<open>The result: the error the request ends with, the device and the request afterwards.\<close>

definition brd_make_request :: "req_flags \<Rightarrow> kernel_api \<Rightarrow> page_tree option \<Rightarrow> bool list \<Rightarrow> brd_device
    \<Rightarrow> bio \<Rightarrow> (errno option \<times> brd_device \<times> bio) option" where
  "brd_make_request R K pp ms brd b =
     (let sector = bio_sector b in
      if bio_end_sector b > capacity brd then Some (Some EIO, brd, b)
      else if (has_mask (bio_flags b) (WRITE K) \<or> has_mask (bio_flags b) (REQ_DISCARD R))
              \<and> \<not> is_writable brd
      then Some (Some EIO, brd, b)
      else if has_mask (bio_flags b) (REQ_DISCARD R)
      then Some (None, brd\<lparr>brd_pages := discard_from_brd (brd_pages brd) sector (bio_size b)\<rparr>, b)
      else
        (let rw = bio_rw K (bio_flags b);
             rw = (if rw = READA K then READ K else rw)
         in map_option
              (\<lambda>(err, t, segs, ms'). (err, brd\<lparr>brd_pages := t\<rparr>, b\<lparr>bio_segs := segs\<rparr>))
              (segment_loop K pp (Some EIO) ms (brd_pages brd) (bio_segs b) rw sector)))"

section \<open>The ioctls\<close>

definition COW_BRD_SNAPSHOT :: u32 where "COW_BRD_SNAPSHOT = 0xff06"
definition COW_BRD_UNSNAPSHOT :: u32 where "COW_BRD_UNSNAPSHOT = 0xff07"
definition COW_BRD_RESTORE_SNAPSHOT :: u32 where "COW_BRD_RESTORE_SNAPSHOT = 0xff08"
definition COW_BRD_WIPE :: u32 where "COW_BRD_WIPE = 0xff09"

lemmas brd_cmds = COW_BRD_SNAPSHOT_def COW_BRD_UNSNAPSHOT_def COW_BRD_RESTORE_SNAPSHOT_def
  COW_BRD_WIPE_def

definition brd_ioctl :: "brd_device \<Rightarrow> u32 \<Rightarrow> errno option \<times> brd_device" where
  "brd_ioctl brd cmd =
     (if cmd = COW_BRD_SNAPSHOT then
        (if is_snapshot brd then (Some ENOTTY, brd) else (None, brd\<lparr>is_writable := False\<rparr>))
      else if cmd = COW_BRD_UNSNAPSHOT then
        (if is_snapshot brd then (Some ENOTTY, brd) else (None, brd\<lparr>is_writable := True\<rparr>))
      else if cmd = COW_BRD_RESTORE_SNAPSHOT then
        (if \<not> is_snapshot brd then (Some ENOTTY, brd)
         else (None, brd\<lparr>brd_pages := brd_free_pages (brd_pages brd)\<rparr>))
      else if cmd = COW_BRD_WIPE then
        (if is_snapshot brd then (Some ENOTTY, brd)
         else (None, brd\<lparr>brd_pages := brd_free_pages (brd_pages brd)\<rparr>))
      else (Some ENOTTY, brd))"

section \<open>The module: creation, lookup and removal of devices\<close>

text \<open>
  \<open>major_num\<close> and \<open>region\<close> say what is registered with the kernel: the major number, and the
  major and range of the region of minors.  The module parameters are counts.  \<open>disk_size\<close> is
  in kilobytes.
\<close>

record brd_module =
  num_disks :: nat
  num_snapshots :: nat
  disk_size :: nat
  max_part :: nat
  part_shift :: nat
  major_num :: int
  major_registered :: bool
  region :: "(int \<times> nat) option"
  brd_devices :: "brd_device list"
  disks_added :: "nat list"

text \<open>
  The three allocations are the device, its queue and its disk.  Only called with
  \<open>num_disks > 0\<close>: the snapshot names divide by it.
\<close>

definition brd_alloc :: "brd_module \<Rightarrow> bool list \<Rightarrow> nat \<Rightarrow> brd_device option \<times> bool list" where
  "brd_alloc M ms i =
     (let (brd_mem, ms1) = next_alloc ms in
      if \<not> brd_mem then (None, ms1)
      else
        (let (queue, ms2) = next_alloc ms1 in
         if \<not> queue then (None, ms2)
         else
           (let (disk, ms3) = next_alloc ms2 in
            if \<not> disk then (None, ms3)
            else
              (let snapshot = (i \<ge> num_disks M) in
               (Some \<lparr>brd_number = i, parent_brd = None, is_writable = True,
                      is_snapshot = snapshot,
                      disk_name =
                        (if snapshot
                         then ''cow_ram_snapshot'' @ dec_string (i div num_disks M) @ ''_'' @
                              dec_string (i mod num_disks M)
                         else ''cow_ram'' @ dec_string i),
                      first_minor = push_bit (part_shift M) i,
                      capacity = disk_size M * 2, brd_pages = fmempty\<rparr>, ms3)))))"

text \<open>The parent of device \<open>i\<close>, looked up in the list the device is already part of.\<close>

definition set_parent :: "brd_module \<Rightarrow> brd_device list \<Rightarrow> brd_device \<Rightarrow> brd_device" where
  "set_parent M devs brd =
     (let i = brd_number brd in
      if i \<ge> num_disks M then
        (case find_brd devs (i mod num_disks M) of
           Some p \<Rightarrow> brd\<lparr>parent_brd := Some (brd_number p)\<rparr>
         | None \<Rightarrow> brd)
      else brd\<lparr>parent_brd := None\<rparr>)"

definition brd_init_one :: "brd_module \<Rightarrow> bool list \<Rightarrow> nat \<Rightarrow> brd_device option \<times> brd_module" where
  "brd_init_one M ms i =
     (case find_brd (brd_devices M) i of
        Some brd \<Rightarrow> (Some brd, M)
      | None \<Rightarrow>
          (case fst (brd_alloc M ms i) of
             None \<Rightarrow> (None, M)
           | Some brd \<Rightarrow>
               (let brd' = set_parent M (brd_devices M @ [brd]) brd in
                (Some brd', M\<lparr>brd_devices := brd_devices M @ [brd'],
                              disks_added := disks_added M @ [i]\<rparr>))))"

definition brd_probe :: "brd_module \<Rightarrow> bool list \<Rightarrow> nat \<Rightarrow> brd_device option \<times> brd_module" where
  "brd_probe M ms minor = brd_init_one M ms (drop_bit (part_shift M) minor)"

definition brd_del_one :: "brd_module \<Rightarrow> brd_device \<Rightarrow> brd_module" where
  "brd_del_one M brd =
     M\<lparr>brd_devices := filter (\<lambda>d. brd_number d \<noteq> brd_number brd) (brd_devices M),
       disks_added := filter (\<lambda>i. i \<noteq> brd_number brd) (disks_added M)\<rparr>"

text \<open>The loop of \<open>brd_init\<close> over the devices \<open>is\<close>: the devices so far and whether all were made.\<close>

fun init_devices :: "brd_module \<Rightarrow> bool list \<Rightarrow> brd_device list \<Rightarrow> nat list
    \<Rightarrow> bool \<times> brd_device list" where
  "init_devices M ms devs [] = (True, devs)"
| "init_devices M ms devs (i # is) =
     (let (alloc, ms1) = brd_alloc M ms i in
      case alloc of
        None \<Rightarrow> (False, devs)
      | Some brd \<Rightarrow> init_devices M ms1 (devs @ [set_parent M (devs @ [brd]) brd]) is)"

text \<open>
  \<open>major\<close> is what \<open>register_blkdev\<close> returns.  An early return with \<open>EINVAL\<close> leaves the major number
  registered.
\<close>

definition brd_init :: "kernel_api \<Rightarrow> int \<Rightarrow> bool list \<Rightarrow> brd_module \<Rightarrow> errno option \<times> brd_module" where
  "brd_init K major ms M =
     (let nr = num_disks M * (1 + num_snapshots M);
          M1 = M\<lparr>major_num := major\<rparr>
      in if major \<le> 0 then (Some EIO, M1)
         else
           (let M2 = M1\<lparr>major_registered := True, part_shift := 0\<rparr>;
                M3 = (if max_part M2 > 0
                      then (let ps = fls K (max_part M2)
                            in M2\<lparr>part_shift := ps, max_part := 2 ^ ps - 1\<rparr>)
                      else M2)
            in if 2 ^ part_shift M3 > DISK_MAX_PARTS K then (Some EINVAL, M3)
               else if nr > 2 ^ (MINORBITS K - part_shift M3) then (Some EINVAL, M3)
               else
                 (let (ok, devs) = init_devices M3 ms (brd_devices M3) [0..<nr] in
                  if ok
                  then (None, M3\<lparr>brd_devices := devs, disks_added := map brd_number devs,
                                 region := Some (RAMDISK_MAJOR K, push_bit (part_shift M3) nr)\<rparr>)
                  else (Some ENOMEM, M3\<lparr>brd_devices := [], major_registered := False\<rparr>))))"

text \<open>\<open>blk_unregister_region\<close> removes the region it is given, if it is the one registered.\<close>

definition brd_exit :: "brd_module \<Rightarrow> brd_module" where
  "brd_exit M =
     (let range = push_bit (part_shift M) (num_disks M * (1 + num_snapshots M));
          M1 = fold (\<lambda>d M'. brd_del_one M' d) (brd_devices M) M
      in M1\<lparr>region := (if region M1 = Some (major_num M, range) then None else region M1),
            major_registered := False\<rparr>)"

end
