(* ===== verification/Permuter.thy ===== *)
theory Permuter
  imports Disk_Write
begin

text \<open>
  The base class of the permuters, \<open>code/permuter/Permuter.h\<close> and \<open>Permuter.cpp\<close>: the
  partition of the log into epochs (\<open>InitDataVector\<close>), the key and the hash of a crash state,
  and the retry loop that looks for a crash state not seen before (\<open>GenerateCrashState\<close>).
  The virtual \<open>gen_one_state\<close> is the argument \<open>gen\<close>; its contract is the locale
  \<open>crash_state_generator\<close>.

  Positions in the log are natural numbers: the code keeps them in \<open>unsigned int\<close>, which does
  not wrap for a log of fewer than \<open>2^32\<close> entries.  The sector ranges, whose 32-bit arithmetic
  does wrap, are words.
\<close>

section \<open>Data\<close>

record range =
  range_start :: u32
  range_end :: u32

record epoch_op =
  abs_index :: nat
  op :: disk_write

record epoch =
  num_meta :: u32
  has_barrier :: bool
  overlaps :: bool
  ops :: "epoch_op list"

abbreviation mk_op :: "nat \<Rightarrow> disk_write \<Rightarrow> epoch_op" where
  "mk_op i d \<equiv> \<lparr>abs_index = i, op = d\<rparr>"

text \<open>
  Three variables of \<open>InitDataVector\<close> are declared without an initial value and then read:
  \<open>current_epoch.num_meta\<close>, the metadata of \<open>flag_half\<close> and (never read before it is
  assigned) \<open>data_half\<close>.  What they hold is arbitrary; \<open>indet\<close> gives these values, per log
  position at which the variable is declared, and every theorem holds for all of them.
\<close>

record indet =
  indet_num_meta :: "nat \<Rightarrow> u32"
  indet_flag_half :: "nat \<Rightarrow> disk_write_op_meta"
  indet_data_half :: disk_write_op_meta

definition uninit_disk_write :: "disk_write_op_meta \<Rightarrow> disk_write" where
  "uninit_disk_write m = \<lparr>metadata = m, dw_data = None\<rparr>"

section \<open>The search for overlapping ranges\<close>

text \<open>
  The loop over the list \<open>overlaps\<close>: the list afterwards and whether an overlap was found.
  The loop works on a copy of each range (\<open>range r = *range_iter\<close>), so widening \<open>r\<close> does
  not change the list, and an insertion goes before the current position without leaving the
  loop.
\<close>

fun scan_overlaps :: "u32 \<Rightarrow> u32 \<Rightarrow> range list \<Rightarrow> range list \<times> bool" where
  "scan_overlaps s e [] = ([], False)"
| "scan_overlaps s e (r # rs) =
     (if (range_start r \<le> s \<and> range_end r \<ge> s) \<or> (range_start r \<le> e \<and> range_end r \<ge> e)
      then (r # rs, True)
      else if range_start r > e
      then (let (rs', b) = scan_overlaps s e rs
            in (\<lparr>range_start = s, range_end = e\<rparr> # r # rs', b))
      else (let (rs', b) = scan_overlaps s e rs in (r # rs', b)))"

section \<open>InitDataVector\<close>

record init_vars =
  index :: nat
  prev_epoch_flush_op :: bool
  data_half :: disk_write
  overlap_list :: "range list"

definition push_op :: "req_flags \<Rightarrow> nat \<Rightarrow> disk_write \<Rightarrow> epoch \<Rightarrow> epoch" where
  "push_op R i d e =
     e\<lparr>ops := ops e @ [mk_op i d], num_meta := num_meta e + (if is_meta R d then 1 else 0)\<rparr>"

text \<open>The data half of a flush of the epoch before goes in front of the next write.\<close>

definition push_pending :: "req_flags \<Rightarrow> init_vars \<Rightarrow> epoch \<Rightarrow> init_vars \<times> epoch" where
  "push_pending R v e =
     (if prev_epoch_flush_op v
      then (v\<lparr>prev_epoch_flush_op := False\<rparr>, push_op R (index v - 1) (data_half v) e)
      else (v, e))"

text \<open>One round of the inner loop: a write that is not a barrier.\<close>

definition fill_step :: "req_flags \<Rightarrow> disk_write \<Rightarrow> init_vars \<Rightarrow> epoch \<Rightarrow> init_vars \<times> epoch" where
  "fill_step R d v e =
     (let (v1, e1) = push_pending R v e;
          start = ucast (write_sector (metadata d)) :: u32;
          stop = start + meta_size (metadata d);
          (rs, found) = scan_overlaps start stop (overlap_list v1);
          e2 = (if found then e1\<lparr>overlaps := True\<rparr> else e1)
      in (v1\<lparr>overlap_list := rs, index := index v1 + 1\<rparr>, push_op R (index v1) d e2))"

text \<open>The inner loop: the writes up to the next barrier.\<close>

fun fill_epoch :: "req_flags \<Rightarrow> disk_write list \<Rightarrow> init_vars \<Rightarrow> epoch
    \<Rightarrow> disk_write list \<times> init_vars \<times> epoch" where
  "fill_epoch R [] v e = ([], v, e)"
| "fill_epoch R (d # ds) v e =
     (if is_barrier_write R d then (d # ds, v, e)
      else (case fill_step R d v e of (v1, e1) \<Rightarrow> fill_epoch R ds v1 e1))"

text \<open>
  A flush that carries data and is not FUA is taken apart: the flags stay in this epoch, the
  data waits for the next.
\<close>

definition is_split_flush :: "req_flags \<Rightarrow> disk_write \<Rightarrow> bool" where
  "is_split_flush R d \<longleftrightarrow>
     (has_flush_flag R d \<or> has_flush_seq_flag R d) \<and> has_write_flag R d \<and> \<not> has_FUA_flag R d"

definition flag_half_of :: "req_flags \<Rightarrow> disk_write_op_meta \<Rightarrow> disk_write \<Rightarrow> disk_write" where
  "flag_half_of R m d =
     (let f = uninit_disk_write m;
          f = (if has_flush_flag R d then set_flush_flag R f else f)
      in (if has_flush_seq_flag R d then set_flush_seq_flag R f else f))"

definition data_half_of :: "req_flags \<Rightarrow> disk_write \<Rightarrow> disk_write" where
  "data_half_of R d =
     (let h = (if has_flush_flag R d then clear_flush_flag R d else d)
      in (if has_flush_seq_flag R d then clear_flush_seq_flag R h else h))"

lemma fill_epoch_rest:
  "fill_epoch R ds v e = (ds', v', e') \<Longrightarrow>
    length ds' \<le> length ds \<and> (\<forall>d xs. ds' = d # xs \<longrightarrow> is_barrier_write R d)"
  by (induction ds arbitrary: v e) (auto split: if_splits prod.splits dest: le_SucI)

lemma fill_epoch_shorter:
  "(d # ds', v', e') = fill_epoch R ds v e \<Longrightarrow> length ds' < length ds"
  using fill_epoch_rest [of R ds v e "d # ds'" v' e'] by simp

text \<open>
  The outer loop, one epoch per round.  \<open>ds\<close> is the part of the log from \<open>index\<close> on.  When the
  inner loop stops before the end of the log it stops at a barrier (\<open>fill_epoch_rest\<close>), which
  is the test the code repeats after it.
\<close>

function init_loop :: "req_flags \<Rightarrow> indet \<Rightarrow> disk_write list \<Rightarrow> init_vars \<Rightarrow> epoch list
    \<Rightarrow> epoch list" where
  "init_loop R J [] v es = es"
| "init_loop R J (d0 # ds0) v es =
     (let e0 = \<lparr>num_meta = indet_num_meta J (index v), has_barrier = False, overlaps = False,
                ops = []\<rparr>
      in case fill_epoch R (d0 # ds0) v e0 of
           ([], v1, e1) \<Rightarrow> es @ [e1]
         | (d # ds, v1, e1) \<Rightarrow>
             (if is_split_flush R d then
                (let e2 = push_op R (index v1) (flag_half_of R (indet_flag_half J (index v1)) d) e1
                 in init_loop R J ds
                      (v1\<lparr>data_half := data_half_of R d, prev_epoch_flush_op := True,
                          index := index v1 + 1\<rparr>)
                      (es @ [e2]))
              else
                (let e2 = (push_op R (index v1) d e1)\<lparr>has_barrier := True\<rparr>
                 in init_loop R J ds (v1\<lparr>index := index v1 + 1\<rparr>) (es @ [e2]))))"
  by pat_completeness auto
termination
  by (relation "measure (\<lambda>(R, J, ds, v, es). length ds)")
    (auto simp del: fill_epoch.simps dest: fill_epoch_shorter)

declare init_loop.simps(2) [simp del]

definition InitDataVector :: "req_flags \<Rightarrow> indet \<Rightarrow> disk_write list \<Rightarrow> epoch list" where
  "InitDataVector R J data =
     init_loop R J data
       \<lparr>index = 0, prev_epoch_flush_op = False,
        data_half = uninit_disk_write (indet_data_half J), overlap_list = []\<rparr> []"

section \<open>A one-pass specification of the epochs\<close>

text \<open>
  \<open>segments R J i p cur ds\<close> lists the operations of the epochs of the log from position \<open>i\<close>
  on, with \<open>p\<close> the data half still waiting and \<open>cur\<close> the operations already in the current
  epoch; \<open>expand\<close> is the same without the epoch boundaries.
\<close>

definition pending :: "init_vars \<Rightarrow> disk_write option" where
  "pending v = (if prev_epoch_flush_op v then Some (data_half v) else None)"

fun pending_ops :: "nat \<Rightarrow> disk_write option \<Rightarrow> epoch_op list" where
  "pending_ops i None = []"
| "pending_ops i (Some h) = [mk_op (i - 1) h]"

fun segments :: "req_flags \<Rightarrow> indet \<Rightarrow> nat \<Rightarrow> disk_write option \<Rightarrow> epoch_op list \<Rightarrow> disk_write list
    \<Rightarrow> epoch_op list list" where
  "segments R J i p cur [] = (if cur = [] then [] else [cur])"
| "segments R J i p cur (d # ds) =
     (if is_barrier_write R d then
        (if is_split_flush R d
         then (cur @ [mk_op i (flag_half_of R (indet_flag_half J i) d)])
                # segments R J (i + 1) (Some (data_half_of R d)) [] ds
         else (cur @ [mk_op i d]) # segments R J (i + 1) p [] ds)
      else segments R J (i + 1) None (cur @ pending_ops i p @ [mk_op i d]) ds)"

fun expand :: "req_flags \<Rightarrow> indet \<Rightarrow> nat \<Rightarrow> disk_write option \<Rightarrow> disk_write list \<Rightarrow> epoch_op list" where
  "expand R J i p [] = []"
| "expand R J i p (d # ds) =
     (if is_barrier_write R d then
        (if is_split_flush R d
         then mk_op i (flag_half_of R (indet_flag_half J i) d)
                # expand R J (i + 1) (Some (data_half_of R d)) ds
         else mk_op i d # expand R J (i + 1) p ds)
      else pending_ops i p @ mk_op i d # expand R J (i + 1) None ds)"

lemma concat_segments: "concat (segments R J i p cur ds) = cur @ expand R J i p ds"
  by (induction R J i p cur ds rule: segments.induct) auto

lemma push_op_simps [simp, epoch_simps]:
  "ops (push_op R i d e) = ops e @ [mk_op i d]" "has_barrier (push_op R i d e) = has_barrier e"
  "overlaps (push_op R i d e) = overlaps e"
  "num_meta (push_op R i d e) = num_meta e + (if is_meta R d then 1 else 0)"
  by (simp_all add: push_op_def)

lemma push_pending_simps:
  assumes "push_pending R v e = (v', e')"
  shows "ops e' = ops e @ pending_ops (index v) (pending v)" "pending v' = None"
    "index v' = index v" "has_barrier e' = has_barrier e" "overlaps e' = overlaps e"
    "overlap_list v' = overlap_list v"
  using assms by (auto simp: push_pending_def pending_def split: if_splits)

lemma pending_update [simp]:
  "pending (v\<lparr>overlap_list := rs\<rparr>) = pending v"
  "pending (v\<lparr>index := i\<rparr>) = pending v"
  "pending (v\<lparr>data_half := h, prev_epoch_flush_op := True\<rparr>) = Some h"
  "pending (v\<lparr>data_half := h, prev_epoch_flush_op := True, index := i\<rparr>) = Some h"
  by (simp_all add: pending_def)

lemma fill_step_simps:
  assumes "fill_step R d v e = (v', e')"
  shows "ops e' = ops e @ pending_ops (index v) (pending v) @ [mk_op (index v) d]"
    "pending v' = None" "index v' = index v + 1" "has_barrier e' = has_barrier e"
    "overlap_list v = [] \<Longrightarrow> overlap_list v' = [] \<and> overlaps e' = overlaps e"
  using assms
  by (auto simp: fill_step_def Let_def push_pending_simps split: prod.splits if_splits)

lemma fill_epoch_segments:
  "fill_epoch R ds v e = (ds', v', e') \<Longrightarrow>
     segments R J (index v) (pending v) (ops e) ds = segments R J (index v') (pending v') (ops e') ds'"
proof (induction ds arbitrary: v e)
  case Nil
  then show ?case by simp
next
  case (Cons d ds)
  obtain v1 e1 where step: "fill_step R d v e = (v1, e1)" by fastforce
  show ?case
  proof (cases "is_barrier_write R d")
    case True
    with Cons.prems show ?thesis by auto
  next
    case False
    with Cons.prems step have "fill_epoch R ds v1 e1 = (ds', v', e')" by simp
    from Cons.IH [OF this] False show ?thesis by (simp add: fill_step_simps [OF step])
  qed
qed

lemma fill_epoch_frame:
  "fill_epoch R ds v e = (ds', v', e') \<Longrightarrow>
     has_barrier e' = has_barrier e \<and>
     (overlap_list v = [] \<longrightarrow> overlap_list v' = [] \<and> overlaps e' = overlaps e) \<and>
     (ops e \<noteq> [] \<longrightarrow> ops e' \<noteq> [])"
  by (induction ds arbitrary: v e)
    (auto split: if_splits prod.splits dest: fill_step_simps)

lemma fill_epoch_all_nonempty:
  "fill_epoch R (d # ds) v e = ([], v', e') \<Longrightarrow> ops e' \<noteq> []"
  by (auto split: if_splits prod.splits dest!: fill_epoch_frame fill_step_simps(1))

lemma init_loop_step:
  assumes "fill_epoch R (d0 # ds0) v
      \<lparr>num_meta = indet_num_meta J (index v), has_barrier = False, overlaps = False, ops = []\<rparr>
      = (ds', v1, e1)"
  shows "ds' = [] \<Longrightarrow> init_loop R J (d0 # ds0) v es = es @ [e1]"
    "ds' = d # ds \<Longrightarrow> is_split_flush R d \<Longrightarrow> init_loop R J (d0 # ds0) v es =
       init_loop R J ds
         (v1\<lparr>data_half := data_half_of R d, prev_epoch_flush_op := True, index := index v1 + 1\<rparr>)
         (es @ [push_op R (index v1) (flag_half_of R (indet_flag_half J (index v1)) d) e1])"
    "ds' = d # ds \<Longrightarrow> \<not> is_split_flush R d \<Longrightarrow> init_loop R J (d0 # ds0) v es =
       init_loop R J ds (v1\<lparr>index := index v1 + 1\<rparr>)
         (es @ [(push_op R (index v1) d e1)\<lparr>has_barrier := True\<rparr>])"
  using assms by (simp_all add: init_loop.simps(2) del: fill_epoch.simps)

text \<open>
  A rule for facts about all epochs that \<open>init_loop\<close> makes: a property \<open>P\<close> of the epochs so
  far and of the rest of the log that every round keeps.
\<close>

lemma init_loop_rule [consumes 1, case_names last split barrier]:
  assumes P: "P ds v es"
    and last: "\<And>d0 ds0 v es v1 e1. P (d0 # ds0) v es \<Longrightarrow>
       fill_epoch R (d0 # ds0) v \<lparr>num_meta = indet_num_meta J (index v), has_barrier = False,
         overlaps = False, ops = []\<rparr> = ([], v1, e1) \<Longrightarrow> P [] v1 (es @ [e1])"
    and split: "\<And>d0 ds0 v es v1 e1 d ds. P (d0 # ds0) v es \<Longrightarrow>
       fill_epoch R (d0 # ds0) v \<lparr>num_meta = indet_num_meta J (index v), has_barrier = False,
         overlaps = False, ops = []\<rparr> = (d # ds, v1, e1) \<Longrightarrow> is_barrier_write R d \<Longrightarrow>
       is_split_flush R d \<Longrightarrow>
       P ds (v1\<lparr>data_half := data_half_of R d, prev_epoch_flush_op := True, index := index v1 + 1\<rparr>)
         (es @ [push_op R (index v1) (flag_half_of R (indet_flag_half J (index v1)) d) e1])"
    and barrier: "\<And>d0 ds0 v es v1 e1 d ds. P (d0 # ds0) v es \<Longrightarrow>
       fill_epoch R (d0 # ds0) v \<lparr>num_meta = indet_num_meta J (index v), has_barrier = False,
         overlaps = False, ops = []\<rparr> = (d # ds, v1, e1) \<Longrightarrow> is_barrier_write R d \<Longrightarrow>
       \<not> is_split_flush R d \<Longrightarrow>
       P ds (v1\<lparr>index := index v1 + 1\<rparr>)
         (es @ [(push_op R (index v1) d e1)\<lparr>has_barrier := True\<rparr>])"
  shows "\<exists>v'. P [] v' (init_loop R J ds v es)"
  using P
proof (induction ds arbitrary: v es rule: length_induct)
  case (1 ds)
  show ?case
  proof (cases ds)
    case Nil
    with 1 show ?thesis by auto
  next
    case (Cons d0 ds0)
    obtain ds' v1 e1 where fill: "fill_epoch R ds v \<lparr>num_meta = indet_num_meta J (index v),
        has_barrier = False, overlaps = False, ops = []\<rparr> = (ds', v1, e1)"
      by (metis prod_cases3)
    note fill' = fill [unfolded Cons]
    show ?thesis
    proof (cases ds')
      case Nil
      with last [OF 1(2) [unfolded Cons]] fill' show ?thesis
        by (auto simp: Cons init_loop_step(1) [OF fill'])
    next
      case ds': (Cons d ds1)
      then have "length ds1 < length ds" and bar: "is_barrier_write R d"
        using fill_epoch_rest [OF fill] by auto
      with 1(1) have IH: "P ds1 v2 es2 \<Longrightarrow> \<exists>v'. P [] v' (init_loop R J ds1 v2 es2)" for v2 es2
        by blast
      note fill'' = fill' [unfolded ds']
      show ?thesis
        using IH [OF split [OF 1(2) [unfolded Cons] fill'' bar]]
          IH [OF barrier [OF 1(2) [unfolded Cons] fill'' bar]]
        by (cases "is_split_flush R d")
          (simp_all add: Cons init_loop_step(2,3) [OF fill'' refl] del: fill_epoch.simps)
    qed
  qed
qed

section \<open>The epochs of a log\<close>

lemma fill_epoch_drop:
  "fill_epoch R ds v e = (ds', v', e') \<Longrightarrow> ds = drop (index v) log \<Longrightarrow>
     ds' = drop (index v') log \<and> index v \<le> index v' \<and> index v' \<le> index v + length ds"
proof (induction ds arbitrary: v e)
  case Nil
  then show ?case by simp
next
  case (Cons d ds)
  obtain v1 e1 where step: "fill_step R d v e = (v1, e1)" by fastforce
  have ds: "ds = drop (Suc (index v)) log"
    using Cons.prems(2) by (metis drop_Suc list.sel(3) tl_drop)
  show ?case
  proof (cases "is_barrier_write R d")
    case True
    with Cons.prems(1) have "ds' = d # ds" "v' = v" by auto
    with Cons.prems(2) show ?thesis by simp
  next
    case False
    with Cons.prems(1) step have "fill_epoch R ds v1 e1 = (ds', v', e')" by simp
    from Cons.IH [OF this] ds show ?thesis by (auto simp: fill_step_simps(3) [OF step])
  qed
qed

lemma drop_eq_ConsD: "drop i xs = d # ds \<Longrightarrow> i < length xs \<and> xs ! i = d \<and> ds = drop (Suc i) xs"
  by (metis Cons_nth_drop_Suc drop_eq_Nil list.discI list.inject not_le_imp_less)

text \<open>The last operation of an epoch that the end of the log closes is a log entry.\<close>

lemma fill_epoch_last:
  "fill_epoch R ds v e = ([], v', e') \<Longrightarrow> ds = drop (index v) log \<Longrightarrow> ds \<noteq> [] \<Longrightarrow>
     \<exists>i < length log. last (ops e') = mk_op i (log ! i) \<and> \<not> is_barrier_write R (log ! i)"
proof (induction ds arbitrary: v e)
  case Nil
  then show ?case by simp
next
  case (Cons d ds)
  obtain v1 e1 where step: "fill_step R d v e = (v1, e1)" by fastforce
  have d: "index v < length log" "log ! index v = d" "ds = drop (Suc (index v)) log"
    using drop_eq_ConsD Cons.prems(2) by metis+
  have nb: "\<not> is_barrier_write R d" using Cons.prems(1) by (auto split: if_splits)
  with Cons.prems(1) step have rest: "fill_epoch R ds v1 e1 = ([], v', e')" by simp
  show ?case
  proof (cases "ds = []")
    case True
    with rest have "e' = e1" by simp
    then have "last (ops e') = mk_op (index v) d" by (simp add: fill_step_simps(1) [OF step])
    with d nb show ?thesis by auto
  next
    case False
    with Cons.IH [OF rest] d show ?thesis by (simp add: fill_step_simps(3) [OF step])
  qed
qed

lemma init_loop_segments:
  "map ops (init_loop R J ds v es) = map ops es @ segments R J (index v) (pending v) [] ds"
proof -
  let ?P = "\<lambda>ds' v' es'. map ops es' @ segments R J (index v') (pending v') [] ds' =
    map ops es @ segments R J (index v) (pending v) [] ds"
  have "\<exists>v'. ?P [] v' (init_loop R J ds v es)"
  proof (rule init_loop_rule [where P = ?P], goal_cases)
    case 1
    show ?case by simp
  next
    case (2 d0 ds0 v es v1 e1)
    show ?case using 2(1) fill_epoch_segments [OF 2(2), of J] fill_epoch_all_nonempty [OF 2(2)]
      by simp
  next
    case (3 d0 ds0 v es v1 e1 d ds)
    show ?case using 3(1,3,4) fill_epoch_segments [OF 3(2), of J] by simp
  next
    case (4 d0 ds0 v es v1 e1 d ds)
    show ?case using 4(1,3,4) fill_epoch_segments [OF 4(2), of J] by simp
  qed
  then show ?thesis by simp
qed

lemma InitDataVector_ops: "map ops (InitDataVector R J data) = segments R J 0 None [] data"
  by (simp add: InitDataVector_def init_loop_segments pending_def)

lemma InitDataVector_expand: "concat (map ops (InitDataVector R J data)) = expand R J 0 None data"
  by (simp add: InitDataVector_ops concat_segments)

lemma segments_nonempty: "[] \<notin> set (segments R J i p cur ds)"
  by (induction R J i p cur ds rule: segments.induct) auto

lemma segments_eq_Nil: "segments R J i p cur ds = [] \<longleftrightarrow> cur = [] \<and> ds = []"
  by (induction R J i p cur ds rule: segments.induct) auto

text \<open>
  No epoch is ever marked as overlapping: nothing is put in the list \<open>overlaps\<close> while it is
  empty, and it starts empty.
\<close>

lemma init_loop_overlaps:
  assumes "overlap_list v = []" "filter overlaps es = []"
  shows "filter overlaps (init_loop R J ds v es) = []"
proof -
  let ?P = "\<lambda>(ds :: disk_write list) (v :: init_vars) es. overlap_list v = [] \<and> filter overlaps es = []"
  have "\<exists>v'. ?P [] v' (init_loop R J ds v es)"
    by (rule init_loop_rule [where P = ?P])
      (auto simp: assms simp del: fill_epoch.simps dest!: fill_epoch_frame)
  then show ?thesis by simp
qed

lemma InitDataVector_overlaps: "filter overlaps (InitDataVector R J data) = []"
  by (simp add: InitDataVector_def init_loop_overlaps)

text \<open>An epoch is marked with a barrier exactly when a barrier that was not taken apart ends it.\<close>

definition ends_in_barrier :: "req_flags \<Rightarrow> disk_write list \<Rightarrow> epoch \<Rightarrow> bool" where
  "ends_in_barrier R data e \<longleftrightarrow>
     (let l = last (ops e); i = abs_index l
      in ops e \<noteq> [] \<and> i < length data \<and> op l = data ! i \<and>
         is_barrier_write R (data ! i) \<and> \<not> is_split_flush R (data ! i))"

lemma init_loop_has_barrier:
  assumes "ds = drop (index v) data" "\<forall>e\<in>set es. has_barrier e = ends_in_barrier R data e"
  shows "\<forall>e\<in>set (init_loop R J ds v es). has_barrier e = ends_in_barrier R data e"
proof -
  let ?P = "\<lambda>ds (v :: init_vars) es. ds = drop (index v) data \<and>
    (\<forall>e\<in>set es. has_barrier e = ends_in_barrier R data e)"
  have "\<exists>v'. ?P [] v' (init_loop R J ds v es)"
  proof (rule init_loop_rule [where P = ?P], goal_cases)
    case 1
    show ?case using assms by simp
  next
    case (2 d0 ds0 v es v1 e1)
    then obtain i where "last (ops e1) = mk_op i (data ! i)" "\<not> is_barrier_write R (data ! i)"
      using fill_epoch_last [OF 2(2) conjunct1 [OF 2(1)]] by blast
    then have "\<not> ends_in_barrier R data e1" by (simp add: ends_in_barrier_def Let_def)
    with 2 fill_epoch_frame [OF 2(2)] fill_epoch_drop [OF 2(2), of data] show ?case by simp
  next
    case (3 d0 ds0 v es v1 e1 d ds)
    then have "drop (index v1) data = d # ds" using fill_epoch_drop [OF 3(2)] by simp
    from drop_eq_ConsD [OF this] 3 fill_epoch_frame [OF 3(2)] show ?case
      by (auto simp: ends_in_barrier_def Let_def)
  next
    case (4 d0 ds0 v es v1 e1 d ds)
    then have "drop (index v1) data = d # ds" using fill_epoch_drop [OF 4(2)] by simp
    from drop_eq_ConsD [OF this] 4 show ?case
      by (auto simp: ends_in_barrier_def Let_def)
  qed
  then show ?thesis by simp
qed

lemma InitDataVector_has_barrier:
  "map has_barrier (InitDataVector R J data) =
   map (ends_in_barrier R data) (InitDataVector R J data)"
  unfolding InitDataVector_def list.map_comp map_eq_conv by (rule init_loop_has_barrier) simp_all

section \<open>Logs without a flush that carries data\<close>

fun split_after :: "('a \<Rightarrow> bool) \<Rightarrow> 'a list \<Rightarrow> 'a list \<Rightarrow> 'a list list" where
  "split_after P cur [] = (if cur = [] then [] else [cur])"
| "split_after P cur (x # xs) =
     (if P x then (cur @ [x]) # split_after P [] xs else split_after P (cur @ [x]) xs)"

lemma segments_plain:
  "\<forall>d\<in>set ds. \<not> is_split_flush R d \<Longrightarrow>
     map (map op) (segments R J i None cur ds) = split_after (is_barrier_write R) (map op cur) ds"
  by (induction ds arbitrary: i cur) auto

lemma expand_plain:
  "\<forall>d\<in>set ds. \<not> is_split_flush R d \<Longrightarrow>
     expand R J i None ds = map (\<lambda>k. mk_op k (ds ! (k - i))) [i..<i + length ds]"
proof (induction ds arbitrary: i)
  case Nil
  then show ?case by simp
next
  case (Cons d ds)
  have "[i..<i + length (d # ds)] = i # [Suc i..<Suc i + length ds]"
    using upt_rec [of i "i + length (d # ds)"] by simp
  moreover have "map (\<lambda>k. mk_op k (ds ! (k - Suc i))) [Suc i..<Suc i + length ds] =
      map (\<lambda>k. mk_op k ((d # ds) ! (k - i))) [Suc i..<Suc i + length ds]"
    by (rule map_cong) (auto simp: nth_Cons')
  ultimately show ?case using Cons by simp
qed

lemma split_after_last: "xs \<in> set (split_after P cur ds) \<Longrightarrow> xs \<noteq> []"
  by (induction P cur ds rule: split_after.induct) (auto split: if_splits)

section \<open>Flushes that carry data\<close>

lemma split_flush_barrier: "is_split_flush R d \<Longrightarrow> is_barrier_write R d"
  by (auto simp: is_split_flush_def dw_flag_defs meta_defs)

lemma expand_append_split:
  "is_split_flush R f \<Longrightarrow>
     expand R J i p (xs @ f # ys) = expand R J i p xs @
       mk_op (i + length xs) (flag_half_of R (indet_flag_half J (i + length xs)) f)
         # expand R J (i + length xs + 1) (Some (data_half_of R f)) ys"
  by (induction xs arbitrary: i p) (auto simp: split_flush_barrier)

lemma expand_split_write:
  "is_split_flush R f \<Longrightarrow> \<not> is_barrier_write R w \<Longrightarrow>
     expand R J i p (xs @ f # w # ys) = expand R J i p xs @
       [mk_op (i + length xs) (flag_half_of R (indet_flag_half J (i + length xs)) f),
        mk_op (i + length xs) (data_half_of R f), mk_op (i + length xs + 1) w]
       @ expand R J (i + length xs + 2) None ys"
  by (simp add: expand_append_split)

lemma flag_half_no_data: "dw_data (flag_half_of R m d) = None"
  by (simp add: flag_half_of_def uninit_disk_write_def Let_def)

lemma data_half_frame:
  assumes "req_ok R"
  shows "dw_data (data_half_of R d) = dw_data d"
    "write_sector (metadata (data_half_of R d)) = write_sector (metadata d)"
    "meta_size (metadata (data_half_of R d)) = meta_size (metadata d)"
    "has_write_flag R (data_half_of R d) = has_write_flag R d"
    "has_FUA_flag R (data_half_of R d) = has_FUA_flag R d"
    "\<not> has_flush_flag R (data_half_of R d)" "\<not> has_flush_seq_flag R (data_half_of R d)"
  using flag_simps [OF assms] by (auto simp: data_half_of_def Let_def)

lemma length_pending_ops: "length (pending_ops i p) \<le> 1"
  by (cases p) auto

lemma length_expand: "length ds \<le> length (expand R J i p ds) \<and> length (expand R J i p ds) \<le> 2 * length ds"
proof (induction R J i p ds rule: expand.induct)
  case (1 R J i p)
  then show ?case by simp
next
  case (2 R J i p d ds)
  then show ?case using length_pending_ops [of i p] by auto
qed

section \<open>The key of a crash state\<close>

text \<open>
  A crash state is remembered by the log positions of its operations.  The set
  \<open>completed_permutations_\<close> is an \<open>unordered_set\<close> with the hash \<open>BioVectorHash\<close> (32-bit
  arithmetic) and the equality \<open>BioVectorEqual\<close>; it is a set of keys because that equality is
  equality of the vectors and equal vectors have the same hash.
\<close>

fun bio_hash_loop :: "u32 \<Rightarrow> nat list \<Rightarrow> u32" where
  "bio_hash_loop seed [] = seed"
| "bio_hash_loop seed (p # ps) =
     bio_hash_loop (seed XOR
       (of_nat p + 0x9e3779b9 + push_bit 6 seed + drop_bit 2 seed)) ps"

definition BioVectorHash :: "nat list \<Rightarrow> u32" where
  "BioVectorHash permutation = bio_hash_loop (of_nat (length permutation)) permutation"

fun bio_equal_from :: "nat \<Rightarrow> nat list \<Rightarrow> nat list \<Rightarrow> bool" where
  "bio_equal_from 0 a b = True"
| "bio_equal_from (Suc n) a b =
     (let i = length a - Suc n in if a ! i \<noteq> b ! i then False else bio_equal_from n a b)"

definition BioVectorEqual :: "nat list \<Rightarrow> nat list \<Rightarrow> bool" where
  "BioVectorEqual a b = (if length a \<noteq> length b then False else bio_equal_from (length a) a b)"

lemma bio_equal_from_iff:
  "n \<le> length a \<Longrightarrow> length a = length b \<Longrightarrow>
     bio_equal_from n a b \<longleftrightarrow> drop (length a - n) a = drop (length a - n) b"
proof (induction n)
  case 0
  then show ?case by simp
next
  case (Suc n)
  let ?i = "length a - Suc n"
  have i: "?i < length a" "Suc ?i = length a - n" using Suc.prems by simp_all
  have "drop ?i a = a ! ?i # drop (length a - n) a" "drop ?i b = b ! ?i # drop (length a - n) b"
    using i Cons_nth_drop_Suc [of ?i a] Cons_nth_drop_Suc [of ?i b] Suc.prems by simp_all
  with Suc show ?case by (simp add: Let_def)
qed

lemma BioVectorEqual_hash: "BioVectorEqual a b \<Longrightarrow> BioVectorHash a = BioVectorHash b"
  using bio_equal_from_iff [of "length a" a b] by (auto simp: BioVectorEqual_def split: if_splits)

section \<open>GenerateCrashState\<close>

record 'g permuter =
  epochs :: "epoch list"
  completed_permutations :: "nat list set"
  rand :: 'g

text \<open>
  The virtual \<open>gen_one_state\<close>: from the epochs, the generator state and the old contents of
  the result vector, its answer, the new contents and the new generator state; \<open>None\<close> is an
  assertion that fails, an exception or undefined behaviour.
\<close>

type_synonym 'g gen = "epoch list \<Rightarrow> 'g \<Rightarrow> epoch_op list \<Rightarrow> (bool \<times> epoch_op list \<times> 'g) option"

definition kRetryMultiplier :: nat where "kRetryMultiplier = 2"

definition kMinRetries :: nat where "kMinRetries = 1000"

definition max_retries_of :: "nat list set \<Rightarrow> nat" where
  "max_retries_of completed =
     (if kRetryMultiplier * card completed < kMinRetries then kMinRetries
      else kRetryMultiplier * card completed)"

text \<open>
  The retry loop.  Its result is \<open>new_state\<close>, \<open>crash_state\<close>, \<open>crash_state_hash\<close>, whether the
  key exists already, and the generator state.
\<close>

function generate_loop :: "'g gen \<Rightarrow> epoch list \<Rightarrow> nat list set \<Rightarrow> nat \<Rightarrow> nat \<Rightarrow> 'g
    \<Rightarrow> epoch_op list \<Rightarrow> (bool \<times> epoch_op list \<times> nat list \<times> bool \<times> 'g) option" where
  "generate_loop gen es completed max_retries retries g crash_state =
     (case gen es g crash_state of
        None \<Rightarrow> None
      | Some (new_state, crash_state', g') \<Rightarrow>
          (let crash_state_hash = map abs_index crash_state';
               retries' = retries + 1;
               exists = crash_state_hash \<in> completed
           in if \<not> new_state \<or> retries' \<ge> max_retries
              then Some (new_state, crash_state', crash_state_hash, exists, g')
              else if exists
              then generate_loop gen es completed max_retries retries' g' crash_state'
              else Some (new_state, crash_state', crash_state_hash, exists, g')))"
  by pat_completeness auto
termination
  by (relation "measure (\<lambda>(gen, es, c, m, r, g, cs). m - r)") auto

declare generate_loop.simps [simp del]

definition GenerateCrashState :: "'g gen \<Rightarrow> 'g permuter
    \<Rightarrow> (bool \<times> disk_write list \<times> 'g permuter) option" where
  "GenerateCrashState gen P =
     (let completed = completed_permutations P in
      case generate_loop gen (epochs P) completed (max_retries_of completed) 0 (rand P) [] of
        None \<Rightarrow> None
      | Some (new_state, crash_state, crash_state_hash, exists, g) \<Rightarrow>
          (let res = map op crash_state in
           if \<not> exists
           then Some (new_state, res,
                  P\<lparr>completed_permutations := insert crash_state_hash completed, rand := g\<rparr>)
           else Some (False, res, P\<lparr>rand := g\<rparr>)))"

section \<open>What GenerateCrashState asks of gen_one_state, and promises\<close>

lemma max_retries_pos [simp]: "0 < max_retries_of completed"
  by (auto simp: max_retries_of_def kMinRetries_def kRetryMultiplier_def)

lemma generate_loop_result:
  assumes "generate_loop gen es completed m r g cs0 = Some (ns, cs, h, ex, g')"
  shows "h = map abs_index cs \<and> ex = (h \<in> completed) \<and>
    (\<exists>g0 cs1. gen es g0 cs1 = Some (ns, cs, g'))"
  using assms
proof (induction gen es completed m r g cs0 rule: generate_loop.induct)
  case (1 gen es completed m r g cs0)
  from "1.prems" obtain ns1 cs1 g1 where gen: "gen es g cs0 = Some (ns1, cs1, g1)"
    by (subst (asm) generate_loop.simps) (auto split: option.splits)
  show ?case
  proof (cases "\<not> ns1 \<or> r + 1 \<ge> m \<or> map abs_index cs1 \<notin> completed")
    case True
    with "1.prems" gen show ?thesis
      by (subst (asm) generate_loop.simps) (auto simp: Let_def split: if_splits)
  next
    case False
    with "1.prems" gen have "generate_loop gen es completed m (r + 1) g1 cs1 = Some (ns, cs, h, ex, g')"
      by (subst (asm) generate_loop.simps) (auto simp: Let_def)
    with "1.IH" [OF gen refl refl refl refl refl] False show ?thesis by auto
  qed
qed

locale crash_state_generator =
  fixes gen :: "'g gen"
    and valid :: "epoch list \<Rightarrow> epoch_op list \<Rightarrow> bool"
  assumes gen_valid: "gen es g old = Some (True, cs, g') \<Longrightarrow> valid es cs"
begin

text \<open>
  A call that answers true has found a valid crash state with a key not seen before, and
  remembers the key; a call that answers false has not.
\<close>

lemma GenerateCrashState_true:
  assumes "GenerateCrashState gen P = Some (True, res, P')"
  shows "\<exists>cs. valid (epochs P) cs \<and> res = map op cs \<and>
    map abs_index cs \<notin> completed_permutations P \<and>
    completed_permutations P' = insert (map abs_index cs) (completed_permutations P) \<and>
    epochs P' = epochs P"
proof -
  obtain cs h g where loop: "generate_loop gen (epochs P) (completed_permutations P)
      (max_retries_of (completed_permutations P)) 0 (rand P) [] = Some (True, cs, h, False, g)"
    and res: "res = map op cs"
      "P' = P\<lparr>completed_permutations := insert h (completed_permutations P), rand := g\<rparr>"
    using assms by (auto simp: GenerateCrashState_def Let_def split: option.splits if_splits)
  have "valid (epochs P) cs"
    using generate_loop_result [OF loop] gen_valid by blast
  with generate_loop_result [OF loop] res show ?thesis by auto
qed

lemma GenerateCrashState_false:
  assumes "GenerateCrashState gen P = Some (False, res, P')"
  shows "epochs P' = epochs P \<and> completed_permutations P \<subseteq> completed_permutations P'"
  using assms by (auto simp: GenerateCrashState_def Let_def split: option.splits if_splits)

end

locale total_crash_state_generator = crash_state_generator +
  fixes ready :: "epoch list \<Rightarrow> bool"
  assumes gen_total: "ready es \<Longrightarrow> gen es g old \<noteq> None"
begin

lemma generate_loop_total: "ready es \<Longrightarrow> generate_loop gen es completed m r g cs \<noteq> None"
proof (induction "m - r" arbitrary: r g cs rule: less_induct)
  case less
  obtain ns cs1 g1 where gen: "gen es g cs = Some (ns, cs1, g1)"
    using gen_total [OF less.prems] by (metis option.exhaust prod_cases3)
  show ?case
  proof (cases "\<not> ns \<or> r + 1 \<ge> m \<or> map abs_index cs1 \<notin> completed")
    case True
    with gen show ?thesis by (subst generate_loop.simps) (auto simp: Let_def)
  next
    case False
    then have "m - (r + 1) < m - r" by (simp add: diff_less_mono2)
    with False gen less.hyps [of "r + 1" g1 cs1] less.prems show ?thesis
      by (subst generate_loop.simps) (simp add: Let_def)
  qed
qed

lemma GenerateCrashState_total: "ready (epochs P) \<Longrightarrow> GenerateCrashState gen P \<noteq> None"
  using generate_loop_total [of "epochs P"]
  by (auto simp: GenerateCrashState_def Let_def split: option.splits)

end

text \<open>
  The number of calls of \<open>gen_one_state\<close>, counted by a generator that carries a counter
  along.
\<close>

definition counted :: "'g gen \<Rightarrow> (nat \<times> 'g) gen" where
  "counted gen es k old =
     map_option (\<lambda>(ns, cs, g'). (ns, cs, (fst k + 1, g'))) (gen es (snd k) old)"

lemma generate_loop_count:
  "generate_loop (counted gen) es completed m r (k, g) cs = Some (ns, cs', h, ex, (k', g')) \<Longrightarrow>
     r < m \<Longrightarrow> k < k' \<and> k' \<le> k + (m - r)"
proof (induction "m - r" arbitrary: r k g cs rule: less_induct)
  case less
  from less.prems(1) obtain ns1 cs1 g1 where gen: "gen es g cs = Some (ns1, cs1, g1)"
    by (subst (asm) generate_loop.simps) (auto simp: counted_def split: option.splits)
  then have cgen: "counted gen es (k, g) cs = Some (ns1, cs1, (k + 1, g1))"
    by (simp add: counted_def)
  show ?case
  proof (cases "\<not> ns1 \<or> r + 1 \<ge> m \<or> map abs_index cs1 \<notin> completed")
    case True
    with less.prems cgen have "k' = k + 1"
      by (subst (asm) generate_loop.simps) (auto simp: Let_def split: if_splits)
    with less.prems show ?thesis by simp
  next
    case False
    with less.prems cgen
    have "generate_loop (counted gen) es completed m (r + 1) (k + 1, g1) cs1 =
        Some (ns, cs', h, ex, (k', g'))"
      by (subst (asm) generate_loop.simps) (auto simp: Let_def)
    moreover have rm: "m - (r + 1) < m - r" "r + 1 < m" using False by (simp_all add: diff_less_mono2)
    ultimately have "k + 1 < k' \<and> k' \<le> k + 1 + (m - (r + 1))" using less.hyps by blast
    with rm show ?thesis by linarith
  qed
qed

text \<open>Counting the calls changes nothing else.\<close>

lemma generate_loop_uncount:
  "map_option (\<lambda>(ns, cs, h, ex, k). (ns, cs, h, ex, snd k))
     (generate_loop (counted gen) es completed m r k cs0) =
   generate_loop gen es completed m r (snd k) cs0"
proof (induction "m - r" arbitrary: r k cs0 rule: less_induct)
  case less
  show ?case
  proof (cases "gen es (snd k) cs0")
    case None
    then have "counted gen es k cs0 = None" by (simp add: counted_def)
    with None show ?thesis by (simp add: generate_loop.simps)
  next
    case (Some r1)
    obtain ns cs g where r1: "r1 = (ns, cs, g)" using prod_cases3 by blast
    have counted: "counted gen es k cs0 = Some (ns, cs, (fst k + 1, g))"
      by (simp add: counted_def Some r1)
    show ?thesis
    proof (cases "\<not> ns \<or> r + 1 \<ge> m \<or> map abs_index cs \<notin> completed")
      case True
      then show ?thesis
        by (subst (1 2) generate_loop.simps) (auto simp: Some r1 counted Let_def)
    next
      case False
      then have "m - (r + 1) < m - r" by (simp add: diff_less_mono2)
      from less.hyps [OF this, of "(fst k + 1, g)" cs] False show ?thesis
        by (subst (1 2) generate_loop.simps) (auto simp: Some r1 counted Let_def)
    qed
  qed
qed

definition forget_count :: "(nat \<times> 'g) permuter \<Rightarrow> 'g permuter" where
  "forget_count P = \<lparr>epochs = epochs P, completed_permutations = completed_permutations P,
     rand = snd (rand P)\<rparr>"

lemma GenerateCrashState_counted:
  assumes "GenerateCrashState (counted gen) P = Some (b, res, P')"
  shows "GenerateCrashState gen (forget_count P) = Some (b, res, forget_count P') \<and>
    fst (rand P) < fst (rand P') \<and>
    fst (rand P') \<le> fst (rand P) + max_retries_of (completed_permutations P)"
proof -
  let ?C = "completed_permutations P"
  obtain ns cs h ex k' where loop:
    "generate_loop (counted gen) (epochs P) ?C (max_retries_of ?C) 0 (rand P) [] =
       Some (ns, cs, h, ex, k')"
    using assms by (auto simp: GenerateCrashState_def Let_def split: option.splits)
  have "fst (rand P) < fst k' \<and> fst k' \<le> fst (rand P) + (max_retries_of ?C - 0)"
    using generate_loop_count [of gen "epochs P" ?C "max_retries_of ?C" 0 "fst (rand P)"
        "snd (rand P)" "[]" ns cs h ex "fst k'" "snd k'"] loop by simp
  moreover have "generate_loop gen (epochs P) ?C (max_retries_of ?C) 0 (snd (rand P)) [] =
      Some (ns, cs, h, ex, snd k')"
    using generate_loop_uncount [of gen "epochs P" ?C "max_retries_of ?C" 0 "rand P" "[]"]
    unfolding loop by simp
  ultimately show ?thesis using assms loop
    by (auto simp: GenerateCrashState_def forget_count_def Let_def split: if_splits)
qed

lemma GenerateCrashState_counted_None:
  "GenerateCrashState (counted gen) P = None \<Longrightarrow> GenerateCrashState gen (forget_count P) = None"
  using generate_loop_uncount [of gen "epochs P" "completed_permutations P"
      "max_retries_of (completed_permutations P)" 0 "rand P" "[]"]
  by (auto simp: GenerateCrashState_def forget_count_def Let_def split: option.splits if_splits)

section \<open>Properties\<close>

text \<open>A concrete choice for the uninitialised variables, for the witnesses.\<close>

definition sample_indet :: indet where
  "sample_indet = \<lparr>indet_num_meta = (\<lambda>_. 7),
     indet_flag_half = (\<lambda>_. \<lparr>bi_flags = 3, bi_rw = 5, write_sector = 9, meta_size = 11\<rparr>),
     indet_data_half = \<lparr>bi_flags = 0, bi_rw = 0, write_sector = 0, meta_size = 0\<rparr>\<rparr>"

text \<open>
  C14: The two nested loops of InitDataVector, with their pending data half, compute exactly the
  epochs of the one-pass specification: the same operations with the same log positions in the
  same epochs, whatever the uninitialised variables hold; and an epoch is marked has_barrier
  exactly when the log entry that closes it is a barrier that was not taken apart.
\<close>

theorem InitDataVector_epochs:
  "map ops (InitDataVector R J data) = segments R J 0 None [] data \<and>
   map has_barrier (InitDataVector R J data) =
     map (ends_in_barrier R data) (InitDataVector R J data)"
  by (rule conjI [OF InitDataVector_ops InitDataVector_has_barrier])

text \<open>
  On a log in which no flush has to be taken apart, the epochs are the log cut after each
  barrier write: every operation is in exactly one epoch, in log order, with its own position.
\<close>

theorem InitDataVector_plain_log:
  assumes "\<forall>d\<in>set data. \<not> is_split_flush R d"
  shows "map (map op \<circ> ops) (InitDataVector R J data) = split_after (is_barrier_write R) [] data \<and>
    concat (map (map abs_index \<circ> ops) (InitDataVector R J data)) = [0..<length data]"
proof
  have "map (map op) (map ops (InitDataVector R J data)) = split_after (is_barrier_write R) [] data"
    unfolding InitDataVector_ops using segments_plain [OF assms, of J 0 "[]"] by simp
  then show "map (map op \<circ> ops) (InitDataVector R J data) = split_after (is_barrier_write R) [] data"
    by simp
  have "concat (map (map abs_index \<circ> ops) (InitDataVector R J data)) =
      map abs_index (concat (map ops (InitDataVector R J data)))"
    by (simp add: map_concat comp_def)
  then show "concat (map (map abs_index \<circ> ops) (InitDataVector R J data)) = [0..<length data]"
    unfolding InitDataVector_expand by (simp add: expand_plain [OF assms] comp_def)
qed

theorem InitDataVector_plain_log_witness:
  "map (map op \<circ> ops) (InitDataVector flag_names_req sample_indet
     [sample_op 1 0 [1], sample_op 0x801 8 [2], sample_op 1 16 [3]]) =
   [[sample_op 1 0 [1], sample_op 0x801 8 [2]], [sample_op 1 16 [3]]]"
  using InitDataVector_plain_log
    [of "[sample_op 1 0 [1], sample_op 0x801 8 [2], sample_op 1 16 [3]]" flag_names_req sample_indet]
  by (simp add: is_split_flush_def dw_flag_defs meta_defs)

text \<open>
  A flush that carries data and is followed by an ordinary write is taken apart as meant: its
  epoch keeps a flush without data, and its data is the first operation of the next epoch, with
  the same sector, size, bytes and write flag and without the flush flags.
\<close>

theorem flush_data_opens_next_epoch:
  assumes "req_ok R" "is_split_flush R f" "\<not> is_barrier_write R w"
  shows "concat (map ops (InitDataVector R J (xs @ f # w # ys))) =
      concat (map ops (InitDataVector R J xs)) @
      [mk_op (length xs) (flag_half_of R (indet_flag_half J (length xs)) f),
       mk_op (length xs) (data_half_of R f), mk_op (length xs + 1) w] @
      expand R J (length xs + 2) None ys \<and>
    dw_data (flag_half_of R m f) = None \<and>
    dw_data (data_half_of R f) = dw_data f \<and>
    write_sector (metadata (data_half_of R f)) = write_sector (metadata f) \<and>
    meta_size (metadata (data_half_of R f)) = meta_size (metadata f) \<and>
    has_write_flag R (data_half_of R f) \<and>
    \<not> has_flush_flag R (data_half_of R f) \<and> \<not> has_flush_seq_flag R (data_half_of R f)"
  using expand_split_write [OF assms(2,3), of J 0 None xs ys] data_half_frame [OF assms(1), of f]
    assms(2)
  by (simp add: InitDataVector_expand flag_half_no_data is_split_flush_def)

theorem flush_data_opens_next_epoch_witness:
  "concat (map ops (InitDataVector flag_names_req sample_indet
     [sample_op 1 0 [1], sample_op 0x1001 8 [2], sample_op 1 16 [3]])) =
   [mk_op 0 (sample_op 1 0 [1]),
    mk_op 1 (flag_half_of flag_names_req
      \<lparr>bi_flags = 3, bi_rw = 5, write_sector = 9, meta_size = 11\<rparr> (sample_op 0x1001 8 [2])),
    mk_op 1 (data_half_of flag_names_req (sample_op 0x1001 8 [2])),
    mk_op 2 (sample_op 1 16 [3])]"
proof -
  have "is_split_flush flag_names_req (sample_op 0x1001 8 [2])"
    "\<not> is_barrier_write flag_names_req (sample_op 1 16 [3])"
    "\<not> is_barrier_write flag_names_req (sample_op 1 0 [1])"
    by (simp_all add: is_split_flush_def dw_flag_defs meta_defs)
  with flush_data_opens_next_epoch [OF req_ok_flag_names this(1,2), of sample_indet
      "[sample_op 1 0 [1]]" "[]"] show ?thesis
    by (simp add: InitDataVector_expand sample_indet_def)
qed

text \<open>
  C32: The data of a flush that nothing but another such flush follows is lost: at the end of the
  log, and before a second flush with data, the epochs hold only the flag half, which carries no
  data.
\<close>

theorem flush_data_lost:
  assumes "is_split_flush R f"
  shows "concat (map ops (InitDataVector R J (xs @ [f]))) =
      concat (map ops (InitDataVector R J xs)) @
      [mk_op (length xs) (flag_half_of R (indet_flag_half J (length xs)) f)] \<and>
    dw_data (flag_half_of R m f) = None \<and>
    (is_split_flush R f2 \<longrightarrow>
      concat (map ops (InitDataVector R J (xs @ f # f2 # ys))) =
      concat (map ops (InitDataVector R J xs)) @
      [mk_op (length xs) (flag_half_of R (indet_flag_half J (length xs)) f),
       mk_op (length xs + 1) (flag_half_of R (indet_flag_half J (length xs + 1)) f2)] @
      expand R J (length xs + 2) (Some (data_half_of R f2)) ys)"
  using assms
  by (simp add: InitDataVector_expand expand_append_split flag_half_no_data split_flush_barrier)

theorem flush_data_lost_witness:
  "map (dw_data \<circ> op) (concat (map ops (InitDataVector flag_names_req sample_indet
     [sample_op 0x1001 8 [42]]))) = [None]"
proof -
  have "is_split_flush flag_names_req (sample_op 0x1001 8 [42])"
    by (simp add: is_split_flush_def dw_flag_defs meta_defs)
  from flush_data_lost [OF this, of sample_indet "[]"] show ?thesis
    by (simp add: InitDataVector_expand flag_half_no_data)
qed

text \<open>
  No epoch is ever marked as containing overlapping writes, whatever the log: the list of
  ranges starts empty and ranges are inserted only while walking over a non-empty list.
\<close>

theorem overlaps_never_found: "filter overlaps (InitDataVector R J data) = []"
  unfolding InitDataVector_def by (rule init_loop_overlaps) simp_all

text \<open>
  No epoch is empty, there is an epoch unless the log is empty, and the epochs hold at least
  one operation per log entry and at most two.
\<close>

theorem InitDataVector_size:
  "[] \<notin> set (map ops (InitDataVector R J data)) \<and>
   (InitDataVector R J data = [] \<longleftrightarrow> data = []) \<and>
   length data \<le> sum_list (map (length \<circ> ops) (InitDataVector R J data)) \<and>
   sum_list (map (length \<circ> ops) (InitDataVector R J data)) \<le> 2 * length data"
proof -
  have "sum_list (map (length \<circ> ops) (InitDataVector R J data)) =
      length (concat (map ops (InitDataVector R J data)))"
    by (simp add: length_concat comp_def)
  moreover have "map ops (InitDataVector R J data) = [] \<longleftrightarrow> data = []"
    unfolding InitDataVector_ops by (simp add: segments_eq_Nil)
  ultimately show ?thesis
    using length_expand [of data R J 0 None] segments_nonempty [of R J 0 None "[]" data]
    by (simp add: InitDataVector_expand flip: InitDataVector_ops)
qed

text \<open>
  The key set may be read as a set of vectors: the element-wise comparison of the container
  is equality, so it is an equivalence that the hash respects.
\<close>

theorem crash_state_keys: "BioVectorEqual a b = (a = b)"
  using bio_equal_from_iff [of "length a" a b] by (auto simp: BioVectorEqual_def)

end
