(* ===== verification/Results.thy ===== *)
theory Results
  imports Prelude
begin

text \<open>
  The classes of \<open>code/results\<close>: the result of the data check and of the file-system check of one
  crash state, and the suite that counts them.  An error is the enumerator's value, a 32-bit word
  with at most one bit set; counters are 32-bit and wrap.

  An output stream is the text written so far and \<open>failbit\<close>; once it is set nothing is written.
\<close>

section \<open>Output streams\<close>

record ostream =
  out_text :: string
  out_fail :: bool

definition put :: "string \<Rightarrow> ostream \<Rightarrow> ostream" where
  "put t os = (if out_fail os then os else os\<lparr>out_text := out_text os @ t\<rparr>)"

definition fail_stream :: "ostream \<Rightarrow> ostream" where
  "fail_stream os = os\<lparr>out_fail := True\<rparr>"

section \<open>DataTestResult\<close>

definition kClean :: u32 where "kClean = 0"
definition kOldFilePersisted :: u32 where "kOldFilePersisted = push_bit 0 1"
definition kFileMissing :: u32 where "kFileMissing = push_bit 1 1"
definition kFileDataCorrupted :: u32 where "kFileDataCorrupted = push_bit 2 1"
definition kFileMetadataCorrupted :: u32 where "kFileMetadataCorrupted = push_bit 3 1"
definition kDataOther :: u32 where "kDataOther = push_bit 4 1"

lemmas data_errors = kClean_def kOldFilePersisted_def kFileMissing_def kFileDataCorrupted_def
  kFileMetadataCorrupted_def kDataOther_def

record data_test_result =
  dt_description :: string
  dt_summary :: u32

definition DataTestResult :: data_test_result where
  "DataTestResult = \<lparr>dt_description = [], dt_summary = kClean\<rparr>"

definition dt_ResetError :: "data_test_result \<Rightarrow> data_test_result" where
  "dt_ResetError r = r\<lparr>dt_summary := kClean\<rparr>"

definition dt_SetError :: "u32 \<Rightarrow> data_test_result \<Rightarrow> data_test_result" where
  "dt_SetError err r = r\<lparr>dt_summary := err\<rparr>"

definition dt_GetError :: "data_test_result \<Rightarrow> u32" where
  "dt_GetError r = dt_summary r"

definition dt_print :: "u32 \<Rightarrow> ostream \<Rightarrow> ostream" where
  "dt_print err os =
     (if err = kOldFilePersisted then put ''old_file_persisted'' os
      else if err = kFileMissing then put ''file_missing'' os
      else if err = kFileDataCorrupted then put ''file_data_corrupted'' os
      else if err = kFileMetadataCorrupted then put ''file_metadata_corrupted'' os
      else if err = kDataOther then put ''other_error'' os
      else fail_stream os)"

text \<open>The loop of \<open>PrintErrors\<close>, for either class: \<open>pr\<close> prints one enumerator.\<close>

lemma unat_half: "unat (drop_bit (Suc 0) w) = unat w div 2" for w :: u32
proof -
  have "unat (drop_bit (Suc 0) w) = drop_bit (Suc 0) (take_bit 32 (unat w))"
    by (simp only: unsigned_drop_bit_eq) simp
  also have "unat w < 2 ^ LENGTH(32)" by (rule unsigned_less)
  then have "take_bit 32 (unat w) = unat w" by (intro take_bit_nat_eq_self) simp
  finally show ?thesis by (simp only: drop_bit_eq_div power_Suc power_0 mult_1_right)
qed

lemma drop_bit_less: "w \<noteq> 0 \<Longrightarrow> unat (drop_bit (Suc 0) w) < unat w" for w :: u32
proof -
  assume "w \<noteq> 0"
  then have "unat w > 0" by (simp add: unat_gt_0)
  then show ?thesis unfolding unat_half by simp
qed

function print_errors_loop :: "(u32 \<Rightarrow> ostream \<Rightarrow> ostream) \<Rightarrow> u32 \<Rightarrow> nat \<Rightarrow> ostream \<Rightarrow> ostream" where
  "print_errors_loop pr noted_errors shift os =
     (if noted_errors \<noteq> 0 then
        print_errors_loop pr (drop_bit (Suc 0) noted_errors) (shift + 1)
          (if noted_errors AND 1 \<noteq> 0 then pr (push_bit shift 1) os else os)
      else os)"
  by pat_completeness auto
termination
  by (relation "measure (\<lambda>(pr, w, s, os). unat w)") (auto simp: drop_bit_less)

declare print_errors_loop.simps [simp del]

definition dt_PrintErrors :: "data_test_result \<Rightarrow> ostream \<Rightarrow> ostream" where
  "dt_PrintErrors r os = print_errors_loop dt_print (dt_summary r) 0 os"

section \<open>FileSystemTestResult\<close>

definition kUnmountable :: u32 where "kUnmountable = push_bit 0 1"
definition kFixed :: u32 where "kFixed = push_bit 1 1"
definition kCheck :: u32 where "kCheck = push_bit 2 1"
definition kSnapshotRestore :: u32 where "kSnapshotRestore = push_bit 3 1"
definition kBioWrite :: u32 where "kBioWrite = push_bit 4 1"
definition kFsOther :: u32 where "kFsOther = push_bit 5 1"

lemmas fs_errors = kClean_def kUnmountable_def kFixed_def kCheck_def kSnapshotRestore_def
  kBioWrite_def kFsOther_def

record fs_test_result =
  ft_description :: string
  fs_check_return :: "32 word"
  ft_summary :: u32

text \<open>\<open>fs_check_return\<close> is not initialised.\<close>

definition FileSystemTestResult :: "32 word \<Rightarrow> fs_test_result" where
  "FileSystemTestResult junk = \<lparr>ft_description = [], fs_check_return = junk, ft_summary = kClean\<rparr>"

definition ft_ResetError :: "fs_test_result \<Rightarrow> fs_test_result" where
  "ft_ResetError r = r\<lparr>ft_summary := kClean\<rparr>"

definition ft_SetError :: "u32 \<Rightarrow> fs_test_result \<Rightarrow> fs_test_result" where
  "ft_SetError err r = r\<lparr>ft_summary := err\<rparr>"

definition ft_GetError :: "fs_test_result \<Rightarrow> u32" where
  "ft_GetError r = ft_summary r"

definition ft_print :: "u32 \<Rightarrow> ostream \<Rightarrow> ostream" where
  "ft_print err os =
     (if err = kUnmountable then put ''unmountable_file_system'' os
      else if err = kCheck then put ''file_system_checker'' os
      else if err = kFixed then put ''file_system_fixed'' os
      else if err = kSnapshotRestore then put ''restoring_snapshot'' os
      else if err = kBioWrite then put ''writing_crash_state'' os
      else if err = kFsOther then put ''other_error'' os
      else fail_stream os)"

definition ft_PrintErrors :: "fs_test_result \<Rightarrow> ostream \<Rightarrow> ostream" where
  "ft_PrintErrors r os = print_errors_loop ft_print (ft_summary r) 0 os"

section \<open>SingleTestInfo and TestSuiteResult\<close>

record single_test_info =
  data_test :: data_test_result
  fs_test :: fs_test_result

definition SingleTestInfo :: "32 word \<Rightarrow> single_test_info" where
  "SingleTestInfo junk = \<lparr>data_test = DataTestResult, fs_test = FileSystemTestResult junk\<rparr>"

record test_suite_result =
  completed :: "single_test_info list"

definition TestSuiteResult :: test_suite_result where
  "TestSuiteResult = \<lparr>completed = []\<rparr>"

definition AddCompletedTest :: "single_test_info \<Rightarrow> test_suite_result \<Rightarrow> test_suite_result" where
  "AddCompletedTest d s = s\<lparr>completed := completed s @ [d]\<rparr>"

definition GetCompleted :: "test_suite_result \<Rightarrow> u32" where
  "GetCompleted s = word_of_nat (length (completed s))"

record counters =
  num_failed :: u32
  num_passed_fixed :: u32
  num_passed :: u32
  old_file_persisted :: u32
  file_missing :: u32
  file_data_corrupted :: u32
  file_metadata_corrupted :: u32
  other_errors :: u32

definition no_counts :: counters where
  "no_counts = \<lparr>num_failed = 0, num_passed_fixed = 0, num_passed = 0, old_file_persisted = 0,
     file_missing = 0, file_data_corrupted = 0, file_metadata_corrupted = 0, other_errors = 0\<rparr>"

definition count_result :: "single_test_info \<Rightarrow> counters \<Rightarrow> counters" where
  "count_result r c =
     (let fs = ft_GetError (fs_test r); dt = dt_GetError (data_test r) in
      if fs = kClean \<and> dt = kClean then c\<lparr>num_passed := num_passed c + 1\<rparr>
      else if fs = kFixed \<and> dt = kClean then c\<lparr>num_passed_fixed := num_passed_fixed c + 1\<rparr>
      else
        (let c = c\<lparr>num_failed := num_failed c + 1\<rparr> in
         if dt = kOldFilePersisted then c\<lparr>old_file_persisted := old_file_persisted c + 1\<rparr>
         else if dt = kFileMissing then c\<lparr>file_missing := file_missing c + 1\<rparr>
         else if dt = kFileDataCorrupted then c\<lparr>file_data_corrupted := file_data_corrupted c + 1\<rparr>
         else if dt = kFileMetadataCorrupted
         then c\<lparr>file_metadata_corrupted := file_metadata_corrupted c + 1\<rparr>
         else if dt = kDataOther then c\<lparr>other_errors := other_errors c + 1\<rparr>
         else c))"

definition count_results :: "test_suite_result \<Rightarrow> counters" where
  "count_results s = fold count_result (completed s) no_counts"

definition u32_text :: "u32 \<Rightarrow> string" where
  "u32_text w = dec_string (unat w)"

definition PrintResults :: "test_suite_result \<Rightarrow> ostream \<Rightarrow> ostream" where
  "PrintResults s os =
     (let c = count_results s; nl = [CHR 0x0A]; tab = [CHR 0x09] in
      put (''Ran '' @ u32_text (num_failed c + num_passed_fixed c + num_passed c) @ '' tests with'' @
           nl @ tab @ ''passed cleanly: '' @ u32_text (num_passed c) @
           nl @ tab @ ''passed fixed: '' @ u32_text (num_passed_fixed c) @
           nl @ tab @ ''failed: '' @ u32_text (num_failed c) @
           nl @ tab @ tab @ ''old file persisted: '' @ u32_text (old_file_persisted c) @
           nl @ tab @ tab @ ''file missing: '' @ u32_text (file_missing c) @
           nl @ tab @ tab @ ''file data corrupted: '' @ u32_text (file_data_corrupted c) @
           nl @ tab @ tab @ ''file metadata corrupted: '' @ u32_text (file_metadata_corrupted c) @
           nl @ tab @ tab @ ''other: '' @ u32_text (other_errors c) @ nl) os)"

section \<open>What is printed and counted\<close>

lemma put_append [simp]: "put b (put a os) = put (a @ b) os"
  by (simp add: put_def)

definition data_name :: "nat \<Rightarrow> string" where
  "data_name i = [''old_file_persisted'', ''file_missing'', ''file_data_corrupted'',
     ''file_metadata_corrupted'', ''other_error''] ! i"

definition fs_name :: "nat \<Rightarrow> string" where
  "fs_name i = [''unmountable_file_system'', ''file_system_fixed'', ''file_system_checker'',
     ''restoring_snapshot'', ''writing_crash_state'', ''other_error''] ! i"

lemma print_errors_loop_bits:
  assumes "unat w < 2 ^ n" "\<And>i os. i < n \<Longrightarrow> pr (push_bit (s + i) 1) os = put (name (s + i)) os"
  shows "print_errors_loop pr w s os =
    put (concat (map name (filter (\<lambda>i. bit w (i - s)) [s..<s + n]))) os"
  using assms
proof (induction n arbitrary: w s os)
  case 0
  then have "w = 0" by (simp add: unat_eq_0)
  then show ?case by (simp add: print_errors_loop.simps put_def)
next
  case (Suc n)
  let ?w = "drop_bit (Suc 0) w"
  have w': "unat ?w < 2 ^ n" using Suc.prems(1) unfolding unat_half by simp
  have first: "pr (push_bit s 1) os' = put (name s) os'" for os' using Suc.prems(2) [of 0] by simp
  have rest: "pr (push_bit (Suc s + i) 1) os' = put (name (Suc s + i)) os'" if "i < n" for i os'
    using Suc.prems(2) [of "Suc i"] that by simp
  have IH: "print_errors_loop pr ?w (Suc s) os' =
      put (concat (map name (filter (\<lambda>i. bit w (i - s)) [Suc s..<s + Suc n]))) os'" for os'
  proof -
    have "filter (\<lambda>i. bit ?w (i - Suc s)) [Suc s..<Suc s + n] = filter (\<lambda>i. bit w (i - s)) [Suc s..<s + Suc n]"
      by (rule filter_cong) (auto simp: bit_drop_bit_eq Suc_diff_le [symmetric])
    then show ?thesis using Suc.IH [OF w', of "Suc s"] rest by simp
  qed
  have split: "[s..<s + Suc n] = s # [Suc s..<s + Suc n]" by (simp add: upt_rec)
  have b: "w AND 1 \<noteq> 0 \<longleftrightarrow> bit w 0" by (simp add: and_one_eq odd_iff_mod_2_eq_one bit_0)
  show ?case
  proof (cases "w = 0")
    case True
    then show ?thesis by (simp add: print_errors_loop.simps put_def)
  next
    case False
    then show ?thesis
      unfolding print_errors_loop.simps [of pr w] split using IH first b
      by (simp del: upt_Suc add: add.commute)
  qed
qed

lemma data_print_bits: "i < 5 \<Longrightarrow> dt_print (push_bit i 1) os = put (data_name i) os"
proof -
  assume "i < 5"
  then consider "i = 0" | "i = 1" | "i = 2" | "i = 3" | "i = 4" by linarith
  then show ?thesis by cases (simp_all add: dt_print_def data_errors data_name_def)
qed

lemma fs_print_bits: "i < 6 \<Longrightarrow> ft_print (push_bit i 1) os = put (fs_name i) os"
proof -
  assume "i < 6"
  then consider "i = 0" | "i = 1" | "i = 2" | "i = 3" | "i = 4" | "i = 5" by linarith
  then show ?thesis by cases (simp_all add: ft_print_def fs_errors fs_name_def)
qed

text \<open>
  \<open>PrintErrors\<close> prints the names of exactly the error bits that are set, lowest first and
  without a separator, for every combination of the enumerators, in both classes.
\<close>

theorem PrintErrors_names:
  assumes "unat (dt_GetError r) < 32" "unat (ft_GetError f) < 64"
  shows "dt_PrintErrors r os = put (concat (map data_name (filter (bit (dt_GetError r)) [0..<5]))) os \<and>
    ft_PrintErrors f os = put (concat (map fs_name (filter (bit (ft_GetError f)) [0..<6]))) os"
proof
  show "dt_PrintErrors r os = put (concat (map data_name (filter (bit (dt_GetError r)) [0..<5]))) os"
    using assms(1) print_errors_loop_bits [of "dt_summary r" 5 dt_print 0 data_name os] data_print_bits
    by (simp add: dt_PrintErrors_def dt_GetError_def del: upt_rec_numeral)
  show "ft_PrintErrors f os = put (concat (map fs_name (filter (bit (ft_GetError f)) [0..<6]))) os"
    using assms(2) print_errors_loop_bits [of "ft_summary f" 6 ft_print 0 fs_name os] fs_print_bits
    by (simp add: ft_PrintErrors_def ft_GetError_def del: upt_rec_numeral)
qed

theorem PrintErrors_names_witness:
  "dt_PrintErrors (dt_SetError (kFileMissing OR kDataOther) DataTestResult) \<lparr>out_text = [], out_fail = False\<rparr>
     = \<lparr>out_text = ''file_missingother_error'', out_fail = False\<rparr>"
proof -
  have e: "dt_GetError (dt_SetError (kFileMissing OR kDataOther) DataTestResult) = 18"
    by (simp add: dt_GetError_def dt_SetError_def data_errors)
  have "filter (bit (18 :: u32)) [0..<5] = [1, 4]"
    by (simp add: upt_rec bit_iff_odd)
  then show ?thesis
    using PrintErrors_names [of "dt_SetError (kFileMissing OR kDataOther) DataTestResult"
        "FileSystemTestResult 0" "\<lparr>out_text = [], out_fail = False\<rparr>"]
    unfolding e by (simp add: put_def data_name_def FileSystemTestResult_def ft_GetError_def kClean_def)
qed

text \<open>An error the classes can hold: one enumerator.\<close>

definition data_error :: "u32 \<Rightarrow> bool" where
  "data_error e \<longleftrightarrow> e \<in> {kClean, kOldFilePersisted, kFileMissing, kFileDataCorrupted,
     kFileMetadataCorrupted, kDataOther}"

definition passed :: "single_test_info \<Rightarrow> bool" where
  "passed r \<longleftrightarrow> ft_GetError (fs_test r) = kClean \<and> dt_GetError (data_test r) = kClean"

definition passed_fixed :: "single_test_info \<Rightarrow> bool" where
  "passed_fixed r \<longleftrightarrow> ft_GetError (fs_test r) = kFixed \<and> dt_GetError (data_test r) = kClean"

definition count_of :: "(single_test_info \<Rightarrow> bool) \<Rightarrow> single_test_info list \<Rightarrow> u32" where
  "count_of P rs = word_of_nat (length (filter P rs))"

lemma count_of_snoc: "count_of P (rs @ [r]) = count_of P rs + (if P r then 1 else 0)"
  by (simp add: count_of_def)

lemma kFixed_not_clean [simp]: "kFixed \<noteq> kClean"
  by (simp add: fs_errors)

lemma data_errors_distinct [simp]:
  "kFileMissing \<noteq> kOldFilePersisted" "kFileDataCorrupted \<noteq> kOldFilePersisted"
  "kFileDataCorrupted \<noteq> kFileMissing" "kFileMetadataCorrupted \<noteq> kOldFilePersisted"
  "kFileMetadataCorrupted \<noteq> kFileMissing" "kFileMetadataCorrupted \<noteq> kFileDataCorrupted"
  "kDataOther \<noteq> kOldFilePersisted" "kDataOther \<noteq> kFileMissing" "kDataOther \<noteq> kFileDataCorrupted"
  "kDataOther \<noteq> kFileMetadataCorrupted" "kOldFilePersisted \<noteq> kClean" "kFileMissing \<noteq> kClean"
  "kFileDataCorrupted \<noteq> kClean" "kFileMetadataCorrupted \<noteq> kClean" "kDataOther \<noteq> kClean"
  "kClean \<noteq> kOldFilePersisted" "kClean \<noteq> kFileMissing" "kClean \<noteq> kFileDataCorrupted"
  "kClean \<noteq> kFileMetadataCorrupted" "kClean \<noteq> kDataOther"
  "kOldFilePersisted \<noteq> kFileMissing" "kOldFilePersisted \<noteq> kFileDataCorrupted"
  "kOldFilePersisted \<noteq> kFileMetadataCorrupted" "kOldFilePersisted \<noteq> kDataOther"
  "kFileMissing \<noteq> kFileDataCorrupted" "kFileMissing \<noteq> kFileMetadataCorrupted"
  "kFileMissing \<noteq> kDataOther" "kFileDataCorrupted \<noteq> kFileMetadataCorrupted"
  "kFileDataCorrupted \<noteq> kDataOther" "kFileMetadataCorrupted \<noteq> kDataOther"
  by (simp_all add: data_errors)

lemma count_results_counts:
  "fold count_result rs no_counts =
    \<lparr>num_failed = count_of (\<lambda>r. \<not> passed r \<and> \<not> passed_fixed r) rs,
     num_passed_fixed = count_of passed_fixed rs, num_passed = count_of passed rs,
     old_file_persisted = count_of (\<lambda>r. dt_GetError (data_test r) = kOldFilePersisted) rs,
     file_missing = count_of (\<lambda>r. dt_GetError (data_test r) = kFileMissing) rs,
     file_data_corrupted = count_of (\<lambda>r. dt_GetError (data_test r) = kFileDataCorrupted) rs,
     file_metadata_corrupted = count_of (\<lambda>r. dt_GetError (data_test r) = kFileMetadataCorrupted) rs,
     other_errors = count_of (\<lambda>r. dt_GetError (data_test r) = kDataOther) rs\<rparr>"
proof (induction rs rule: rev_induct)
  case Nil
  show ?case by (simp add: count_of_def no_counts_def)
next
  case (snoc r rs)
  then show ?case
    by (simp add: count_of_snoc)
      (auto simp: count_result_def Let_def passed_def [of r] passed_fixed_def [of r])
qed

text \<open>
  The suite counts every completed test as passed, passed after a fix or failed, and the
  failures by their data error; the three counts add up to the number of completed tests, and
  the counts by data error to the failures whose data check found an error.
\<close>

theorem counts_partition:
  assumes "\<forall>r\<in>set (completed s). data_error (dt_GetError (data_test r))"
  shows "num_failed (count_results s) + num_passed_fixed (count_results s) + num_passed (count_results s)
      = GetCompleted s \<and>
    num_passed (count_results s) = count_of passed (completed s) \<and>
    num_passed_fixed (count_results s) = count_of passed_fixed (completed s) \<and>
    old_file_persisted (count_results s) + file_missing (count_results s) +
      file_data_corrupted (count_results s) + file_metadata_corrupted (count_results s) +
      other_errors (count_results s) =
      count_of (\<lambda>r. dt_GetError (data_test r) \<noteq> kClean) (completed s)"
proof -
  have "count_of (\<lambda>r. \<not> passed r \<and> \<not> passed_fixed r) rs + count_of passed_fixed rs + count_of passed rs
      = word_of_nat (length rs)" for rs
  proof (induction rs rule: rev_induct)
    case (snoc r rs)
    have "\<not> (passed r \<and> passed_fixed r)" by (auto simp: passed_def passed_fixed_def)
    with snoc show ?case by (auto simp: count_of_snoc algebra_simps)
  qed (simp add: count_of_def)
  moreover have "count_of (\<lambda>r. dt_GetError (data_test r) = kOldFilePersisted) rs +
      count_of (\<lambda>r. dt_GetError (data_test r) = kFileMissing) rs +
      count_of (\<lambda>r. dt_GetError (data_test r) = kFileDataCorrupted) rs +
      count_of (\<lambda>r. dt_GetError (data_test r) = kFileMetadataCorrupted) rs +
      count_of (\<lambda>r. dt_GetError (data_test r) = kDataOther) rs =
      count_of (\<lambda>r. dt_GetError (data_test r) \<noteq> kClean) rs"
    if "\<forall>r\<in>set rs. data_error (dt_GetError (data_test r))" for rs
    using that
  proof (induction rs rule: rev_induct)
    case (snoc r rs)
    then have IH: "count_of (\<lambda>r. dt_GetError (data_test r) = kOldFilePersisted) rs +
      count_of (\<lambda>r. dt_GetError (data_test r) = kFileMissing) rs +
      count_of (\<lambda>r. dt_GetError (data_test r) = kFileDataCorrupted) rs +
      count_of (\<lambda>r. dt_GetError (data_test r) = kFileMetadataCorrupted) rs +
      count_of (\<lambda>r. dt_GetError (data_test r) = kDataOther) rs =
      count_of (\<lambda>r. dt_GetError (data_test r) \<noteq> kClean) rs" by simp
    have "data_error (dt_GetError (data_test r))" using snoc.prems by simp
    then show ?case
      unfolding data_error_def insert_iff empty_iff
      by (elim disjE) (simp_all add: count_of_snoc algebra_simps flip: IH)
  qed (simp add: count_of_def)
  ultimately show ?thesis
    using assms by (simp add: count_results_def count_results_counts GetCompleted_def)
qed

definition sample_suite :: test_suite_result where
  "sample_suite = AddCompletedTest
     ((SingleTestInfo 0)\<lparr>data_test := dt_SetError kFileMissing DataTestResult\<rparr>)
     (AddCompletedTest (SingleTestInfo 0) TestSuiteResult)"

theorem counts_partition_witness:
  "num_failed (count_results sample_suite) + num_passed_fixed (count_results sample_suite) +
    num_passed (count_results sample_suite) = 2"
proof -
  have "\<forall>r\<in>set (completed sample_suite). data_error (dt_GetError (data_test r))" "GetCompleted sample_suite = 2"
    by (simp_all add: sample_suite_def AddCompletedTest_def TestSuiteResult_def SingleTestInfo_def
        DataTestResult_def dt_SetError_def dt_GetError_def data_error_def GetCompleted_def)
  then show ?thesis using counts_partition [of sample_suite] by metis
qed

end
