(* ===== verification/Disk_Write_IO.thy ===== *)
theory Disk_Write_IO
  imports Disk_Write
begin

text \<open>
  The text form of an operation in a log file: \<open>disk_write::serialize\<close> and
  \<open>disk_write::deserialize\<close> of \<open>code/utils/utils.cpp\<close>, and \<open>Tester::log_profile_save\<close> and
  \<open>Tester::log_profile_load\<close> of \<open>code/harness/Tester.cpp\<close>, which write and read a whole log.

  An input stream is the characters still to be read and its \<open>failbit\<close> and \<open>eofbit\<close>.  The
  extraction operators are those of the C++ standard library: they skip white space, and read
  nothing and fail when the stream is not good.  Variables the code leaves uninitialised are
  parameters (\<open>junk\<close>).  \<open>None\<close> is an assertion that fails or a null pointer that is followed.
\<close>

section \<open>Characters and numbers\<close>

definition chr_byte :: "byte \<Rightarrow> char" where "chr_byte b = char_of (unat b)"
definition byte_chr :: "char \<Rightarrow> byte" where "byte_chr c = word_of_nat (of_char c)"

lemma byte_chr_byte [simp]: "byte_chr (chr_byte b) = b"
proof -
  have "unat b < 256" using unsigned_less [of b] by simp
  then show ?thesis by (simp add: byte_chr_def chr_byte_def)
qed

abbreviation newline :: char where "newline \<equiv> CHR 0x0A"

definition is_space :: "char \<Rightarrow> bool" where
  "is_space c \<longleftrightarrow> c \<in> set [CHR '' '', CHR 0x09, newline, CHR 0x0B, CHR 0x0C, CHR 0x0D]"

definition hex_digits :: string where "hex_digits = ''0123456789abcdef''"

definition upper_digits :: string where "upper_digits = ''0123456789ABCDEF''"

fun position :: "'a \<Rightarrow> 'a list \<Rightarrow> nat option" where
  "position x [] = None"
| "position x (y # ys) = (if x = y then Some 0 else map_option Suc (position x ys))"

definition hex_value :: "char \<Rightarrow> nat option" where
  "hex_value c =
     (case position c hex_digits of Some d \<Rightarrow> Some d | None \<Rightarrow> position c upper_digits)"

fun hex_number :: "nat \<Rightarrow> string \<Rightarrow> nat \<times> string" where
  "hex_number acc [] = (acc, [])"
| "hex_number acc (c # cs) =
     (case hex_value c of None \<Rightarrow> (acc, c # cs) | Some d \<Rightarrow> hex_number (16 * acc + d) cs)"

section \<open>Input streams\<close>

record istream =
  in_rest :: string
  in_fail :: bool
  in_eof :: bool

definition good :: "istream \<Rightarrow> bool" where
  "good s \<longleftrightarrow> \<not> in_fail s \<and> \<not> in_eof s"

definition open_stream :: "string \<Rightarrow> istream" where
  "open_stream t = \<lparr>in_rest = t, in_fail = False, in_eof = False\<rparr>"

text \<open>
  \<open>operator>>\<close> for an unsigned number below \<open>bound\<close> in base 16: white space, a sign, a prefix
  \<open>0x\<close>, digits.  The result is the value stored, if one is.
\<close>

definition skip_prefix :: "string \<Rightarrow> string" where
  "skip_prefix cs =
     (if take 2 cs = ''0x'' \<or> take 2 cs = ''0X'' then drop 2 cs else cs)"

definition num_get :: "nat \<Rightarrow> istream \<Rightarrow> nat option \<times> istream" where
  "num_get bound s =
     (if \<not> good s then (None, s\<lparr>in_fail := True\<rparr>)
      else
        (let cs = dropWhile is_space (in_rest s) in
         if cs = [] then (None, s\<lparr>in_rest := [], in_fail := True, in_eof := True\<rparr>)
         else
           (let neg = (hd cs = CHR ''-'');
                cs1 = skip_prefix (if hd cs \<in> {CHR ''+'', CHR ''-''} then tl cs else cs);
                (v, cs2) = hex_number 0 cs1;
                s' = s\<lparr>in_rest := cs2, in_eof := (cs2 = [])\<rparr>
            in if cs2 = cs1 then (Some 0, s'\<lparr>in_fail := True\<rparr>)
               else if v \<ge> bound then (Some (bound - 1), s'\<lparr>in_fail := True\<rparr>)
               else (Some (if neg then (bound - v) mod bound else v), s'))))"

definition get_char :: "istream \<Rightarrow> char option \<times> istream" where
  "get_char s =
     (if \<not> good s then (None, s\<lparr>in_fail := True\<rparr>)
      else
        (case in_rest s of
           [] \<Rightarrow> (None, s\<lparr>in_fail := True, in_eof := True\<rparr>)
         | c # cs \<Rightarrow> (Some c, s\<lparr>in_rest := cs\<rparr>)))"

definition read_chars :: "nat \<Rightarrow> istream \<Rightarrow> string \<times> istream" where
  "read_chars n s =
     (if \<not> good s then ([], s\<lparr>in_fail := True\<rparr>)
      else if length (in_rest s) < n
      then (in_rest s, s\<lparr>in_rest := [], in_fail := True, in_eof := True\<rparr>)
      else (take n (in_rest s), s\<lparr>in_rest := drop n (in_rest s)\<rparr>))"

section \<open>One operation\<close>

definition header_text :: "disk_write_op_meta \<Rightarrow> string" where
  "header_text m =
     hex_string (unat (bi_flags m)) @ '' '' @ hex_string (unat (bi_rw m)) @ '' '' @
     hex_string (unat (write_sector m)) @ '' '' @ hex_string (unat (meta_size m)) @ '' ''"

definition serialize :: "disk_write \<Rightarrow> string option" where
  "serialize dw =
     (let n = unat (meta_size (metadata dw));
          bytes =
            (if n = 0 then Some []
             else
               (case dw_data dw of
                  None \<Rightarrow> None
                | Some d \<Rightarrow> if n \<le> length d then Some (take n d) else None))
      in map_option (\<lambda>bs. header_text (metadata dw) @ map chr_byte bs @ [newline]) bytes)"

definition stored :: "('a::len) word \<Rightarrow> nat option \<Rightarrow> 'a word" where
  "stored old v = (case v of None \<Rightarrow> old | Some n \<Rightarrow> word_of_nat n)"

definition stored_char :: "char \<Rightarrow> char option \<Rightarrow> char" where
  "stored_char old c = (case c of None \<Rightarrow> old | Some c' \<Rightarrow> c')"

text \<open>
  \<open>junk\<close> is what \<open>meta\<close> holds at the start, \<open>jc\<close> what \<open>nl\<close> does, \<open>jd\<close> what the new buffer does.
\<close>

definition deserialize :: "disk_write_op_meta \<Rightarrow> char \<Rightarrow> (nat \<Rightarrow> byte) \<Rightarrow> istream
    \<Rightarrow> (disk_write \<times> istream) option" where
  "deserialize junk jc jd s =
     (let (v1, s1) = num_get (2 ^ 64) s;
          (v2, s2) = num_get (2 ^ 64) s1;
          (v3, s3) = num_get (2 ^ 64) s2;
          (v4, s4) = num_get (2 ^ 32) s3;
          meta = \<lparr>bi_flags = stored (bi_flags junk) v1, bi_rw = stored (bi_rw junk) v2,
                  write_sector = stored (write_sector junk) v3,
                  meta_size = stored (meta_size junk) v4\<rparr>;
          (c, s5) = get_char s4;
          nl = stored_char jc c
      in if nl \<noteq> CHR '' '' then None
         else
           (let n = unat (meta_size meta);
                (cs, s6) = read_chars n s5;
                data = map byte_chr cs @ map jd [length cs..<n];
                (c', s7) = get_char s6;
                nl' = stored_char nl c'
            in if nl' \<noteq> newline then None
               else map_option (\<lambda>dw. (dw, s7)) (make_disk_write meta (Some data))))"

section \<open>A log file\<close>

fun serialize_all :: "disk_write list \<Rightarrow> string option" where
  "serialize_all [] = Some []"
| "serialize_all (dw # dws) =
     Option.bind (serialize dw) (\<lambda>t. map_option (\<lambda>ts. t @ ts) (serialize_all dws))"

lemma length_hex_number: "length (snd (hex_number acc cs)) \<le> length cs"
proof (induction cs arbitrary: acc)
  case (Cons c cs)
  show ?case
  proof (cases "hex_value c")
    case (Some d)
    then show ?thesis using Cons.IH [of "16 * acc + d"] by simp
  qed simp
qed simp

lemma length_num_get: "length (in_rest (snd (num_get b s))) \<le> length (in_rest s)"
proof -
  define cs where "cs = dropWhile is_space (in_rest s)"
  define cs1 where "cs1 = skip_prefix (if hd cs \<in> {CHR ''+'', CHR ''-''} then tl cs else cs)"
  have "length cs1 \<le> length cs" by (auto simp: cs1_def skip_prefix_def)
  moreover have "length cs \<le> length (in_rest s)" by (simp add: cs_def length_dropWhile_le)
  moreover have "length (snd (hex_number 0 cs1)) \<le> length cs1" by (rule length_hex_number)
  ultimately have "length (snd (hex_number 0 cs1)) \<le> length (in_rest s)" by simp
  then show ?thesis
    unfolding num_get_def Let_def split_beta cs_def [symmetric] cs1_def [symmetric] by auto
qed

lemma get_char_some:
  "get_char s = (Some c, s') \<Longrightarrow> good s \<and> in_rest s = c # in_rest s' \<and> s' = s\<lparr>in_rest := in_rest s'\<rparr>"
  by (auto simp: get_char_def split: if_splits list.splits)

lemma length_get_char: "length (in_rest (snd (get_char s))) \<le> length (in_rest s)"
  by (auto simp: get_char_def split: list.split)

lemma length_read_chars: "length (in_rest (snd (read_chars n s))) \<le> length (in_rest s)"
  by (auto simp: read_chars_def)

text \<open>
  The loop of \<open>log_profile_load\<close>: while \<open>peek\<close> finds a character, read an operation.  \<open>peek\<close> at the
  end of the text sets \<open>eofbit\<close>.
\<close>

lemma deserialize_shorter:
  assumes "deserialize junk jc jd s = Some (dw, s')" "good s" "in_rest s \<noteq> []"
  shows "length (in_rest s') < length (in_rest s)"
proof -
  obtain v1 s1 where 1: "num_get (2 ^ 64) s = (v1, s1)" by fastforce
  obtain v2 s2 where 2: "num_get (2 ^ 64) s1 = (v2, s2)" by fastforce
  obtain v3 s3 where 3: "num_get (2 ^ 64) s2 = (v3, s3)" by fastforce
  obtain v4 s4 where 4: "num_get (2 ^ 32) s3 = (v4, s4)" by fastforce
  obtain c s5 where 5: "get_char s4 = (c, s5)" by fastforce
  define n where "n = unat (stored (meta_size junk) v4)"
  obtain cs s6 where 6: "read_chars n s5 = (cs, s6)" by fastforce
  obtain c' s7 where 7: "get_char s6 = (c', s7)" by fastforce
  have d: "stored_char (stored_char jc c) c' = newline" "stored_char jc c = CHR '' ''" "s' = s7"
    using assms(1) 1 2 3 4 5 6 7
    by (auto simp: deserialize_def n_def Let_def simp del: power_numeral split: if_splits)
  then obtain x where "c' = Some x" by (cases c') (auto simp: stored_char_def)
  then have "length (in_rest s7) < length (in_rest s6)" using get_char_some 7 by fastforce
  moreover have "length (in_rest s6) \<le> length (in_rest s)"
    using length_num_get [of "2 ^ 64" s] length_num_get [of "2 ^ 64" s1]
      length_num_get [of "2 ^ 64" s2] length_num_get [of "2 ^ 32" s3]
      length_get_char [of s4] length_read_chars [of n s5] 1 2 3 4 5 6
    by simp
  ultimately show ?thesis using d(3) by simp
qed

text \<open>The junk of the three variables is the same in every round: the same stack slots.\<close>

function load_loop :: "disk_write_op_meta \<Rightarrow> char \<Rightarrow> (nat \<Rightarrow> byte) \<Rightarrow> istream \<Rightarrow> disk_write list
    \<Rightarrow> (disk_write list \<times> istream) option" where
  "load_loop junk jc jd s log_data =
     (if \<not> good s then Some (log_data, s\<lparr>in_fail := True\<rparr>)
      else if in_rest s = [] then Some (log_data, s\<lparr>in_eof := True\<rparr>)
      else
        (case deserialize junk jc jd s of
           None \<Rightarrow> None
         | Some (dw, s') \<Rightarrow> load_loop junk jc jd s' (log_data @ [dw])))"
  by pat_completeness auto
termination
  by (relation "measure (\<lambda>(junk, jc, jd, s, log). length (in_rest s))")
    (auto dest: deserialize_shorter)

declare load_loop.simps [simp del]

text \<open>\<open>file\<close> is the text of the log file, \<open>None\<close> if it cannot be opened.\<close>

definition log_profile_load :: "disk_write_op_meta \<Rightarrow> char \<Rightarrow> (nat \<Rightarrow> byte) \<Rightarrow> string option
    \<Rightarrow> disk_write list \<Rightarrow> (bool \<times> disk_write list) option" where
  "log_profile_load junk jc jd file log_data =
     (let s = (case file of None \<Rightarrow> (open_stream [])\<lparr>in_fail := True\<rparr> | Some t \<Rightarrow> open_stream t)
      in map_option (\<lambda>(log, s'). (\<not> in_fail s', log)) (load_loop junk jc jd s log_data))"

text \<open>The file \<open>log_profile_save\<close> writes; it does not look at errors of the stream.\<close>

definition log_profile_save :: "disk_write list \<Rightarrow> string option" where
  "log_profile_save log_data = serialize_all log_data"

section \<open>Reading back what was written\<close>

lemma hex_value_digit: "d < 16 \<Longrightarrow> hex_value (digit_char d) = Some d"
proof -
  assume "d < 16"
  then have "d \<in> set [0..<16]" by simp
  moreover have "\<forall>d\<in>set [0..<16]. hex_value (digit_char d) = Some d"
    by (simp add: hex_value_def hex_digits_def digit_char_def upt_rec)
  ultimately show ?thesis by blast
qed

lemma digit_char_not: "d < 16 \<Longrightarrow> digit_char d \<noteq> CHR ''+'' \<and> digit_char d \<noteq> CHR ''-'' \<and>
    digit_char d \<noteq> CHR ''x'' \<and> digit_char d \<noteq> CHR ''X'' \<and> \<not> is_space (digit_char d)"
proof -
  assume "d < 16"
  then have "d \<in> set [0..<16]" by simp
  moreover have "\<forall>d\<in>set [0..<16]. digit_char d \<noteq> CHR ''+'' \<and> digit_char d \<noteq> CHR ''-'' \<and>
    digit_char d \<noteq> CHR ''x'' \<and> digit_char d \<noteq> CHR ''X'' \<and> \<not> is_space (digit_char d)"
    by (simp add: is_space_def digit_char_def upt_rec)
  ultimately show ?thesis by blast
qed

lemma hex_number_append:
  "\<forall>c\<in>set cs. \<exists>d. hex_value c = Some d \<Longrightarrow>
    hex_number acc (cs @ rest) = hex_number (fst (hex_number acc cs)) rest"
  by (induction cs arbitrary: acc) auto

lemma hex_string_digits: "c \<in> set (hex_string n) \<Longrightarrow> \<exists>d<16. c = digit_char d"
  unfolding hex_string_def
proof (induction "16 :: nat" n rule: base_string.induct)
  case (1 n)
  then show ?case
    by (cases "n < 16") (auto simp: base_string.simps [of 16 n] intro: exI [of _ "n mod 16"])
qed

lemma hex_string_nonempty [simp]: "hex_string n \<noteq> []"
  by (simp add: hex_string_def base_string.simps [of 16 n])

lemma hex_number_string: "fst (hex_number 0 (hex_string n)) = n"
  unfolding hex_string_def
proof (induction "16 :: nat" n rule: base_string.induct)
  case (1 n)
  show ?case
  proof (cases "n < 16")
    case True
    then show ?thesis by (simp add: base_string.simps [of 16 n] hex_value_digit)
  next
    case False
    have "\<forall>c\<in>set (base_string 16 (n div 16)). \<exists>d. hex_value c = Some d"
      using hex_string_digits hex_value_digit unfolding hex_string_def by blast
    then show ?thesis
      using False 1 by (simp add: base_string.simps [of 16 n] hex_number_append hex_value_digit)
  qed
qed

text \<open>Reading the number that was written, up to the space after it.\<close>

lemma num_get_hex:
  assumes "n < b" "good s" "in_rest s = pre @ hex_string n @ '' '' @ rest" "pre \<in> {[], '' ''}"
  shows "num_get b s = (Some n, s\<lparr>in_rest := '' '' @ rest\<rparr>)"
proof -
  define cs where "cs = hex_string n @ '' '' @ rest"
  obtain c t where h: "hex_string n = c # t" by (cases "hex_string n") auto
  have dig: "\<forall>c\<in>set (hex_string n). (\<exists>d. hex_value c = Some d) \<and> \<not> is_space c \<and>
      c \<noteq> CHR ''+'' \<and> c \<noteq> CHR ''-'' \<and> c \<noteq> CHR ''x'' \<and> c \<noteq> CHR ''X''"
    using hex_string_digits hex_value_digit digit_char_not by metis
  then have c: "\<not> is_space c" "c \<noteq> CHR ''+''" "c \<noteq> CHR ''-''" using h by auto
  have "is_space (CHR '' '')" by (simp add: is_space_def)
  then have drop: "dropWhile is_space (in_rest s) = cs"
    using assms(3,4) c(1) by (auto simp: cs_def h)
  have pre: "skip_prefix cs = cs"
    using dig by (cases t) (auto simp: skip_prefix_def cs_def h)
  have v: "hex_value (CHR '' '') = None" by (simp add: hex_value_def hex_digits_def upper_digits_def)
  then have num: "hex_number 0 cs = (n, '' '' @ rest)"
    using hex_number_append [of "hex_string n" 0 "'' '' @ rest"] dig hex_number_string [of n]
    by (simp add: cs_def)
  have "hd cs = c" "cs \<noteq> []" "cs \<noteq> '' '' @ rest" by (simp_all add: cs_def h)
  then show ?thesis
    using assms(1,2) drop pre num c(2,3)
    by (cases s) (auto simp: num_get_def Let_def good_def)
qed

lemma serialize_deserialize:
  assumes "dw_wf dw" "(dw_data dw = None) = (meta_size (metadata dw) = 0)" "serialize dw = Some t"
    "good s" "in_rest s = t @ rest"
  shows "deserialize junk jc jd s = Some (dw, s\<lparr>in_rest := rest\<rparr>)"
proof -
  let ?m = "metadata dw"
  define n where "n = unat (meta_size ?m)"
  obtain bs where bs: "t = header_text ?m @ map chr_byte bs @ [newline]" "length bs = n"
    "n > 0 \<Longrightarrow> dw_data dw = Some bs" "n = 0 \<Longrightarrow> dw_data dw = None"
  proof (cases "dw_data dw")
    case None
    then show thesis using that [of "[]"] assms(2,3) by (auto simp: serialize_def n_def)
  next
    case (Some d)
    then have "length d = n" "meta_size ?m \<noteq> 0" using assms(1,2) by (auto simp: dw_wf_def n_def)
    then show thesis
      using that [of d] assms(3) Some by (auto simp: serialize_def n_def unat_eq_0)
  qed
  have lt: "unat (bi_flags ?m) < 2 ^ 64" "unat (bi_rw ?m) < 2 ^ 64"
    "unat (write_sector ?m) < 2 ^ 64" "unat (meta_size ?m) < 2 ^ 32"
    using unsigned_less [of "bi_flags ?m"] unsigned_less [of "bi_rw ?m"]
      unsigned_less [of "write_sector ?m"] unsigned_less [of "meta_size ?m"] by simp_all
  define d where "d = map chr_byte bs @ newline # rest"
  define r3 where "r3 = '' '' @ hex_string n @ '' '' @ d"
  define r2 where "r2 = '' '' @ hex_string (unat (write_sector ?m)) @ r3"
  define r1 where "r1 = '' '' @ hex_string (unat (bi_rw ?m)) @ r2"
  define st where "st = (\<lambda>x. s\<lparr>in_rest := x\<rparr>)"
  have st: "good (st x)" "in_rest (st x) = x" "(st x)\<lparr>in_rest := y\<rparr> = st y" for x y
    using assms(4) by (simp_all add: good_def st_def)
  have s: "in_rest s = [] @ hex_string (unat (bi_flags ?m)) @ '' '' @ tl r1"
    by (simp add: assms(5) bs(1) header_text_def n_def r1_def r2_def r3_def d_def)
  have 1: "num_get (2 ^ 64) s = (Some (unat (bi_flags ?m)), st r1)"
    using num_get_hex [OF lt(1) assms(4) s] by (simp add: st_def r1_def)
  have 2: "num_get (2 ^ 64) (st r1) = (Some (unat (bi_rw ?m)), st r2)"
    using num_get_hex [OF lt(2) st(1), of r1 "'' ''" "tl r2"] by (simp add: st r1_def r2_def)
  have 3: "num_get (2 ^ 64) (st r2) = (Some (unat (write_sector ?m)), st r3)"
    using num_get_hex [OF lt(3) st(1), of r2 "'' ''" "tl r3"] by (simp add: st r2_def r3_def)
  have 4: "num_get (2 ^ 32) (st r3) = (Some n, st ('' '' @ d))"
    using num_get_hex [OF lt(4) st(1), of r3 "'' ''" d] by (simp add: st n_def r3_def)
  have 5: "get_char (st ('' '' @ d)) = (Some (CHR '' ''), st d)"
    by (simp add: get_char_def st)
  have 6: "read_chars n (st d) = (map chr_byte bs, st (newline # rest))"
    using bs(2) by (simp add: read_chars_def st d_def)
  have 7: "get_char (st (newline # rest)) = (Some newline, st rest)"
    by (simp add: get_char_def st)
  have meta: "\<lparr>bi_flags = word_of_nat (unat (bi_flags ?m)), bi_rw = word_of_nat (unat (bi_rw ?m)),
      write_sector = word_of_nat (unat (write_sector ?m)), meta_size = word_of_nat n\<rparr> = ?m"
    by (simp add: n_def)
  have nz: "meta_size ?m = 0 \<longleftrightarrow> n = 0" by (simp add: n_def unat_eq_0)
  have "make_disk_write ?m (Some bs) = Some dw"
    using bs(2-4) nz by (cases "n = 0") (auto simp: make_disk_write_def copy_data_def word_gt_0 n_def [symmetric])
  moreover have "map (byte_chr \<circ> chr_byte) bs @ map jd [length (map chr_byte bs)..<n] = bs"
    using bs(2) by (simp add: comp_def)
  ultimately show ?thesis
    unfolding deserialize_def 1 Let_def prod.case 2 3 4 5 stored_def stored_char_def option.case
      meta n_def [symmetric] 6 7
    by (simp add: st_def)
qed

text \<open>An operation as the log holds it: a buffer of the announced size, none for size 0.\<close>

definition log_op :: "disk_write \<Rightarrow> bool" where
  "log_op dw \<longleftrightarrow> dw_wf dw \<and> (dw_data dw = None) = (meta_size (metadata dw) = 0)"

lemma serialize_log_op: "log_op dw \<Longrightarrow> serialize dw \<noteq> None"
  by (auto simp: log_op_def serialize_def dw_wf_def unat_eq_0 Let_def split: option.splits)

lemma serialize_nonempty: "serialize dw = Some t \<Longrightarrow> t \<noteq> []"
  by (auto simp: serialize_def Let_def)

lemma load_loop_all:
  "\<forall>dw\<in>set dws. log_op dw \<Longrightarrow> serialize_all dws = Some t \<Longrightarrow> good s \<Longrightarrow> in_rest s = t \<Longrightarrow>
    load_loop junk jc jd s log = Some (log @ dws, s\<lparr>in_rest := [], in_eof := True\<rparr>)"
proof (induction dws arbitrary: t s log)
  case Nil
  then have "s\<lparr>in_eof := True\<rparr> = s\<lparr>in_rest := [], in_eof := True\<rparr>" by (cases s) simp
  with Nil show ?case by (simp add: load_loop.simps)
next
  case (Cons dw dws)
  then obtain t1 t2 where t: "serialize dw = Some t1" "serialize_all dws = Some t2" "t = t1 @ t2"
    by (auto simp: bind_eq_Some_conv)
  have "deserialize junk jc jd s = Some (dw, s\<lparr>in_rest := t2\<rparr>)"
    using Cons.prems t by (intro serialize_deserialize) (auto simp: log_op_def)
  moreover have "good (s\<lparr>in_rest := t2\<rparr>)" using Cons.prems(3) by (simp add: good_def)
  moreover have "in_rest s \<noteq> []" using Cons.prems(4) t serialize_nonempty by auto
  ultimately show ?case
    using Cons.IH [of t2 "s\<lparr>in_rest := t2\<rparr>" "log @ [dw]"] Cons.prems t
    by (simp add: load_loop.simps [of _ _ _ s])
qed

text \<open>
  C25: a log of operations as the wrapper hands them out can be saved, and loading the file again
  gives exactly these operations, appended to what the tester already held.
\<close>

theorem log_save_load:
  assumes "\<forall>dw\<in>set dws. log_op dw"
  shows "\<exists>t. log_profile_save dws = Some t \<and>
    log_profile_load junk jc jd (Some t) log_data = Some (True, log_data @ dws)"
proof -
  have "\<exists>t. serialize_all dws = Some t"
    using assms serialize_log_op by (induction dws) (auto simp: bind_eq_Some_conv)
  then obtain t where t: "serialize_all dws = Some t" by blast
  have g: "good (open_stream t)" "in_rest (open_stream t) = t" by (simp_all add: good_def open_stream_def)
  have "load_loop junk jc jd (open_stream t) log_data =
      Some (log_data @ dws, (open_stream t)\<lparr>in_rest := [], in_eof := True\<rparr>)"
    by (rule load_loop_all [OF assms t g])
  then show ?thesis
    using t by (simp add: log_profile_save_def log_profile_load_def open_stream_def)
qed

theorem log_save_load_witness:
  "\<exists>t. log_profile_save [sample_op 1 8 [10, 32]] = Some t \<and>
    log_profile_load (metadata (sample_op 0 0 [])) (CHR ''a'') (\<lambda>_. 0) (Some t) [] =
      Some (True, [sample_op 1 8 [10, 32]])"
  using log_save_load [of "[sample_op 1 8 [10, 32]]" "metadata (sample_op 0 0 [])" "CHR ''a''" "\<lambda>_. 0" "[]"]
  by (simp add: log_op_def dw_wf_def)

text \<open>
  A log file that cannot be opened is an error and leaves the log alone; a text that is no
  operation fails the assertion on the separator.
\<close>

theorem log_load_errors:
  assumes "jc \<noteq> CHR '' ''"
  shows "log_profile_load junk jc jd None log_data = Some (False, log_data) \<and>
    log_profile_load junk jc jd (Some [newline]) log_data = None"
proof
  show "log_profile_load junk jc jd None log_data = Some (False, log_data)"
    by (simp add: log_profile_load_def open_stream_def load_loop.simps good_def)
  have "is_space newline" by (simp add: is_space_def)
  then show "log_profile_load junk jc jd (Some [newline]) log_data = None"
    using assms
    by (simp add: log_profile_load_def open_stream_def load_loop.simps good_def deserialize_def num_get_def
        get_char_def stored_char_def Let_def)
qed

theorem log_load_errors_witness:
  "log_profile_load (metadata (sample_op 0 0 [])) (CHR ''a'') (\<lambda>_. 0) (Some [newline]) [] = None"
  using log_load_errors [of "CHR ''a''"] by simp

end
