(* ===== verification/Tester.thy ===== *)
theory Tester
  imports Disk_Wrapper_Log Cow_Brd Permuter Results Disk_Write_IO "HOL-Library.Monad_Syntax"
begin

text \<open>
  \<open>code/harness/Tester.cpp\<close>: the harness that sets up the devices, fetches the log of the wrapper
  and checks crash states.

  The operating system is the argument \<open>OS\<close>: one function per system call the code uses, over the
  state \<open>'w\<close> of the world.  A call returns what the call returns; negative is an error.  Pointers
  to buffers are byte lists, with \<open>None\<close> for \<open>NULL\<close>.  A loop over system calls need not end: it is
  a partial function, and \<open>None\<close> says that it does not, or that the kernel or the program faults.
  The timing statistics are added in \<open>Tester_Timing\<close>; the progress messages are not modelled.
\<close>

section \<open>The operating system\<close>

record 'w os =
  os_system :: "string \<Rightarrow> 'w \<Rightarrow> int \<times> 'w"
  os_open :: "string \<Rightarrow> string \<Rightarrow> 'w \<Rightarrow> int \<times> 'w"
  os_close :: "int \<Rightarrow> 'w \<Rightarrow> 'w"
  os_mount :: "string \<Rightarrow> string \<Rightarrow> string \<Rightarrow> string option \<Rightarrow> 'w \<Rightarrow> int \<times> 'w"
  os_umount :: "string \<Rightarrow> 'w \<Rightarrow> int \<times> 'w"
  os_ioctl :: "int \<Rightarrow> u32 \<Rightarrow> 'w \<Rightarrow> int \<times> 'w"
  os_rereadpt :: "int \<Rightarrow> 'w \<Rightarrow> int \<times> bool \<times> 'w"
  os_hwm :: "int \<Rightarrow> u32 \<Rightarrow> 'w \<Rightarrow> (wrapper_errno option \<times> user_mem \<times> 'w) option"
  os_lseek :: "int \<Rightarrow> int \<Rightarrow> 'w \<Rightarrow> int \<times> 'w"
  os_write :: "int \<Rightarrow> byte list option \<Rightarrow> nat \<Rightarrow> 'w \<Rightarrow> int \<times> 'w"
  os_read :: "int \<Rightarrow> nat \<Rightarrow> 'w \<Rightarrow> int \<times> byte list \<times> 'w"
  os_sync :: "'w \<Rightarrow> 'w"

section \<open>Return codes, paths and commands\<close>

definition SUCCESS :: int where "SUCCESS = 0"
definition DRIVE_CLONE_ERR :: int where "DRIVE_CLONE_ERR = - 1"
definition DRIVE_CLONE_RESTORE_ERR :: int where "DRIVE_CLONE_RESTORE_ERR = - 2"
definition TEST_TEST_ERR :: int where "TEST_TEST_ERR = - 4"
definition LOG_CLONE_ERR :: int where "LOG_CLONE_ERR = - 5"
definition TEST_CASE_FILE_ERR :: int where "TEST_CASE_FILE_ERR = - 11"
definition MNT_BAD_DEV_ERR :: int where "MNT_BAD_DEV_ERR = - 12"
definition MNT_MNT_ERR :: int where "MNT_MNT_ERR = - 13"
definition MNT_UMNT_ERR :: int where "MNT_UMNT_ERR = - 14"
definition FMT_FMT_ERR :: int where "FMT_FMT_ERR = - 15"
definition WRAPPER_INSERT_ERR :: int where "WRAPPER_INSERT_ERR = - 16"
definition WRAPPER_REMOVE_ERR :: int where "WRAPPER_REMOVE_ERR = - 17"
definition WRAPPER_OPEN_DEV_ERR :: int where "WRAPPER_OPEN_DEV_ERR = - 18"
definition WRAPPER_DATA_ERR :: int where "WRAPPER_DATA_ERR = - 19"
definition WRAPPER_MEM_ERR :: int where "WRAPPER_MEM_ERR = - 20"
definition CLEAR_CACHE_ERR :: int where "CLEAR_CACHE_ERR = - 21"
definition PART_PART_ERR :: int where "PART_PART_ERR = - 22"

lemmas codes = SUCCESS_def DRIVE_CLONE_ERR_def DRIVE_CLONE_RESTORE_ERR_def TEST_TEST_ERR_def
  LOG_CLONE_ERR_def TEST_CASE_FILE_ERR_def MNT_BAD_DEV_ERR_def MNT_MNT_ERR_def MNT_UMNT_ERR_def
  FMT_FMT_ERR_def WRAPPER_INSERT_ERR_def WRAPPER_REMOVE_ERR_def WRAPPER_OPEN_DEV_ERR_def
  WRAPPER_DATA_ERR_def WRAPPER_MEM_ERR_def CLEAR_CACHE_ERR_def PART_PART_ERR_def

definition DIRTY_EXPIRE_TIME_PATH :: string where
  "DIRTY_EXPIRE_TIME_PATH = ''/proc/sys/vm/dirty_expire_centisecs''"
definition DROP_CACHES_PATH :: string where "DROP_CACHES_PATH = ''/proc/sys/vm/drop_caches''"
definition FULL_WRAPPER_PATH :: string where "FULL_WRAPPER_PATH = ''/dev/hwm''"
definition SILENT :: string where "SILENT = '' > /dev/null 2>&1''"
definition MNT_MNT_POINT :: string where "MNT_MNT_POINT = ''/mnt/snapshot''"
definition SNAPSHOT_PATH :: string where "SNAPSHOT_PATH = ''/dev/cow_ram_snapshot1_0''"
definition COW_BRD_PATH :: string where "COW_BRD_PATH = ''/dev/cow_ram0''"
definition DIRTY_EXPIRE_TIME_SIZE :: nat where "DIRTY_EXPIRE_TIME_SIZE = 10"
definition SECTOR_SIZE :: u64 where "SECTOR_SIZE = 512"

definition nl_lines :: "string list \<Rightarrow> string" where
  "nl_lines ls = concat (map (\<lambda>l. l @ [newline]) ls)"

abbreviation PART_PART_DRIVE :: string where "PART_PART_DRIVE \<equiv> ''fdisk ''"
abbreviation PART_DEL_PART_DRIVE :: string where "PART_DEL_PART_DRIVE \<equiv> ''fdisk ''"
abbreviation FMT_FMT_DRIVE :: string where "FMT_FMT_DRIVE \<equiv> ''mkfs -t ''"
abbreviation MNT_WRAPPER_DEV_PATH :: string where "MNT_WRAPPER_DEV_PATH \<equiv> FULL_WRAPPER_PATH"
abbreviation WRAPPER_INSMOD2 :: string where "WRAPPER_INSMOD2 \<equiv> '' flags_device_path=''"
abbreviation COW_BRD_INSMOD2 :: string where "COW_BRD_INSMOD2 \<equiv> '' num_snapshots=''"
abbreviation COW_BRD_INSMOD3 :: string where "COW_BRD_INSMOD3 \<equiv> '' disk_size=''"
abbreviation NUM_DISKS :: string where "NUM_DISKS \<equiv> ''1''"
abbreviation NUM_SNAPSHOTS :: string where "NUM_SNAPSHOTS \<equiv> ''1''"

definition PART_PART_DRIVE_2 :: string where
  "PART_PART_DRIVE_2 = nl_lines ['' << EOF'', ''o'', ''n'', ''p'', ''1'', '''', '''', ''w'', ''EOF'']"
definition PART_DEL_PART_DRIVE_2 :: string where
  "PART_DEL_PART_DRIVE_2 = nl_lines ['' << EOF'', ''o'', ''w'', ''EOF'']"
definition WRAPPER_INSMOD :: string where
  "WRAPPER_INSMOD = ''insmod ../build/disk_wrapper.ko target_device_path=''"
definition WRAPPER_RMMOD :: string where "WRAPPER_RMMOD = ''rmmod ../build/disk_wrapper.ko''"
definition COW_BRD_INSMOD :: string where
  "COW_BRD_INSMOD = ''insmod ../build/cow_brd.ko num_disks=''"
definition COW_BRD_RMMOD :: string where "COW_BRD_RMMOD = ''rmmod ../build/cow_brd.ko''"
definition TEST_CASE_FSCK :: string where "TEST_CASE_FSCK = ''fsck -T -t ''"

section \<open>The state of the harness\<close>

text \<open>\<open>device_size\<close> is 64 bits wide, file descriptors are \<open>-1\<close> when closed.\<close>

record tester =
  verbose :: bool
  device_size :: u64
  fs_type :: string
  device_raw :: string
  device_mount :: string
  flags_device :: string
  dirty_expire_time :: "byte list"
  wrapper_inserted :: bool
  cow_brd_inserted :: bool
  cow_brd_fd :: int
  disk_mounted :: bool
  ioctl_fd :: int
  log_data :: "disk_write list"
  test_results :: "test_suite_result list"

definition Tester :: "u32 \<Rightarrow> bool \<Rightarrow> byte list \<Rightarrow> tester" where
  "Tester dev_size verbosity junk =
     \<lparr>verbose = verbosity, device_size = ucast dev_size, fs_type = [], device_raw = [],
      device_mount = [], flags_device = [], dirty_expire_time = junk, wrapper_inserted = False,
      cow_brd_inserted = False, cow_brd_fd = - 1, disk_mounted = False, ioctl_fd = - 1,
      log_data = [], test_results = []\<rparr>"

definition set_fs_type :: "string \<Rightarrow> tester \<Rightarrow> tester" where
  "set_fs_type type T = T\<lparr>fs_type := type\<rparr>"

definition set_device :: "string \<Rightarrow> tester \<Rightarrow> tester" where
  "set_device device_path T = T\<lparr>device_raw := device_path, device_mount := device_path\<rparr>"

definition set_flag_device :: "string \<Rightarrow> tester \<Rightarrow> tester" where
  "set_flag_device device_path T = T\<lparr>flags_device := device_path\<rparr>"

section \<open>Snapshots\<close>

definition clone_device :: "'w os \<Rightarrow> tester \<Rightarrow> 'w \<Rightarrow> int \<times> 'w" where
  "clone_device OS T w =
     (let (res, w1) = os_ioctl OS (cow_brd_fd T) COW_BRD_SNAPSHOT w in
      if res < 0 then (DRIVE_CLONE_ERR, w1) else (SUCCESS, w1))"

text \<open>The loop that rereads the partition table goes on while \<open>errno\<close> is \<open>EBUSY\<close>.\<close>

partial_function (option) reread_loop :: "'w os \<Rightarrow> int \<Rightarrow> 'w \<Rightarrow> 'w option" where
  "reread_loop OS fd w =
     (case os_rereadpt OS fd w of (res, busy, w1) \<Rightarrow> if busy then reread_loop OS fd w1 else Some w1)"

definition clone_device_restore :: "'w os \<Rightarrow> int \<Rightarrow> bool \<Rightarrow> 'w \<Rightarrow> (int \<times> 'w) option" where
  "clone_device_restore OS snapshot_fd reread w =
     (let (res, w1) = os_ioctl OS snapshot_fd COW_BRD_RESTORE_SNAPSHOT w in
      if res < 0 then Some (DRIVE_CLONE_RESTORE_ERR, w1)
      else if reread then map_option (\<lambda>w2. (SUCCESS, w2)) (reread_loop OS snapshot_fd w1)
      else Some (SUCCESS, w1))"

section \<open>Mounting\<close>

definition mount_device :: "'w os \<Rightarrow> string \<Rightarrow> string option \<Rightarrow> tester \<Rightarrow> 'w \<Rightarrow> int \<times> tester \<times> 'w" where
  "mount_device OS dev opts T w =
     (let (res, w1) = os_mount OS dev MNT_MNT_POINT (fs_type T) opts w in
      if res < 0 then (MNT_MNT_ERR, T\<lparr>disk_mounted := False\<rparr>, w1)
      else (SUCCESS, T\<lparr>disk_mounted := True\<rparr>, w1))"

definition mount_device_raw :: "'w os \<Rightarrow> string option \<Rightarrow> tester \<Rightarrow> 'w \<Rightarrow> int \<times> tester \<times> 'w" where
  "mount_device_raw OS opts T w =
     (if device_mount T = [] then (MNT_BAD_DEV_ERR, T, w)
      else mount_device OS (device_mount T) opts T w)"

definition mount_wrapper_device :: "'w os \<Rightarrow> string option \<Rightarrow> tester \<Rightarrow> 'w \<Rightarrow> int \<times> tester \<times> 'w" where
  "mount_wrapper_device OS opts T w = mount_device OS MNT_WRAPPER_DEV_PATH opts T w"

definition umount_device :: "'w os \<Rightarrow> tester \<Rightarrow> 'w \<Rightarrow> int \<times> tester \<times> 'w" where
  "umount_device OS T w =
     (if disk_mounted T then
        (let (res, w1) = os_umount OS MNT_MNT_POINT w in
         if res < 0 then (MNT_UMNT_ERR, T\<lparr>disk_mounted := True\<rparr>, w1)
         else (SUCCESS, T\<lparr>disk_mounted := False\<rparr>, w1))
      else (SUCCESS, T\<lparr>disk_mounted := False\<rparr>, w))"

section \<open>Kernel modules\<close>

definition insmod_command :: "tester \<Rightarrow> string" where
  "insmod_command T =
     COW_BRD_INSMOD @ NUM_DISKS @ COW_BRD_INSMOD2 @ NUM_SNAPSHOTS @ COW_BRD_INSMOD3 @
     dec_string (unat (device_size T)) @ (if \<not> verbose T then SILENT else [])"

definition insert_cow_brd :: "'w os \<Rightarrow> tester \<Rightarrow> 'w \<Rightarrow> int \<times> tester \<times> 'w" where
  "insert_cow_brd OS T w =
     (let (ins, w1) = (if cow_brd_fd T < 0 then os_system OS (insmod_command T) w else (0, w)) in
      if cow_brd_fd T < 0 \<and> ins \<noteq> 0 then (WRAPPER_INSERT_ERR, T\<lparr>cow_brd_fd := - 1\<rparr>, w1)
      else
        (let (fd, w2) = os_open OS COW_BRD_PATH ''r'' w1;
             T1 = T\<lparr>cow_brd_inserted := True, cow_brd_fd := fd\<rparr>
         in if fd < 0 then
              (let (rm, w3) = os_system OS COW_BRD_RMMOD w2 in
               if rm \<noteq> 0
               then (WRAPPER_REMOVE_ERR, T1\<lparr>cow_brd_fd := - 1, cow_brd_inserted := False\<rparr>, w3)
               else (SUCCESS, T1, w3))
            else (SUCCESS, T1, w2)))"

definition remove_cow_brd :: "'w os \<Rightarrow> tester \<Rightarrow> 'w \<Rightarrow> int \<times> tester \<times> 'w" where
  "remove_cow_brd OS T w =
     (if cow_brd_inserted T then
        (let (T1, w1) =
           (if cow_brd_fd T \<noteq> - 1
            then (T\<lparr>cow_brd_fd := - 1, cow_brd_inserted := False\<rparr>, os_close OS (cow_brd_fd T) w)
            else (T, w));
             (rm, w2) = os_system OS COW_BRD_RMMOD w1
         in if rm \<noteq> 0 then (WRAPPER_REMOVE_ERR, T1\<lparr>cow_brd_inserted := True\<rparr>, w2)
            else (SUCCESS, T1, w2))
      else (SUCCESS, T, w))"

definition insert_wrapper :: "'w os \<Rightarrow> tester \<Rightarrow> 'w \<Rightarrow> int \<times> tester \<times> 'w" where
  "insert_wrapper OS T w =
     (if \<not> wrapper_inserted T then
        (let command = WRAPPER_INSMOD @ SNAPSHOT_PATH @ WRAPPER_INSMOD2 @ flags_device T @
               (if \<not> verbose T then SILENT else []);
             (res, w1) = os_system OS command w
         in if res \<noteq> 0 then (WRAPPER_INSERT_ERR, T\<lparr>wrapper_inserted := False\<rparr>, w1)
            else (SUCCESS, T\<lparr>wrapper_inserted := True\<rparr>, w1))
      else (SUCCESS, T\<lparr>wrapper_inserted := True\<rparr>, w))"

definition remove_wrapper :: "'w os \<Rightarrow> tester \<Rightarrow> 'w \<Rightarrow> int \<times> tester \<times> 'w" where
  "remove_wrapper OS T w =
     (if wrapper_inserted T then
        (let (res, w1) = os_system OS WRAPPER_RMMOD w in
         if res \<noteq> 0 then (WRAPPER_REMOVE_ERR, T\<lparr>wrapper_inserted := True\<rparr>, w1)
         else (SUCCESS, T\<lparr>wrapper_inserted := False\<rparr>, w1))
      else (SUCCESS, T\<lparr>wrapper_inserted := False\<rparr>, w))"

section \<open>The log of the wrapper\<close>

definition get_wrapper_ioctl :: "'w os \<Rightarrow> tester \<Rightarrow> 'w \<Rightarrow> int \<times> tester \<times> 'w" where
  "get_wrapper_ioctl OS T w =
     (let (fd, w1) = os_open OS FULL_WRAPPER_PATH ''r'' w in
      if fd = - 1 then (WRAPPER_OPEN_DEV_ERR, T\<lparr>ioctl_fd := fd\<rparr>, w1)
      else (SUCCESS, T\<lparr>ioctl_fd := fd\<rparr>, w1))"

definition put_wrapper_ioctl :: "'w os \<Rightarrow> tester \<Rightarrow> 'w \<Rightarrow> tester \<times> 'w" where
  "put_wrapper_ioctl OS T w =
     (if ioctl_fd T \<noteq> - 1 then (T\<lparr>ioctl_fd := - 1\<rparr>, os_close OS (ioctl_fd T) w) else (T, w))"

definition hwm_command :: "'w os \<Rightarrow> u32 \<Rightarrow> tester \<Rightarrow> 'w \<Rightarrow> 'w option" where
  "hwm_command OS cmd T w =
     (if ioctl_fd T \<noteq> - 1
      then map_option (\<lambda>(_, _, w1). w1) (os_hwm OS (ioctl_fd T) cmd w) else Some w)"

definition begin_wrapper_logging :: "'w os \<Rightarrow> tester \<Rightarrow> 'w \<Rightarrow> 'w option" where
  "begin_wrapper_logging OS T w = hwm_command OS HWM_LOG_ON T w"

definition end_wrapper_logging :: "'w os \<Rightarrow> tester \<Rightarrow> 'w \<Rightarrow> 'w option" where
  "end_wrapper_logging OS T w = hwm_command OS HWM_LOG_OFF T w"

definition clear_wrapper_log :: "'w os \<Rightarrow> tester \<Rightarrow> 'w \<Rightarrow> 'w option" where
  "clear_wrapper_log OS T w = hwm_command OS HWM_CLR_LOG T w"

text \<open>
  The loop of \<open>get_wrapper_log\<close>, over the ioctls of one descriptor.  \<open>meta\<close> and the new buffer are
  not initialised: an error the code does not test for leaves \<open>jm\<close> or \<open>jd\<close> in them.
\<close>

definition meta_or :: "disk_write_op_meta \<Rightarrow> user_mem \<Rightarrow> disk_write_op_meta" where
  "meta_or jm m = (case m of User_meta x \<Rightarrow> x | _ \<Rightarrow> jm)"

definition data_or :: "(nat \<Rightarrow> byte) \<Rightarrow> nat \<Rightarrow> user_mem \<Rightarrow> byte list" where
  "data_or jd n m = (case m of User_data x \<Rightarrow> x @ map jd [length x..<n] | _ \<Rightarrow> map jd [0..<n])"

partial_function (option) get_log_loop ::
    "(u32 \<Rightarrow> 's \<Rightarrow> (wrapper_errno option \<times> user_mem \<times> 's) option) \<Rightarrow> disk_write_op_meta
     \<Rightarrow> (nat \<Rightarrow> byte) \<Rightarrow> disk_write list \<Rightarrow> 's \<Rightarrow> (int \<times> disk_write list \<times> 's) option" where
  "get_log_loop ioctl jm jd log s =
     Option.bind (ioctl HWM_GET_LOG_META s) (\<lambda>(e, m, s1).
       if e = Some W_ENODATA then Some (SUCCESS, log, s1)
       else if e = Some W_EFAULT then Some (WRAPPER_DATA_ERR, [], s1)
       else Option.bind (ioctl HWM_GET_LOG_DATA s1) (\<lambda>(e, d, s2).
         if e = Some W_ENODATA then Some (SUCCESS, log, s2)
         else if e = Some W_EFAULT then Some (WRAPPER_MEM_ERR, [], s2)
         else Option.bind
           (make_disk_write (meta_or jm m) (Some (data_or jd (unat (meta_size (meta_or jm m))) d)))
           (\<lambda>dw. Option.bind (ioctl HWM_NEXT_ENT s2) (\<lambda>(e, x, s3).
              if e = None then get_log_loop ioctl jm jd (log @ [dw]) s3
              else if e = Some W_ENODATA then Some (SUCCESS, log @ [dw], s3)
              else Some (SUCCESS, [], s3)))))"

definition get_wrapper_log :: "'w os \<Rightarrow> disk_write_op_meta \<Rightarrow> (nat \<Rightarrow> byte) \<Rightarrow> tester \<Rightarrow> 'w
    \<Rightarrow> (int \<times> tester \<times> 'w) option" where
  "get_wrapper_log OS jm jd T w =
     (if ioctl_fd T \<noteq> - 1
      then map_option (\<lambda>(r, log, w1). (r, T\<lparr>log_data := log\<rparr>, w1))
             (get_log_loop (os_hwm OS (ioctl_fd T)) jm jd (log_data T) w)
      else Some (SUCCESS, T, w))"

section \<open>The dirty expire time\<close>

text \<open>
  \<open>dirty_expire_time\<close> is a buffer of 10 bytes; a string in it ends at its first zero byte.
  \<open>read\<close> writes into the buffer what it returns.
\<close>

definition put_bytes :: "byte list \<Rightarrow> nat \<Rightarrow> byte list \<Rightarrow> byte list" where
  "put_bytes bs off buf = take off buf @ bs @ drop (off + length bs) buf"

definition c_string :: "byte list \<Rightarrow> byte list" where
  "c_string buf = takeWhile (\<lambda>b. b \<noteq> 0) buf"

partial_function (option) read_expire_loop :: "'w os \<Rightarrow> int \<Rightarrow> nat \<Rightarrow> byte list \<Rightarrow> 'w
    \<Rightarrow> (bool \<times> nat \<times> byte list \<times> 'w) option" where
  "read_expire_loop OS fd bytes_read buf w =
     (case os_read OS fd (DIRTY_EXPIRE_TIME_SIZE - 1 - bytes_read) w of (res, bs, w1) \<Rightarrow>
        if res = 0 then Some (True, bytes_read, buf, w1)
        else if res < 0 then Some (False, bytes_read, buf, w1)
        else if bytes_read + nat res < DIRTY_EXPIRE_TIME_SIZE - 1
        then read_expire_loop OS fd (bytes_read + nat res) (put_bytes bs bytes_read buf) w1
        else Some (True, bytes_read + nat res, put_bytes bs bytes_read buf, w1))"

definition read_dirty_expire_time :: "'w os \<Rightarrow> int \<Rightarrow> tester \<Rightarrow> 'w \<Rightarrow> (bool \<times> tester \<times> 'w) option" where
  "read_dirty_expire_time OS fd T w =
     map_option
       (\<lambda>(ok, n, buf, w1).
          (ok, T\<lparr>dirty_expire_time := (if ok then buf[n := 0] else buf)\<rparr>, w1))
       (read_expire_loop OS fd 0 (dirty_expire_time T) w)"

text \<open>A loop that writes \<open>size\<close> bytes: the buffer advances by what each call wrote.\<close>

partial_function (option) write_all_loop :: "'w os \<Rightarrow> int \<Rightarrow> byte list option \<Rightarrow> nat \<Rightarrow> nat \<Rightarrow> 'w
    \<Rightarrow> (bool \<times> 'w) option" where
  "write_all_loop OS fd data nbytes bytes_written w =
     (case os_write OS fd (map_option (drop bytes_written) data) (nbytes - bytes_written) w of (res, w1) \<Rightarrow>
        if res < 0 then Some (False, w1)
        else if bytes_written + nat res < nbytes
        then write_all_loop OS fd data nbytes (bytes_written + nat res) w1
        else Some (True, w1))"

definition write_dirty_expire_time :: "'w os \<Rightarrow> int \<Rightarrow> byte list \<Rightarrow> 'w \<Rightarrow> (bool \<times> 'w) option" where
  "write_dirty_expire_time OS fd time w =
     write_all_loop OS fd (Some time) (length (c_string (take DIRTY_EXPIRE_TIME_SIZE time))) 0 w"

definition update_dirty_expire_time :: "'w os \<Rightarrow> byte list \<Rightarrow> tester \<Rightarrow> 'w
    \<Rightarrow> (byte list option \<times> tester \<times> 'w) option" where
  "update_dirty_expire_time OS time T w =
     (let (fd, w1) = os_open OS DIRTY_EXPIRE_TIME_PATH ''rwe'' w in
      Option.bind (read_dirty_expire_time OS fd T w1) (\<lambda>(ok, T1, w2).
        if \<not> ok then Some (None, T1, os_close OS fd w2)
        else Option.bind (write_dirty_expire_time OS fd time w2) (\<lambda>(ok, w3).
          if \<not> ok
          then map_option (\<lambda>(_, w4). (None, T1, os_close OS fd w4))
                 (write_dirty_expire_time OS fd (dirty_expire_time T1) w3)
          else Some (Some (dirty_expire_time T1), T1, os_close OS fd w3))))"

section \<open>Partitioning and formatting\<close>

definition partition_drive :: "'w os \<Rightarrow> tester \<Rightarrow> 'w \<Rightarrow> int \<times> tester \<times> 'w" where
  "partition_drive OS T w =
     (if device_raw T = [] then (PART_PART_ERR, T, w)
      else
        (let command = PART_PART_DRIVE @ device_raw T @ (if \<not> verbose T then SILENT else []) @
               PART_PART_DRIVE_2;
             (res, w1) = os_system OS command w
         in if res \<noteq> 0 then (PART_PART_ERR, T, w1)
            else (SUCCESS, T\<lparr>device_mount := device_raw T @ ''1''\<rparr>, w1)))"

definition wipe_partitions :: "'w os \<Rightarrow> tester \<Rightarrow> 'w \<Rightarrow> int \<times> 'w" where
  "wipe_partitions OS T w =
     (if device_raw T = [] then (PART_PART_ERR, w)
      else
        (let (res, w1) = os_system OS (PART_DEL_PART_DRIVE @ device_raw T @ (if \<not> verbose T then SILENT else []) @
               PART_DEL_PART_DRIVE_2) w
         in if res \<noteq> 0 then (PART_PART_ERR, w1) else (SUCCESS, w1)))"

definition format_drive :: "'w os \<Rightarrow> tester \<Rightarrow> 'w \<Rightarrow> int \<times> 'w" where
  "format_drive OS T w =
     (if device_raw T = [] then (PART_PART_ERR, w)
      else
        (let (res, w1) = os_system OS (FMT_FMT_DRIVE @ fs_type T @ '' '' @ device_mount T @
               (if \<not> verbose T then SILENT else [])) w
         in if res \<noteq> 0 then (FMT_FMT_ERR, w1) else (SUCCESS, w1)))"

section \<open>Writing operations to a device\<close>

fun test_write_data :: "req_flags \<Rightarrow> 'w os \<Rightarrow> int \<Rightarrow> disk_write list \<Rightarrow> 'w \<Rightarrow> (bool \<times> 'w) option" where
  "test_write_data R OS disk_fd [] w = Some (True, w)"
| "test_write_data R OS disk_fd (current # rest) w =
     (if \<not> has_write_flag R current then test_write_data R OS disk_fd rest w
      else
        (case os_lseek OS disk_fd (sint (write_sector (metadata current) * SECTOR_SIZE)) w of (res, w1) \<Rightarrow>
           if res < 0 then Some (False, w1)
           else Option.bind
             (write_all_loop OS disk_fd (get_data current) (unat (meta_size (metadata current))) 0 w1)
             (\<lambda>(ok, w2). if ok then test_write_data R OS disk_fd rest w2 else Some (False, w2))))"

definition test_restore_log :: "req_flags \<Rightarrow> 'w os \<Rightarrow> tester \<Rightarrow> 'w \<Rightarrow> (int \<times> 'w) option" where
  "test_restore_log R OS T w =
     (let (sn_fd, w1) = os_open OS (device_raw T) ''w'' w in
      if sn_fd < 0 then Some (TEST_CASE_FILE_ERR, w1)
      else map_option
        (\<lambda>(ok, w2). (if ok then SUCCESS else TEST_TEST_ERR, os_close OS sn_fd w2))
        (test_write_data R OS sn_fd (log_data T) w1))"

section \<open>Saving and loading the base image\<close>

text \<open>
  The buffer has \<open>device_size\<close> bytes, \<open>junk\<close> at first.  The result is the contents of the file.
  \<open>bytes_read\<close> and \<open>bytes_written\<close> are 32 bits wide, \<open>device_size\<close> is 64; an error of \<open>write\<close> is
  added to \<open>bytes_written\<close> like a count.
\<close>

partial_function (option) snapshot_read_loop :: "'w os \<Rightarrow> int \<Rightarrow> u64 \<Rightarrow> u32 \<Rightarrow> byte list \<Rightarrow> 'w
    \<Rightarrow> (byte list \<times> 'w) option" where
  "snapshot_read_loop OS fd nbytes bytes_read buf w =
     (case os_read OS fd (unat (nbytes - ucast bytes_read)) w of (res, bs, w1) \<Rightarrow>
        if res < 0 then Some (buf, w1)
        else
          (case (put_bytes bs (unat bytes_read) buf, bytes_read + word_of_int res) of (buf', n) \<Rightarrow>
             if ucast n < nbytes then snapshot_read_loop OS fd nbytes n buf' w1 else Some (buf', w1)))"

definition log_snapshot_save :: "'w os \<Rightarrow> (nat \<Rightarrow> byte) \<Rightarrow> bool \<Rightarrow> tester \<Rightarrow> 'w
    \<Rightarrow> (int \<times> byte list option \<times> 'w) option" where
  "log_snapshot_save OS junk file_ok T w =
     map_option
       (\<lambda>(buf, w1). if file_ok then (SUCCESS, Some buf, w1) else (LOG_CLONE_ERR, None, w1))
       (snapshot_read_loop OS (cow_brd_fd T) (device_size T) 0
         (map junk [0..<unat (device_size T)]) w)"

partial_function (option) snapshot_write_loop :: "'w os \<Rightarrow> int \<Rightarrow> u64 \<Rightarrow> u32 \<Rightarrow> byte list \<Rightarrow> 'w
    \<Rightarrow> 'w option" where
  "snapshot_write_loop OS fd nbytes bytes_written buf w =
     (case os_write OS fd (Some (drop (unat bytes_written) buf)) (unat (nbytes - ucast bytes_written)) w of
        (res, w1) \<Rightarrow>
          (case bytes_written + word_of_int res of n \<Rightarrow>
             if ucast n < nbytes then snapshot_write_loop OS fd nbytes n buf w1 else Some w1))"

text \<open>
  \<open>file\<close> is the contents of the log file, \<open>None\<close> if it cannot be opened; a file longer than the
  buffer fails the assertion, a shorter one is an error after the device has been wiped.
\<close>

definition log_snapshot_load :: "'w os \<Rightarrow> byte list option \<Rightarrow> tester \<Rightarrow> 'w \<Rightarrow> (int \<times> 'w) option" where
  "log_snapshot_load OS file T w =
     (let (_, w1) = os_ioctl OS (cow_brd_fd T) COW_BRD_WIPE w;
          n = unat (device_size T)
      in case file of
           None \<Rightarrow> Some (LOG_CLONE_ERR, w1)
         | Some bs \<Rightarrow>
             if length bs < n then Some (LOG_CLONE_ERR, w1)
             else if length bs > n then None
             else
               (let (fd, w2) = os_open OS COW_BRD_PATH ''w'' w1;
                    (_, w3) = os_lseek OS fd 0 w2
                in map_option
                     (\<lambda>w4. (SUCCESS, snd (os_ioctl OS (cow_brd_fd T) COW_BRD_SNAPSHOT
                             (os_close OS fd (os_sync OS w4)))))
                     (snapshot_write_loop OS fd (device_size T) 0 bs w3)))"

section \<open>Checking crash states\<close>

text \<open>
  \<open>check\<close> is \<open>check_test\<close> of the loaded test case, which may fill in the data result, \<open>wexit\<close> the
  macro \<open>WEXITSTATUS\<close>, \<open>junk\<close> the uninitialised \<open>fs_check_return\<close>.  This is the body of the loop of
  \<open>test_check_random_permutations\<close> after a crash state was generated.
\<close>

type_synonym 'w check_test = "data_test_result \<Rightarrow> 'w \<Rightarrow> int \<times> data_test_result \<times> 'w"

definition fs_error :: "u32 \<Rightarrow> single_test_info \<Rightarrow> single_test_info" where
  "fs_error e info = info\<lparr>fs_test := ft_SetError e (fs_test info)\<rparr>"

definition fsck_command :: "tester \<Rightarrow> string" where
  "fsck_command T = TEST_CASE_FSCK @ fs_type T @ '' '' @ SNAPSHOT_PATH @ '' -- -y'' @
     (if \<not> verbose T then SILENT else [])"

definition check_mounted :: "'w os \<Rightarrow> 'w check_test \<Rightarrow> int \<Rightarrow> single_test_info \<Rightarrow> tester
    \<Rightarrow> test_suite_result \<Rightarrow> 'w \<Rightarrow> tester \<times> test_suite_result \<times> 'w" where
  "check_mounted OS check fsck info T suite w =
     (let (res, T1, w1) = mount_device OS SNAPSHOT_PATH None T w in
      if res \<noteq> SUCCESS then (T1, AddCompletedTest (fs_error kUnmountable info) suite, w1)
      else
        (let (check_res, dt, w2) = check (data_test info) w1;
             info1 = info\<lparr>data_test := dt\<rparr>;
             info2 = (if check_res = 0 \<and> fsck \<noteq> 0 then fs_error kFixed info1 else info1);
             suite1 = AddCompletedTest info2 suite;
             (_, T2, w3) = umount_device OS T1 w2
         in (T2, suite1, w3)))"

definition check_written :: "'w os \<Rightarrow> 'w check_test \<Rightarrow> (int \<Rightarrow> int) \<Rightarrow> single_test_info \<Rightarrow> tester
    \<Rightarrow> test_suite_result \<Rightarrow> 'w \<Rightarrow> tester \<times> test_suite_result \<times> 'w" where
  "check_written OS check wexit info T suite w =
     (let (fsck, w1) = os_system OS (fsck_command T) w;
          info1 = info\<lparr>fs_test := (fs_test info)\<lparr>fs_check_return := word_of_int fsck\<rparr>\<rparr>
      in if \<not> (fsck = 0 \<or> wexit fsck = 1)
         then (T, AddCompletedTest (fs_error kCheck info1) suite, w1)
         else check_mounted OS check fsck info1 T suite w1)"

definition check_crash_state :: "req_flags \<Rightarrow> 'w os \<Rightarrow> 'w check_test \<Rightarrow> (int \<Rightarrow> int) \<Rightarrow> 32 word
    \<Rightarrow> disk_write list \<Rightarrow> tester \<Rightarrow> test_suite_result \<Rightarrow> 'w
    \<Rightarrow> (tester \<times> test_suite_result \<times> 'w) option" where
  "check_crash_state R OS check wexit junk permutes T suite w =
     (let info = SingleTestInfo junk;
          (fd, w1) = os_open OS SNAPSHOT_PATH ''w'' w
      in if fd < 0 then Some (T, suite, w1)
         else Option.bind (clone_device_restore OS fd False w1) (\<lambda>(res, w2).
           if res \<noteq> SUCCESS
           then Some (T, AddCompletedTest (fs_error kSnapshotRestore info) suite, w2)
           else Option.bind (test_write_data R OS fd permutes w2) (\<lambda>(ok, w3).
             if \<not> ok
             then Some (T, AddCompletedTest (fs_error kBioWrite info) suite, os_close OS fd w3)
             else Some (check_written OS check wexit info T suite (os_close OS fd w3)))))"

text \<open>The loop of \<open>test_check_random_permutations\<close>, for the rounds that are left.\<close>

fun permutation_rounds :: "req_flags \<Rightarrow> 'w os \<Rightarrow> 'w check_test \<Rightarrow> (int \<Rightarrow> int) \<Rightarrow> 32 word
    \<Rightarrow> 'g gen \<Rightarrow> nat \<Rightarrow> 'g permuter \<Rightarrow> tester \<Rightarrow> test_suite_result \<Rightarrow> 'w
    \<Rightarrow> (tester \<times> 'g permuter \<times> test_suite_result \<times> 'w) option" where
  "permutation_rounds R OS check wexit junk gen 0 P T suite w = Some (T, P, suite, w)"
| "permutation_rounds R OS check wexit junk gen (Suc n) P T suite w =
     Option.bind (GenerateCrashState gen P) (\<lambda>(new_state, permutes, P1).
       if \<not> new_state then Some (T, P1, suite, w)
       else Option.bind (check_crash_state R OS check wexit junk permutes T suite w)
         (\<lambda>(T1, suite1, w1). permutation_rounds R OS check wexit junk gen n P1 T1 suite1 w1))"

text \<open>The boolean says whether the harness reports that it ran out of new crash states.\<close>

definition test_check_random_permutations :: "req_flags \<Rightarrow> 'w os \<Rightarrow> 'w check_test \<Rightarrow> (int \<Rightarrow> int)
    \<Rightarrow> 32 word \<Rightarrow> indet \<Rightarrow> 'g gen \<Rightarrow> int \<Rightarrow> 'g permuter \<Rightarrow> tester \<Rightarrow> 'w
    \<Rightarrow> (int \<times> bool \<times> tester \<times> 'g permuter \<times> 'w) option" where
  "test_check_random_permutations R OS check wexit junk J gen num_rounds P T w =
     (let P1 = P\<lparr>epochs := InitDataVector R J (log_data T)\<rparr> in
      map_option
        (\<lambda>(T1, P2, suite, w1).
           (SUCCESS, GetCompleted suite < word_of_int num_rounds,
            T1\<lparr>test_results := test_results T1 @ [suite]\<rparr>, P2, w1))
        (permutation_rounds R OS check wexit junk gen (nat num_rounds) P1 T TestSuiteResult w))"

section \<open>Cleaning up\<close>

text \<open>The classes are unloaded on every path; the result is the state of the devices.\<close>

definition cleanup_harness :: "'w os \<Rightarrow> ('w \<Rightarrow> 'w) \<Rightarrow> tester \<Rightarrow> 'w \<Rightarrow> tester \<times> 'w" where
  "cleanup_harness OS unload_classes T w =
     (let (r1, T1, w1) = umount_device OS T w in
      if r1 \<noteq> SUCCESS then (T1, unload_classes w1)
      else
        (let (r2, T2, w2) = remove_wrapper OS T1 w1 in
         if r2 \<noteq> SUCCESS then (T2, unload_classes w2)
         else
           (let (r3, T3, w3) = remove_cow_brd OS T2 w2 in
            if r3 \<noteq> SUCCESS then (T3, unload_classes w3)
            else (T3, unload_classes w3))))"

partial_function (option) drop_caches_loop :: "'w os \<Rightarrow> int \<Rightarrow> 'w \<Rightarrow> (bool \<times> 'w) option" where
  "drop_caches_loop OS fd w =
     (case os_write OS fd (Some [0x33]) 1 w of (res, w1) \<Rightarrow>
        if res < 0 then Some (False, w1)
        else if res < 1 then drop_caches_loop OS fd w1 else Some (True, w1))"

definition clear_caches :: "'w os \<Rightarrow> 'w \<Rightarrow> (int \<times> 'w) option" where
  "clear_caches OS w =
     (let w1 = os_sync OS w; (fd, w2) = os_open OS DROP_CACHES_PATH ''w'' w1 in
      if fd < 0 then Some (CLEAR_CACHE_ERR, w2)
      else map_option (\<lambda>(ok, w3). (if ok then SUCCESS else CLEAR_CACHE_ERR, os_close OS fd w3))
             (drop_caches_loop OS fd w2))"

definition PrintTestStats :: "tester \<Rightarrow> ostream \<Rightarrow> ostream" where
  "PrintTestStats T os = fold PrintResults (test_results T) os"

end
