(* ===== verification/Cow_Brd_Store.thy ===== *)
theory Cow_Brd_Store
  imports Cow_Brd
begin

text \<open>
  What a device of \<open>Cow_Brd\<close> stores: the abstraction \<open>disk_byte\<close> from a radix tree and the tree
  of the parent to one byte per address, and what inserting a page, copying, discarding, freeing
  and whole requests do to it.  Copies inside one page are plain writes and reads of that byte
  function; copies over a page boundary are too on a device without a parent, and the exact
  effect on a snapshot is \<open>boundary_write\<close> and \<open>boundary_read\<close>.
\<close>

section \<open>The abstraction\<close>

definition page_of :: "page_tree option \<Rightarrow> page_tree \<Rightarrow> nat \<Rightarrow> page" where
  "page_of pp t i =
     (case fmlookup t i of
        Some p \<Rightarrow> p
      | None \<Rightarrow> (case Option.bind pp (\<lambda>q. fmlookup q i) of Some p \<Rightarrow> p | None \<Rightarrow> zero_page))"

definition disk_byte :: "page_tree option \<Rightarrow> page_tree \<Rightarrow> nat \<Rightarrow> byte" where
  "disk_byte pp t a = page_of pp t (a div PAGE_SIZE) (a mod PAGE_SIZE)"

text \<open>\<open>page_write\<close> also writes the byte function of a whole disk.\<close>

lemma page_write_nil [simp]: "page_write p off [] = p"
  by (rule ext) (auto simp: page_write_def)

lemma page_write_append:
  "page_write (page_write p off xs) (off + length xs) ys = page_write p off (xs @ ys)"
  by (rule ext) (auto simp: page_write_def nth_append)

lemma page_write_in: "off \<le> i \<Longrightarrow> i < off + length bs \<Longrightarrow> page_write p off bs i = bs ! (i - off)"
  by (simp add: page_write_def)

lemma page_write_out: "i < off \<or> off + length bs \<le> i \<Longrightarrow> page_write p off bs i = p i"
  by (auto simp: page_write_def)

lemma length_page_read [simp]: "length (page_read p off n) = n"
  by (simp add: page_read_def)

lemma nth_page_read: "i < n \<Longrightarrow> page_read p off n ! i = p (off + i)"
  by (simp add: page_read_def)

lemma page_read_append:
  "page_read p off n @ page_read p (off + n) k = page_read p off (n + k)"
  by (simp add: page_read_def add.assoc [symmetric] upt_add_eq_append [of off "off + n" k])

lemma page_read_page_write: "page_read (page_write p off bs) off (length bs) = bs"
  by (rule nth_equalityI) (auto simp: nth_page_read page_write_def)

lemma page_of_upd:
  "page_of pp (fmupd i p t) j = (if j = i then p else page_of pp t j)"
  by (auto simp: page_of_def)

lemma page_of_lookup: "fmlookup t i = Some p \<Longrightarrow> page_of pp t i = p"
  by (simp add: page_of_def)

lemma page_of_no_parent: "fmlookup t i = None \<Longrightarrow> page_of None t i = zero_page"
  by (simp add: page_of_def)

section \<open>Pages\<close>

lemma brd_insert_page_content:
  assumes "brd_insert_page pp ms t s = (ok, t', ms')"
  shows "page_of pp t' = page_of pp t"
    and "fmlookup t i = Some p \<Longrightarrow> fmlookup t' i = Some p"
    and "ok \<Longrightarrow> page_index s \<in> fmdom' t'"
    and "\<not> ok \<Longrightarrow> t' = t"
  using assms
  by (auto simp: brd_insert_page_def brd_lookup_page_def page_of_def Let_def fmdom'I
      split: option.splits if_splits prod.splits bind_splits intro!: ext)

lemma brd_insert_page_no_failure:
  "fst (brd_insert_page pp [] t s) \<and> snd (snd (brd_insert_page pp [] t s)) = []"
  by (auto simp: brd_insert_page_def Let_def split: option.splits)

text \<open>The second page of a copy is the next page, whatever sector the copy starts at.\<close>

lemma second_page:
  "page_index (s + drop_bit SECTOR_SHIFT (PAGE_SIZE - page_offset s)) = Suc (page_index s)"
  "s + drop_bit SECTOR_SHIFT (PAGE_SIZE - page_offset s) = 8 * Suc (s div 8)"
proof -
  have "4096 - s mod 8 * 512 = (8 - s mod 8) * 512" by (simp add: diff_mult_distrib)
  then have a: "(4096 - s mod 8 * 512) div 512 = 8 - s mod 8" by simp
  have "s mod 8 < 8" by simp
  then have "s + (8 - s mod 8) = 8 * (s div 8) + 8"
    using mult_div_mod_eq [of 8 s] by linarith
  then show "s + drop_bit SECTOR_SHIFT (PAGE_SIZE - page_offset s) = 8 * Suc (s div 8)"
    by (simp add: page_offset_mod drop_bit_eq_div a)
  then show "page_index (s + drop_bit SECTOR_SHIFT (PAGE_SIZE - page_offset s)) =
      Suc (page_index s)"
    by (simp add: page_index_div)
qed

lemma page_offset_le: "page_offset s \<le> 3584"
  by (simp add: page_offset_mod)

lemma page_offset_mod': "page_offset s = 512 * s mod 4096" "page_index s = 512 * s div 4096"
proof -
  have "512 * s mod (512 * 8) = 512 * (s mod 8)" by (rule mult_mod_right [symmetric])
  then show "page_offset s = 512 * s mod 4096" by (simp add: page_offset_mod)
  have "512 * s div (512 * 8) = s div 8" by (rule div_mult_mult1) simp
  then show "page_index s = 512 * s div 4096" by (simp add: page_index_div)
qed

lemma sector_addr: "4096 * page_index s + page_offset s = 512 * s"
  by (simp only: page_offset_mod' mult_div_mod_eq)

text \<open>Writing inside a page is writing at the address of the page plus the offset.\<close>

lemma page_write_at:
  assumes "o' + length bs \<le> 4096"
  shows "disk_byte pp (fmupd i (page_write (page_of pp t i) o' bs) t)
    = page_write (disk_byte pp t) (4096 * i + o') bs"
proof
  fix a :: nat
  have a: "a = 4096 * (a div 4096) + a mod 4096" by (rule mult_div_mod_eq [symmetric])
  show "disk_byte pp (fmupd i (page_write (page_of pp t i) o' bs) t) a
    = page_write (disk_byte pp t) (4096 * i + o') bs a"
  proof (cases "a div 4096 = i")
    case True
    then have "4096 * i + o' \<le> a \<longleftrightarrow> o' \<le> a mod 4096" "a - (4096 * i + o') = a mod 4096 - o'"
      "a < 4096 * i + o' + length bs \<longleftrightarrow> a mod 4096 < o' + length bs"
      using a by linarith+
    then show ?thesis
      using True by (simp add: disk_byte_def page_of_upd page_write_def)
  next
    case False
    have "\<not> (4096 * i + o' \<le> a \<and> a < 4096 * i + o' + length bs)"
    proof
      assume "4096 * i + o' \<le> a \<and> a < 4096 * i + o' + length bs"
      then have "4096 * i \<le> a" "a < 4096 * i + 4096" using assms by linarith+
      then have "a div 4096 = i" by (simp add: div_nat_eqI add.commute)
      with False show False by simp
    qed
    then show ?thesis
      using False by (auto simp: disk_byte_def page_of_upd page_write_def)
  qed
qed

section \<open>Copying in\<close>

lemma copy_to_brd_setup_content:
  assumes "copy_to_brd_setup pp ms t s n = (e, t', ms')"
  shows "page_of pp t' = page_of pp t"
    and "e = None \<Longrightarrow> page_index s \<in> fmdom' t'"
    and "e = None \<Longrightarrow> PAGE_SIZE < page_offset s + n \<Longrightarrow> Suc (page_index s) \<in> fmdom' t'"
    and "e \<noteq> None \<Longrightarrow> e = Some ENOMEM"
    and "ms = [] \<Longrightarrow> e = None \<and> ms' = []"
proof -
  obtain ok t1 ms1 where one: "brd_insert_page pp ms t s = (ok, t1, ms1)" by (metis prod_cases3)
  obtain ok' t2 ms2 where two: "brd_insert_page pp ms1 t1 (8 * Suc (s div 8)) = (ok', t2, ms2)"
    by (metis prod_cases3)
  have off: "page_offset s \<le> 4096" using page_offset_le [of s] by simp
  have sec: "s + drop_bit 9 (4096 - page_offset s) = 8 * Suc (s div 8)"
    using second_page(2) [of s] by simp
  have idx: "page_index (8 * Suc (s div 8)) = Suc (page_index s)" by (simp add: page_index_div)
  have e: "(e, t', ms') =
    (if \<not> ok then (Some ENOMEM, t1, ms1)
     else if 4096 < page_offset s + n then
       (if \<not> ok' then (Some ENOMEM, t2, ms2) else (None, t2, ms2))
     else (None, t1, ms1))"
    using assms off by (auto simp: copy_to_brd_setup_def one two sec Let_def min_def simp del: mult_Suc_right split: if_splits)
  note i1 = brd_insert_page_content [OF one] and i2 = brd_insert_page_content [OF two]
  have mono: "fmdom' t1 \<subseteq> fmdom' t2" using i2(2) by (auto simp: fmlookup_dom'_iff)
  show "page_of pp t' = page_of pp t" using e i1(1) i2(1) by (auto split: if_splits)
  show "e = None \<Longrightarrow> page_index s \<in> fmdom' t'"
    using e i1(3) mono by (auto split: if_splits)
  show "e = None \<Longrightarrow> PAGE_SIZE < page_offset s + n \<Longrightarrow> Suc (page_index s) \<in> fmdom' t'"
    using e i2(3) idx by (auto split: if_splits)
  show "e \<noteq> None \<Longrightarrow> e = Some ENOMEM" using e by (auto split: if_splits)
  show "ms = [] \<Longrightarrow> e = None \<and> ms' = []"
    using e one two brd_insert_page_no_failure [of pp t s]
      brd_insert_page_no_failure [of pp t1 "8 * Suc (s div 8)"] by (auto split: if_splits)
qed

text \<open>
  The effect of a write on the bytes of a device.  The rest of a second page takes the bytes of
  the parent's page, if the parent has it, whatever the device held there.
\<close>

definition boundary_write :: "page_tree option \<Rightarrow> (nat \<Rightarrow> byte) \<Rightarrow> nat \<Rightarrow> byte list \<Rightarrow> nat \<Rightarrow> byte" where
  "boundary_write pp m s bs =
     (let m1 = page_write m (512 * s) bs; i = Suc (page_index s) in
      if page_offset s + length bs \<le> PAGE_SIZE then m1
      else (\<lambda>a. if 512 * s + length bs \<le> a \<and> a < PAGE_SIZE * Suc i then
                  (case Option.bind pp (\<lambda>q. fmlookup q i) of
                     Some p \<Rightarrow> p (a mod PAGE_SIZE)
                   | None \<Rightarrow> m1 a)
                else m1 a))"

lemma copy_to_brd_one_page:
  assumes "page_index s \<in> fmdom' t" "page_offset s + length src \<le> PAGE_SIZE"
  obtains t' where "copy_to_brd pp t src s = Some t'"
    "disk_byte pp t' = page_write (disk_byte pp t) (512 * s) src"
proof -
  from assms(1) obtain p where p: "fmlookup t (page_index s) = Some p"
    by (auto simp: fmlookup_dom'_iff)
  have "length src \<le> 4096 - page_offset s" using assms(2) by simp
  then have "copy_to_brd pp t src s =
      Some (fmupd (page_index s) (page_write p (page_offset s) src) t)"
    using p by (simp add: copy_to_brd_def brd_lookup_page_def min_def Let_def)
  then show thesis
    using that page_write_at [of "page_offset s" src pp "page_index s" t] assms(2)
    by (simp add: page_of_lookup [OF p] sector_addr)
qed

lemma copy_to_brd_two_pages:
  assumes dom: "page_index s \<in> fmdom' t" "Suc (page_index s) \<in> fmdom' t"
    and two: "PAGE_SIZE < page_offset s + length src" and len: "length src \<le> PAGE_SIZE"
  obtains t' where "copy_to_brd pp t src s = Some t'"
    "disk_byte pp t' = boundary_write pp (disk_byte pp t) s src"
proof -
  define i where "i = page_index s"
  define off where "off = page_offset s"
  define c where "c = PAGE_SIZE - off"
  define c2 where "c2 = length src - c"
  define m1 where "m1 = page_write (disk_byte pp t) (512 * s) (take c src)"
  define t1 where "t1 = fmupd i (page_write (page_of pp t i) off (take c src)) t"
  define par where "par = Option.bind pp (\<lambda>q. fmlookup q (Suc i))"
  have off: "off \<le> 3584" "off + c = 4096" using page_offset_le [of s] by (auto simp: off_def c_def)
  have c: "c < length src" "c2 \<le> 4096" "c + c2 = length src"
    using two len off by (auto simp: c_def c2_def off_def)
  have addr: "512 * s + c = 4096 * Suc i"
    using sector_addr [of s] off by (simp add: i_def off_def)
  obtain p where p: "fmlookup t i = Some p" using dom(1) by (auto simp: i_def fmlookup_dom'_iff)
  obtain p2 where p2: "fmlookup t (Suc i) = Some p2" using dom(2) by (auto simp: i_def fmlookup_dom'_iff)
  have p2': "page_of pp t1 (Suc i) = p2" by (simp add: t1_def page_of_upd page_of_lookup [OF p2])
  have m1: "disk_byte pp t1 = m1"
    using page_write_at [of off "take c src" pp i t] off c sector_addr [of s]
    by (simp add: t1_def m1_def i_def off_def)
  have sec: "s + drop_bit SECTOR_SHIFT c = 8 * Suc (s div 8)"
    using second_page(2) [of s] by (simp add: c_def off_def)
  have idx: "page_index (8 * Suc (s div 8)) = Suc i" by (simp add: i_def page_index_div)
  define dst where "dst = (case par of None \<Rightarrow> p2
    | Some q \<Rightarrow> page_write p2 c2 (page_read q c2 (PAGE_SIZE - c2)))"
  define t2 where "t2 = fmupd (Suc i) (page_write dst 0 (drop c src)) t1"
  have min: "min (length src) (PAGE_SIZE - page_offset s) = c"
    using c by (simp add: c_def off_def)
  have res: "copy_to_brd pp t src s = Some t2"
    unfolding copy_to_brd_def Let_def min sec brd_lookup_page_def idx
    using c p p2
    by (simp add: page_of_lookup [OF p] i_def [symmetric] off_def [symmetric] t1_def t2_def
        dst_def par_def c2_def split: option.split bind_split)
  let ?tail = "(case par of None \<Rightarrow> [] | Some q \<Rightarrow> page_read q c2 (PAGE_SIZE - c2))"
  let ?t1' = "fmupd (Suc i) dst t1"
  have dst: "dst = page_write (page_of pp t1 (Suc i)) c2 ?tail"
    by (simp add: dst_def p2' split: option.split)
  have t1': "disk_byte pp ?t1' = page_write m1 (4096 * Suc i + c2) ?tail"
    unfolding dst m1 [symmetric] using c
    by (intro page_write_at) (simp split: option.split)
  have "t2 = fmupd (Suc i) (page_write (page_of pp ?t1' (Suc i)) 0 (drop c src)) ?t1'"
    by (simp add: t2_def page_of_upd)
  then have t2: "disk_byte pp t2 =
      page_write (page_write m1 (4096 * Suc i + c2) ?tail) (4096 * Suc i + 0) (drop c src)"
    using t1' c page_write_at [of 0 "drop c src" pp "Suc i" ?t1'] by simp
  have "disk_byte pp t2 = boundary_write pp (disk_byte pp t) s src"
  proof
    fix a
    have w: "page_write m1 (4096 * Suc i) (drop c src) = page_write (disk_byte pp t) (512 * s) src"
      using page_write_append [of "disk_byte pp t" "512 * s" "take c src" "drop c src"] c addr
      by (simp add: m1_def)
    have e: "512 * s + length src = 4096 * Suc i + c2" using addr c by simp
    show "disk_byte pp t2 a = boundary_write pp (disk_byte pp t) s src a"
    proof (cases par)
      case None
      then show ?thesis
        using two w by (simp add: t2 boundary_write_def par_def i_def Let_def del: mult_Suc_right)
    next
      case (Some q)
      have "page_write (page_write m1 (4096 * Suc i + c2) (page_read q c2 (4096 - c2)))
          (4096 * Suc i) (drop c src) a =
        (if 4096 * Suc i + c2 \<le> a \<and> a < 4096 * Suc (Suc i) then q (a mod 4096)
         else page_write m1 (4096 * Suc i) (drop c src) a)"
      proof (cases "4096 * Suc i + c2 \<le> a \<and> a < 4096 * Suc (Suc i)")
        case True
        then have "a mod 4096 = a - 4096 * Suc i"
          by (intro mod_nat_eqI) (auto simp: div_nat_eqI)
        then have "a - (4096 * Suc i + c2) < 4096 - c2" "c2 + (a - (4096 * Suc i + c2)) = a mod 4096"
          using True by linarith+
        then show ?thesis using True c
          by (auto simp: page_write_def nth_page_read)
      next
        case False
        then show ?thesis using c by (auto simp: page_write_def)
      qed
      then show ?thesis
        using two e Some w
        by (simp add: t2 boundary_write_def par_def i_def Let_def del: mult_Suc_right)
    qed
  qed
  with res show thesis by (rule that)
qed

text \<open>A write is plain if it stays inside its page or the device has no parent.\<close>

definition write_fits :: "page_tree option \<Rightarrow> nat \<Rightarrow> nat \<Rightarrow> bool" where
  "write_fits pp s n \<longleftrightarrow> n \<le> PAGE_SIZE \<and> (pp = None \<or> page_offset s + n \<le> PAGE_SIZE)"

lemma boundary_write_fits:
  "write_fits pp s (length bs) \<Longrightarrow> boundary_write pp m s bs = page_write m (512 * s) bs"
  by (auto simp: boundary_write_def write_fits_def Let_def)

lemma do_bvec_write:
  assumes "rw \<noteq> READ K" "length mem \<le> PAGE_SIZE"
  obtains err t' ms' where "brd_do_bvec K pp ms t mem rw s = Some (err, t', mem, ms')"
    "err = None \<and> disk_byte pp t' = boundary_write pp (disk_byte pp t) s mem \<or>
     err = Some ENOMEM \<and> disk_byte pp t' = disk_byte pp t"
    "ms = [] \<Longrightarrow> err = None \<and> ms' = []"
proof -
  obtain err t1 ms1 where s: "copy_to_brd_setup pp ms t s (length mem) = (err, t1, ms1)"
    by (metis prod_cases3)
  note c = copy_to_brd_setup_content [OF s]
  have t1: "disk_byte pp t1 = disk_byte pp t" by (rule ext) (simp add: disk_byte_def c(1))
  show thesis
  proof (cases err)
    case None
    obtain t2 where "copy_to_brd pp t1 mem s = Some t2"
      "disk_byte pp t2 = boundary_write pp (disk_byte pp t1) s mem"
    proof (cases "PAGE_SIZE < page_offset s + length mem")
      case True
      show thesis
        by (rule copy_to_brd_two_pages [OF c(2) [OF None] c(3) [OF None True] True assms(2) that])
    next
      case False
      then have fits: "page_offset s + length mem \<le> PAGE_SIZE" by linarith
      then have "boundary_write pp m s mem = page_write m (512 * s) mem" for m
        by (simp add: boundary_write_def Let_def)
      then show thesis
        using copy_to_brd_one_page [OF c(2) [OF None] fits, of pp] that by metis
    qed
    then show thesis
      using that [of None t2 ms1] assms(1) s None t1 c(5)
      by (simp add: brd_do_bvec_def)
  next
    case (Some e)
    then show thesis
      using that [of "Some ENOMEM" t1 ms1] assms(1) s t1 c(4,5)
      by (auto simp: brd_do_bvec_def)
  qed
qed

fun write_segs :: "page_tree option \<Rightarrow> (nat \<Rightarrow> byte) \<Rightarrow> nat \<Rightarrow> byte list list \<Rightarrow> nat \<Rightarrow> byte" where
  "write_segs pp m s [] = m"
| "write_segs pp m s (b # bs) =
     write_segs pp (boundary_write pp m s b) (s + length b div 512) bs"

fun segs_fit :: "page_tree option \<Rightarrow> nat \<Rightarrow> byte list list \<Rightarrow> bool" where
  "segs_fit pp s [] = True"
| "segs_fit pp s (b # bs) =
     (write_fits pp s (length b) \<and> 512 dvd length b \<and> segs_fit pp (s + length b div 512) bs)"

lemma write_segs_concat:
  "segs_fit pp s bs \<Longrightarrow> write_segs pp m s bs = page_write m (512 * s) (concat bs)"
proof (induction bs arbitrary: m s)
  case (Cons b bs)
  then have "512 * (s + length b div 512) = 512 * s + length b" by (auto simp: distrib_left)
  with Cons show ?case by (simp add: boundary_write_fits page_write_append)
qed simp

lemma segs_fit_take: "segs_fit pp s bs \<Longrightarrow> segs_fit pp s (take k bs)"
  by (induction bs arbitrary: s k) (auto simp: take_Cons split: nat.split)

lemma segs_fit_length: "segs_fit pp s bs \<Longrightarrow> b \<in> set bs \<Longrightarrow> length b \<le> PAGE_SIZE"
  by (induction bs arbitrary: s) (auto simp: write_fits_def)

lemma segment_loop_write:
  assumes "rw \<noteq> READ K" "\<And>b. b \<in> set segs \<Longrightarrow> length b \<le> PAGE_SIZE"
  obtains err t' ms' k where "segment_loop K pp e0 ms t segs rw s = Some (err, t', segs, ms')"
    "disk_byte pp t' = write_segs pp (disk_byte pp t) s (take k segs)" "k \<le> length segs"
    "segs = [] \<and> err = e0 \<or> segs \<noteq> [] \<and> err = None \<and> k = length segs \<or>
     err = Some ENOMEM \<and> k < length segs"
    "ms = [] \<Longrightarrow> segs \<noteq> [] \<Longrightarrow> err = None"
  using assms(2)
proof (induction segs arbitrary: e0 ms t s thesis)
  case Nil
  show ?case by (rule Nil(1) [of e0 t ms 0]) auto
next
  case (Cons b segs)
  have "length b \<le> PAGE_SIZE" using Cons.prems(2) by simp
  from do_bvec_write [OF assms(1) this, of pp ms t s] obtain err1 t1 ms1
    where one: "brd_do_bvec K pp ms t b rw s = Some (err1, t1, b, ms1)"
      "err1 = None \<and> disk_byte pp t1 = boundary_write pp (disk_byte pp t) s b \<or>
       err1 = Some ENOMEM \<and> disk_byte pp t1 = disk_byte pp t"
      "ms = [] \<Longrightarrow> err1 = None \<and> ms1 = []"
    by metis
  show ?case
  proof (cases err1)
    case (Some e)
    then show ?thesis using one by (intro Cons.prems(1) [of "Some ENOMEM" t1 ms1 0]) auto
  next
    case None
    obtain err t' ms' k
      where "segment_loop K pp None ms1 t1 segs rw (s + length b div 512) = Some (err, t', segs, ms')"
      "disk_byte pp t' = write_segs pp (disk_byte pp t1) (s + length b div 512) (take k segs)"
      "k \<le> length segs"
      "segs = [] \<and> err = None \<or> segs \<noteq> [] \<and> err = None \<and> k = length segs \<or>
       err = Some ENOMEM \<and> k < length segs"
      "ms1 = [] \<Longrightarrow> segs \<noteq> [] \<Longrightarrow> err = None"
      by (rule Cons.IH [of None ms1 t1 "s + length b div 512"]) (use Cons.prems(2) in auto)
    then show ?thesis using one None
      by (intro Cons.prems(1) [of err t' ms' "Suc k"]) (cases segs; auto simp: drop_bit_eq_div)+
  qed
qed

section \<open>Copying out\<close>

lemma page_read_page:
  assumes "o' + n \<le> 4096"
  shows "page_read (disk_byte pp t) (4096 * i + o') n = page_read (page_of pp t i) o' n"
proof (rule nth_equalityI)
  fix j assume "j < length (page_read (disk_byte pp t) (4096 * i + o') n)"
  then have j: "j < n" by simp
  then have "(4096 * i + (o' + j)) div 4096 = i" "(4096 * i + (o' + j)) mod 4096 = o' + j"
    using assms by (auto intro: div_nat_eqI)
  then show "page_read (disk_byte pp t) (4096 * i + o') n ! j = page_read (page_of pp t i) o' n ! j"
    using j by (simp add: nth_page_read disk_byte_def add.assoc)
qed simp

lemma page_read_zero [simp]: "page_read zero_page o' n = replicate n 0"
  by (rule nth_equalityI) (auto simp: nth_page_read zero_page_def)

lemma first_part:
  "(case fmlookup t i of
      Some page \<Rightarrow> page_read page o' n
    | None \<Rightarrow> (case Option.bind pp (\<lambda>q. fmlookup q i) of
                Some page \<Rightarrow> page_read page o' n
              | None \<Rightarrow> replicate n 0)) = page_read (page_of pp t i) o' n"
  by (auto simp: page_of_def split: option.split)

text \<open>A read is plain if it stays in its page, or its second page is not taken from the parent.\<close>

definition read_fits :: "page_tree option \<Rightarrow> page_tree \<Rightarrow> nat \<Rightarrow> nat \<Rightarrow> bool" where
  "read_fits pp t s n \<longleftrightarrow> n \<le> PAGE_SIZE \<and>
     (page_offset s + n \<le> PAGE_SIZE \<or> fmlookup t (Suc (page_index s)) \<noteq> None \<or>
      Option.bind pp (\<lambda>q. fmlookup q (Suc (page_index s))) = None)"

lemma copy_from_brd_exact:
  assumes n: "n \<le> PAGE_SIZE"
  shows "copy_from_brd pp t s n =
    (let i = page_index s; off = page_offset s; c = PAGE_SIZE - off in
     if read_fits pp t s n then Some (page_read (disk_byte pp t) (512 * s) n)
     else if off + (n - c) > PAGE_SIZE then None
     else Some (page_read (disk_byte pp t) (512 * s) c @ page_read (page_of pp t (Suc i)) off (n - c)))"
proof -
  define i where "i = page_index s"
  define off where "off = page_offset s"
  define c where "c = PAGE_SIZE - off"
  have off: "off \<le> 3584" "off + c = 4096" using page_offset_le [of s] by (auto simp: off_def c_def)
  have addr: "512 * s = 4096 * i + off" by (simp add: i_def off_def sector_addr)
  have sec: "s + drop_bit SECTOR_SHIFT c = 8 * Suc (s div 8)"
    using second_page(2) [of s] by (simp add: c_def off_def)
  have idx: "page_index (8 * Suc (s div 8)) = Suc i" by (simp add: i_def page_index_div)
  show ?thesis
  proof (cases "off + n \<le> 4096")
    case True
    then have "min n (PAGE_SIZE - page_offset s) = n" by (simp add: off_def)
    then show ?thesis
      unfolding copy_from_brd_def brd_lookup_page_def Let_def first_part
      using True n page_read_page [OF True, of pp t i]
      by (simp add: read_fits_def addr flip: i_def off_def)
  next
    case False
    then have c: "c < n" "n - c \<le> 4096" "min n c = c" using off n by auto
    have m: "min n (PAGE_SIZE - off) = c" using c by (simp add: c_def)
    have cp: "copy_from_brd pp t s n =
      (let first = page_read (page_of pp t i) off c in
       case fmlookup t (Suc i) of
         Some page \<Rightarrow> Some (first @ page_read page 0 (n - c))
       | None \<Rightarrow> (case Option.bind pp (\<lambda>q. fmlookup q (Suc i)) of
           Some page \<Rightarrow> if off + (n - c) > PAGE_SIZE then None
                        else Some (first @ page_read page off (n - c))
         | None \<Rightarrow> Some (first @ replicate (n - c) 0)))"
      unfolding copy_from_brd_def brd_lookup_page_def Let_def first_part m sec idx
        i_def [symmetric] off_def [symmetric]
      using c by simp
    have one: "page_read (disk_byte pp t) (512 * s) c = page_read (page_of pp t i) off c"
      using page_read_page [of off c pp t i] off by (simp add: addr)
    have e: "512 * s + c = 4096 * Suc i + 0" using addr off by simp
    have two: "page_read (disk_byte pp t) (512 * s) n =
        page_read (page_of pp t i) off c @ page_read (page_of pp t (Suc i)) 0 (n - c)"
      using page_read_append [of "disk_byte pp t" "512 * s" c "n - c"] c one
        page_read_page [of 0 "n - c" pp t "Suc i"] unfolding e by simp
    show ?thesis
      unfolding Let_def i_def [symmetric] off_def [symmetric] c_def [symmetric] cp one
        page_of_def [of pp t "Suc i"] two read_fits_def
      using c n False by (auto split: option.split)
  qed
qed

fun reads_fit :: "page_tree option \<Rightarrow> page_tree \<Rightarrow> nat \<Rightarrow> byte list list \<Rightarrow> bool" where
  "reads_fit pp t s [] = True"
| "reads_fit pp t s (b # bs) =
     (read_fits pp t s (length b) \<and> 512 dvd length b \<and> reads_fit pp t (s + length b div 512) bs)"

lemma segment_loop_read:
  assumes "reads_fit pp t s segs"
  obtains segs' where
    "segment_loop K pp init ms t segs (READ K) s = Some (if segs = [] then init else None, t, segs', ms)"
    "concat segs' = page_read (disk_byte pp t) (512 * s) (length (concat segs))"
    "map length segs' = map length segs"
  using assms
proof (induction segs arbitrary: init s thesis)
  case Nil
  show ?case by (rule Nil(1) [of "[]"]) (auto simp: page_read_def)
next
  case (Cons b segs)
  have fits: "read_fits pp t s (length b)" "512 dvd length b" "length b \<le> PAGE_SIZE"
    using Cons.prems(2) by (auto simp: read_fits_def)
  obtain segs' where
    "segment_loop K pp None ms t segs (READ K) (s + length b div 512) =
       Some (None, t, segs', ms)"
    "concat segs' = page_read (disk_byte pp t) (512 * (s + length b div 512)) (length (concat segs))"
    "map length segs' = map length segs"
    by (rule Cons.IH [where s = "s + length b div 512" and init = None]) (use Cons.prems(2) in auto)
  moreover have "512 * (s + length b div 512) = 512 * s + length b"
    using fits(2) by (auto simp: distrib_left)
  ultimately show ?case
    using fits
    by (intro Cons.prems(1) [of "page_read (disk_byte pp t) (512 * s) (length b) # segs'"])
      (auto simp: brd_do_bvec_def copy_from_brd_exact Let_def drop_bit_eq_div page_read_append)
qed

section \<open>Discarding and freeing\<close>

text \<open>A discard zeroes the pages the device itself holds, from the page of the sector on.\<close>

lemma discard_from_brd_lookup:
  "fmlookup (discard_from_brd t s n) i =
     (if page_index s \<le> i \<and> i < page_index s + n div PAGE_SIZE
      then map_option (\<lambda>_. zero_page) (fmlookup t i) else fmlookup t i)"
proof (induction t s n rule: discard_from_brd.induct)
  case (1 t s n)
  show ?case
  proof (cases "PAGE_SIZE \<le> n")
    case True
    have "(n - 4096) div 4096 = n div 4096 - 1" "n div 4096 > 0"
      using True by (auto simp: div_greater_zero_iff le_div_geq)
    then have d: "n div 4096 = Suc ((n - 4096) div 4096)" by simp
    have z: "fmlookup (brd_zero_page t s) k =
        (if k = page_index s then map_option (\<lambda>_. zero_page) (fmlookup t k) else fmlookup t k)" for k
      by (auto simp: brd_zero_page_def brd_lookup_page_def split: option.splits)
    have p: "page_index (s + 8) = Suc (page_index s)"
      by (simp add: page_index_div)
    have "drop_bit SECTOR_SHIFT PAGE_SIZE = 8" by (simp add: drop_bit_eq_div)
    then show ?thesis
      unfolding discard_from_brd.simps [of t s n] using True 1 [OF True]
      by (auto simp: p z d option.map_comp comp_def)
  next
    case False
    then show ?thesis by (auto simp: discard_from_brd.simps [of t s n])
  qed
qed

lemma discard_byte:
  "disk_byte pp (discard_from_brd t s n) a =
     (if page_index s \<le> a div PAGE_SIZE \<and> a div PAGE_SIZE < page_index s + n div PAGE_SIZE \<and>
         fmlookup t (a div PAGE_SIZE) \<noteq> None
      then 0 else disk_byte pp t a)"
  by (auto simp: disk_byte_def page_of_def discard_from_brd_lookup zero_page_def split: option.split)

text \<open>
  The loop of \<open>brd_free_pages\<close> leaves no page at an index from \<open>pos\<close> on: a batch that is not full
  holds all that is left, and a full one ends below the next \<open>pos\<close>.
\<close>

lemma sorted_filter_take:
  fixes xs :: "nat list"
  assumes "sorted xs" "x \<in> set xs" "x \<notin> set (take k xs)" "y \<in> set (take k xs)"
  shows "y \<le> x"
proof -
  have "x \<in> set (drop k xs)" using assms(2,3) by (metis Un_iff append_take_drop_id set_append)
  moreover have "\<forall>a\<in>set (take k xs). \<forall>b\<in>set (drop k xs). a \<le> b"
    using assms(1) sorted_append [of "take k xs" "drop k xs"] by simp
  ultimately show ?thesis using assms(4) by simp
qed

lemma free_pages_loop_dom:
  "fmdom' (free_pages_loop t pos) = {k \<in> fmdom' t. k < pos}"
proof (induction t pos rule: free_pages_loop.induct)
  case (1 t pos)
  define pages where "pages = gang_lookup t pos"
  define t' where "t' = fold fmdrop pages t"
  define pos' where "pos' = (if pages = [] then pos else last pages) + 1"
  let ?all = "filter (\<lambda>k. pos \<le> k) (sorted_list_of_set (fmdom' t))"
  have fin: "finite (fmdom' t)" by simp
  have all: "set ?all = {k \<in> fmdom' t. pos \<le> k}" "sorted ?all"
    using fin by (auto intro: sorted_filter [where f = "\<lambda>x. x", simplified])
  have pages: "pages = take FREE_BATCH ?all" by (simp add: pages_def gang_lookup_def)
  have sub: "set pages \<subseteq> {k \<in> fmdom' t. pos \<le> k}" using all(1) pages by (metis set_take_subset)
  have dom': "fmdom' t' = fmdom' t - set pages" by (simp add: t'_def)
  have eq: "free_pages_loop t pos = (if length pages = FREE_BATCH then free_pages_loop t' pos' else t')"
    unfolding free_pages_loop.simps [of t pos] Let_def pages_def t'_def pos'_def by (rule refl)
  show ?case
  proof (cases "length pages = FREE_BATCH")
    case True
    then have ne: "pages \<noteq> []" by (auto simp: FREE_BATCH_def)
    then have last: "last pages \<in> set pages" "pos' = Suc (last pages)" by (simp_all add: pos'_def)
    have "fmdom' (free_pages_loop t pos) = {k \<in> fmdom' t'. k < pos'}"
      using 1 [OF pages_def t'_def pos'_def True] True by (simp add: eq)
    also have "\<dots> = {k \<in> fmdom' t. k < pos}"
    proof -
      have "k < pos" if k: "k \<in> fmdom' t" "k \<notin> set pages" "k < pos'" for k
      proof (rule ccontr)
        assume "\<not> k < pos"
        then have "k \<in> set ?all" using k(1) all(1) by auto
        then have "last pages \<le> k"
          using sorted_filter_take [OF all(2), of k FREE_BATCH "last pages"] k(2) last(1)
          by (simp add: pages)
        then show False using k(2,3) last by (metis le_less_Suc_eq)
      qed
      moreover have "pos < pos'" using last sub by auto
      ultimately show ?thesis using sub by (auto simp: dom')
    qed
    finally show ?thesis .
  next
    case False
    then have "pages = ?all" by (simp add: pages FREE_BATCH_def min_def split: if_splits)
    then have "fmdom' t' = {k \<in> fmdom' t. k < pos}" using all(1) by (auto simp: dom')
    then show ?thesis using False by (simp add: eq)
  qed
qed

lemma fmdom'_empty_iff: "fmdom' t = {} \<longleftrightarrow> t = fmempty"
proof
  assume e: "fmdom' t = {}"
  have "fmlookup t k = fmlookup fmempty k" for k
    using e fmlookup_dom'_iff [of k t] by (cases "fmlookup t k") auto
  then show "t = fmempty" by (rule fmap_ext)
qed simp

lemma brd_free_pages_empty [simp]: "brd_free_pages t = fmempty"
  using free_pages_loop_dom [of t 0] by (simp add: brd_free_pages_def flip: fmdom'_empty_iff)

lemma disk_byte_empty: "disk_byte (Some q) fmempty = disk_byte None q" "disk_byte None fmempty a = 0"
  by (auto simp: disk_byte_def page_of_def zero_page_def split: option.split intro!: ext)

section \<open>Requests\<close>

text \<open>A write request the driver gets past its checks with, and the same for a read.\<close>

definition write_request :: "req_flags \<Rightarrow> kernel_api \<Rightarrow> brd_device \<Rightarrow> bio \<Rightarrow> bool" where
  "write_request R K brd b \<longleftrightarrow>
     bio_end_sector b \<le> capacity brd \<and> is_writable brd \<and>
     \<not> has_mask (bio_flags b) (REQ_DISCARD R) \<and>
     bio_rw K (bio_flags b) \<noteq> READ K \<and> bio_rw K (bio_flags b) \<noteq> READA K"

definition read_request :: "req_flags \<Rightarrow> kernel_api \<Rightarrow> brd_device \<Rightarrow> bio \<Rightarrow> bool" where
  "read_request R K brd b \<longleftrightarrow>
     bio_end_sector b \<le> capacity brd \<and> \<not> has_mask (bio_flags b) (WRITE K) \<and>
     \<not> has_mask (bio_flags b) (REQ_DISCARD R) \<and>
     bio_rw K (bio_flags b) \<in> {READ K, READA K}"

text \<open>The flags of the witnesses: a read, a read ahead, a write.\<close>

definition sample_kernel :: kernel_api where
  "sample_kernel = \<lparr>READ = 0, READA = 0x2000, WRITE = 1, bio_rw = (\<lambda>w. if has_mask w 1 then 1 else if has_mask w 0x2000 then 0x2000 else 0),
     DISK_MAX_PARTS = 256, MINORBITS = 20, RAMDISK_MAJOR = 1,
     fls = (\<lambda>n. length (takeWhile (\<lambda>k. 2 ^ k \<le> n) [0..<32]))\<rparr>"

definition sample_brd :: "bool \<Rightarrow> brd_device" where
  "sample_brd snap = \<lparr>brd_number = (if snap then 1 else 0), parent_brd = (if snap then Some 0 else None),
     is_writable = True, is_snapshot = snap, disk_name = ''cow_ram'', first_minor = 0,
     capacity = 64, brd_pages = fmempty\<rparr>"

lemma sample_brd_simps [simp]:
  "capacity (sample_brd snap) = 64" "is_writable (sample_brd snap)" "is_snapshot (sample_brd snap) = snap"
  "brd_pages (sample_brd snap) = fmempty" "brd_number (sample_brd False) = 0"
  "brd_number (sample_brd True) = 1" "parent_brd (sample_brd True) = Some 0"
  "parent_brd (sample_brd False) = None"
  by (simp_all add: sample_brd_def)

definition sample_bio :: "bool \<Rightarrow> nat \<Rightarrow> byte list list \<Rightarrow> bio" where
  "sample_bio wr s segs = \<lparr>bio_sector = s, bio_flags = (if wr then 1 else 0),
     bio_size = length (concat segs), bio_segs = segs\<rparr>"

lemma write_request_content:
  assumes "write_request R K brd b" "bio_segs b \<noteq> []" "segs_fit pp (bio_sector b) (bio_segs b)"
  shows "\<exists>err brd' k. brd_make_request R K pp ms brd b = Some (err, brd', b) \<and>
    brd' = brd\<lparr>brd_pages := brd_pages brd'\<rparr> \<and>
    disk_byte pp (brd_pages brd') =
      page_write (disk_byte pp (brd_pages brd)) (512 * bio_sector b) (concat (take k (bio_segs b))) \<and>
    (err = None \<and> k = length (bio_segs b) \<or> err = Some ENOMEM \<and> ms \<noteq> [] \<and> k < length (bio_segs b))"
proof -
  have rw: "bio_rw K (bio_flags b) \<noteq> READ K" "bio_rw K (bio_flags b) \<noteq> READA K"
    using assms(1) by (auto simp: write_request_def)
  obtain err t' ms' k
    where loop: "segment_loop K pp (Some EIO) ms (brd_pages brd) (bio_segs b)
        (bio_rw K (bio_flags b)) (bio_sector b) = Some (err, t', bio_segs b, ms')"
      "disk_byte pp t' =
        write_segs pp (disk_byte pp (brd_pages brd)) (bio_sector b) (take k (bio_segs b))"
      "err = None \<and> k = length (bio_segs b) \<or> err = Some ENOMEM \<and> k < length (bio_segs b)"
      "ms = [] \<Longrightarrow> err = None"
    by (rule segment_loop_write [OF rw(1), of "bio_segs b" pp "Some EIO" ms "brd_pages brd" "bio_sector b"])
      (use assms(2,3) segs_fit_length in auto)
  have "brd_make_request R K pp ms brd b = Some (err, brd\<lparr>brd_pages := t'\<rparr>, b)"
    using assms(1) rw loop(1) by (auto simp: brd_make_request_def write_request_def Let_def)
  moreover have "disk_byte pp t' = page_write (disk_byte pp (brd_pages brd)) (512 * bio_sector b)
      (concat (take k (bio_segs b)))"
    using loop(2) write_segs_concat [OF segs_fit_take [OF assms(3)]] by simp
  ultimately show ?thesis using loop(3,4) by (intro exI [of _ err] exI [of _ k] exI) auto
qed



lemma read_request_content:
  assumes "read_request R K brd b" "bio_segs b \<noteq> []"
    "reads_fit pp (brd_pages brd) (bio_sector b) (bio_segs b)"
  shows "\<exists>segs'. brd_make_request R K pp ms brd b = Some (None, brd, b\<lparr>bio_segs := segs'\<rparr>) \<and>
    concat segs' = page_read (disk_byte pp (brd_pages brd)) (512 * bio_sector b)
      (length (concat (bio_segs b))) \<and>
    map length segs' = map length (bio_segs b)"
proof -
  obtain segs' where "segment_loop K pp (Some EIO) ms (brd_pages brd) (bio_segs b) (READ K)
      (bio_sector b) = Some (if bio_segs b = [] then Some EIO else None, brd_pages brd, segs', ms)"
    "concat segs' = page_read (disk_byte pp (brd_pages brd)) (512 * bio_sector b)
      (length (concat (bio_segs b)))"
    "map length segs' = map length (bio_segs b)"
    by (rule segment_loop_read [OF assms(3), of K "Some EIO" ms])
  then show ?thesis
    using assms(1,2) by (auto simp: brd_make_request_def read_request_def Let_def)
qed



text \<open>
  A discard on a writable device zeroes exactly the pages the device itself holds among the
  \<open>size / 4096\<close> pages from the page of the sector on.  A page a snapshot has not copied keeps
  showing the parent's bytes.
\<close>

theorem discard_request_zeroes:
  assumes "bio_end_sector b \<le> capacity brd" "is_writable brd"
    "has_mask (bio_flags b) (REQ_DISCARD R)"
  shows "\<exists>brd'. brd_make_request R K pp ms brd b = Some (None, brd', b) \<and>
    brd' = brd\<lparr>brd_pages := brd_pages brd'\<rparr> \<and>
    (\<forall>a. disk_byte pp (brd_pages brd') a =
      (if page_index (bio_sector b) \<le> a div PAGE_SIZE \<and>
          a div PAGE_SIZE < page_index (bio_sector b) + bio_size b div PAGE_SIZE \<and>
          fmlookup (brd_pages brd) (a div PAGE_SIZE) \<noteq> None
       then 0 else disk_byte pp (brd_pages brd) a))"
  using assms by (simp add: brd_make_request_def discard_byte Let_def)

theorem discard_request_zeroes_witness:
  "\<exists>brd'. brd_make_request flag_names_req sample_kernel (Some (fmupd 1 (\<lambda>_. 7) fmempty)) []
      (sample_brd True) ((sample_bio True 8 [])\<lparr>bio_flags := 0x80, bio_size := 4096\<rparr>) =
    Some (None, brd', (sample_bio True 8 [])\<lparr>bio_flags := 0x80, bio_size := 4096\<rparr>) \<and>
    disk_byte (Some (fmupd 1 (\<lambda>_. 7) fmempty)) (brd_pages brd') 4096 = 7"
proof -
  have "disk_byte (Some (fmupd 1 (\<lambda>_. 7) fmempty)) fmempty 4096 = 7"
    by (simp add: disk_byte_def page_of_def)
  then show ?thesis
  using discard_request_zeroes [of "(sample_bio True 8 [])\<lparr>bio_flags := 0x80, bio_size := 4096\<rparr>"
      "sample_brd True" flag_names_req sample_kernel "Some (fmupd 1 (\<lambda>_. 7) fmempty)" "[]"]
  by (auto simp: sample_bio_def bio_end_sector_def drop_bit_eq_div)
qed

text \<open>
  A write to a snapshot that crosses into a page the parent holds takes the rest of that page
  back to the parent's bytes, even where the snapshot had been written before.
\<close>

theorem crossing_write_reverts:
  assumes "write_request R K brd b" "bio_segs b = [src]" "length src \<le> PAGE_SIZE"
    "PAGE_SIZE < page_offset (bio_sector b) + length src"
    "fmlookup q (Suc (page_index (bio_sector b))) = Some p"
  shows "\<exists>brd'. brd_make_request R K (Some q) [] brd b = Some (None, brd', b) \<and>
    (\<forall>a. 512 * bio_sector b + length src \<le> a \<and> a < PAGE_SIZE * (page_index (bio_sector b) + 2)
      \<longrightarrow> disk_byte (Some q) (brd_pages brd') a = p (a mod PAGE_SIZE))"
proof -
  have rw: "bio_rw K (bio_flags b) \<noteq> READ K" "bio_rw K (bio_flags b) \<noteq> READA K"
    using assms(1) by (auto simp: write_request_def)
  obtain err t' ms' where
    "brd_do_bvec K (Some q) [] (brd_pages brd) src (bio_rw K (bio_flags b)) (bio_sector b) =
      Some (err, t', src, ms')"
    "err = None"
    "disk_byte (Some q) t' = boundary_write (Some q) (disk_byte (Some q) (brd_pages brd)) (bio_sector b) src"
    using do_bvec_write [OF rw(1) assms(3), of "Some q" "[]" "brd_pages brd" "bio_sector b"] by blast
  moreover from this assms(2) rw have
    "brd_make_request R K (Some q) [] brd b = Some (None, brd\<lparr>brd_pages := t'\<rparr>, b)"
    using assms(1) by (auto simp: brd_make_request_def write_request_def Let_def)
  ultimately show ?thesis using assms(4,5) by (auto simp: boundary_write_def Let_def)
qed

theorem crossing_write_reverts_witness:
  "\<exists>brd'. brd_make_request flag_names_req sample_kernel (Some (fmupd 1 (\<lambda>_. 7) fmempty)) []
      ((sample_brd True)\<lparr>brd_pages := fmupd 1 (\<lambda>_. 9) fmempty\<rparr>) (sample_bio True 7 [replicate 1024 1]) =
    Some (None, brd', sample_bio True 7 [replicate 1024 1]) \<and>
    disk_byte (Some (fmupd 1 (\<lambda>_. 7) fmempty)) (brd_pages brd') 5000 = 7"
  using crossing_write_reverts [of flag_names_req sample_kernel
      "(sample_brd True)\<lparr>brd_pages := fmupd 1 (\<lambda>_. 9) fmempty\<rparr>" "sample_bio True 7 [replicate 1024 1]"
      "replicate 1024 1" "fmupd 1 (\<lambda>_. 7) fmempty" "\<lambda>_. 7"]
  by (auto simp: write_request_def sample_bio_def sample_kernel_def bio_end_sector_def
      drop_bit_eq_div page_index_div page_offset_mod)

text \<open>
  A read from a snapshot that crosses into a page only the parent holds gets that page's
  bytes from the offset of the first page on, not from its start.
\<close>

theorem crossing_read_shifted:
  assumes "n \<le> PAGE_SIZE" "c = PAGE_SIZE - page_offset s" "c < n"
    "fmlookup t (Suc (page_index s)) = None" "fmlookup q (Suc (page_index s)) = Some p"
    "page_offset s + (n - c) \<le> PAGE_SIZE"
  shows "copy_from_brd (Some q) t s n =
    Some (page_read (disk_byte (Some q) t) (512 * s) c @ page_read p (page_offset s) (n - c))"
proof -
  have "\<not> read_fits (Some q) t s n"
    using assms page_offset_le [of s] by (auto simp: read_fits_def)
  moreover have "page_of (Some q) t (Suc (page_index s)) = p"
    using assms(4,5) by (simp add: page_of_def)
  ultimately show ?thesis
    using assms(2,6) by (simp add: copy_from_brd_exact [OF assms(1)] Let_def)
qed

theorem crossing_read_shifted_witness:
  "copy_from_brd (Some (fmupd 1 (\<lambda>i. of_nat (i div 512)) fmempty)) fmempty 7 1024 =
     Some (replicate 512 0 @ replicate 512 7)"
proof -
  let ?p = "\<lambda>i. of_nat (i div 512) :: byte"
  have e: "(3584 + i) div 512 = 7" if "i < 512" for i :: nat
    by (rule div_nat_eqI) (use that in auto)
  have "page_read ?p 3584 512 = replicate 512 7"
    by (rule nth_equalityI) (auto simp: nth_page_read e)
  moreover have "page_read (disk_byte (Some (fmupd 1 ?p fmempty)) fmempty) 3584 512 = replicate 512 0"
    by (rule nth_equalityI) (auto simp: nth_page_read disk_byte_def page_of_def zero_page_def)
  ultimately show ?thesis
    using crossing_read_shifted [of 1024 512 7 fmempty "fmupd 1 ?p fmempty" ?p]
    by (simp add: page_offset_mod page_index_div)
qed

end
