(* ===== verification/Cow_Brd_Steps.thy ===== *)
theory Cow_Brd_Steps
  imports Cow_Brd_Store
begin

text \<open>
  The devices of \<open>Cow_Brd\<close> together, as a state machine: requests and ioctls on any device, in
  any order.  \<open>brd_inv\<close> is what module initialisation establishes and every operation keeps;
  the locale \<open>snapshot_system\<close> is the contract the harness relies on: while the base disk is
  frozen nothing changes it, and a restored snapshot shows it again.
\<close>

section \<open>Frames\<close>

lemma segment_loop_read_frame:
  "segment_loop K pp e ms t segs (READ K) s = Some (err, t', segs', ms') \<Longrightarrow> t' = t"
  by (induction segs arbitrary: e ms s err segs' ms')
    (fastforce simp: brd_do_bvec_def split: option.splits)+

lemma brd_make_request_frame:
  assumes "brd_make_request R K pp ms brd b = Some (err, brd', b')"
  shows "brd' = brd\<lparr>brd_pages := brd_pages brd'\<rparr>"
  using assms by (auto simp: brd_make_request_def Let_def split: if_splits)

text \<open>The kernel sets \<open>WRITE\<close> in every request that is neither a read nor a read ahead.\<close>

definition rw_ok :: "kernel_api \<Rightarrow> bool" where
  "rw_ok K \<longleftrightarrow> (\<forall>w. \<not> has_mask w (WRITE K) \<longrightarrow> bio_rw K w \<in> {READ K, READA K})"

lemma brd_make_request_not_writable:
  assumes "brd_make_request R K pp ms brd b = Some (err, brd', b')" "\<not> is_writable brd" "rw_ok K"
  shows "brd' = brd"
proof (cases "has_mask (bio_flags b) (WRITE K) \<or> has_mask (bio_flags b) (REQ_DISCARD R) \<or>
    bio_end_sector b > capacity brd")
  case True
  then show ?thesis using assms(1,2) by (auto simp: brd_make_request_def Let_def split: if_splits)
next
  case False
  then have "bio_rw K (bio_flags b) \<in> {READ K, READA K}" using assms(3) by (auto simp: rw_ok_def)
  then have "(if bio_rw K (bio_flags b) = READA K then READ K else bio_rw K (bio_flags b)) = READ K"
    by auto
  then show ?thesis
    using False assms(1) segment_loop_read_frame
    by (auto simp: brd_make_request_def Let_def simp del: if_split)
qed

lemma brd_cmds_distinct [simp]:
  "COW_BRD_SNAPSHOT \<noteq> COW_BRD_UNSNAPSHOT" "COW_BRD_SNAPSHOT \<noteq> COW_BRD_RESTORE_SNAPSHOT"
  "COW_BRD_SNAPSHOT \<noteq> COW_BRD_WIPE" "COW_BRD_UNSNAPSHOT \<noteq> COW_BRD_SNAPSHOT"
  "COW_BRD_UNSNAPSHOT \<noteq> COW_BRD_RESTORE_SNAPSHOT" "COW_BRD_UNSNAPSHOT \<noteq> COW_BRD_WIPE"
  "COW_BRD_RESTORE_SNAPSHOT \<noteq> COW_BRD_SNAPSHOT" "COW_BRD_RESTORE_SNAPSHOT \<noteq> COW_BRD_UNSNAPSHOT"
  "COW_BRD_RESTORE_SNAPSHOT \<noteq> COW_BRD_WIPE" "COW_BRD_WIPE \<noteq> COW_BRD_SNAPSHOT"
  "COW_BRD_WIPE \<noteq> COW_BRD_UNSNAPSHOT" "COW_BRD_WIPE \<noteq> COW_BRD_RESTORE_SNAPSHOT"
  by (simp_all add: brd_cmds)

lemma brd_ioctl_cases:
  "brd_ioctl brd cmd =
    (if cmd \<in> {COW_BRD_SNAPSHOT, COW_BRD_UNSNAPSHOT, COW_BRD_WIPE} \<and> \<not> is_snapshot brd \<or>
        cmd = COW_BRD_RESTORE_SNAPSHOT \<and> is_snapshot brd
     then (None, if cmd = COW_BRD_SNAPSHOT then brd\<lparr>is_writable := False\<rparr>
                 else if cmd = COW_BRD_UNSNAPSHOT then brd\<lparr>is_writable := True\<rparr>
                 else brd\<lparr>brd_pages := fmempty\<rparr>)
     else (Some ENOTTY, brd))"
  by (auto simp: brd_ioctl_def)

section \<open>The table of devices\<close>

lemma find_brd_number: "find_brd devs i = Some d \<Longrightarrow> d \<in> set devs \<and> brd_number d = i"
  by (auto simp: find_brd_def find_Some_iff)

lemma find_brd_None: "find_brd devs i = None \<longleftrightarrow> i \<notin> brd_number ` set devs"
  by (auto simp: find_brd_def find_None_iff)

lemma find_brd_append:
  "find_brd (xs @ ys) i = (case find_brd xs i of None \<Rightarrow> find_brd ys i | Some d \<Rightarrow> Some d)"
  by (induction xs) (auto simp: find_brd_def)

lemma find_upd_brd:
  "find_brd (upd_brd devs d) i =
    (if i = brd_number d then map_option (\<lambda>_. d) (find_brd devs i) else find_brd devs i)"
  by (induction devs) (auto simp: find_brd_def upd_brd_def)

lemma upd_brd_numbers [simp]: "map brd_number (upd_brd devs d) = map brd_number devs"
  by (simp add: upd_brd_def)

definition brd_inv :: "brd_device list \<Rightarrow> bool" where
  "brd_inv devs \<longleftrightarrow> distinct (map brd_number devs) \<and>
     (\<forall>d\<in>set devs. case parent_brd d of
        None \<Rightarrow> \<not> is_snapshot d
      | Some i \<Rightarrow> is_snapshot d \<and>
          (case find_brd devs i of None \<Rightarrow> False | Some p \<Rightarrow> \<not> is_snapshot p))"

lemma find_brd_same:
  "distinct (map brd_number devs) \<Longrightarrow> d \<in> set devs \<Longrightarrow> find_brd devs (brd_number d) = Some d"
proof (induction devs)
  case (Cons a devs)
  then show ?case by (auto simp: find_brd_def rev_image_eqI)
qed simp

section \<open>Events\<close>

text \<open>A request to a device, with the outcomes of its allocations, or an ioctl.\<close>

datatype brd_event = Request nat "bool list" bio | Ioctl nat u32

definition run_event :: "req_flags \<Rightarrow> kernel_api \<Rightarrow> brd_event \<Rightarrow> brd_device list
    \<Rightarrow> (errno option \<times> brd_device list) option" where
  "run_event R K e devs =
     (case e of
        Request i ms b \<Rightarrow>
          Option.bind (find_brd devs i)
            (\<lambda>d. map_option (\<lambda>(err, d', b'). (err, upd_brd devs d'))
                  (brd_make_request R K (parent_tree devs d) ms d b))
      | Ioctl i cmd \<Rightarrow>
          map_option (\<lambda>d. let (err, d') = brd_ioctl d cmd in (err, upd_brd devs d'))
            (find_brd devs i))"

inductive brd_reach :: "req_flags \<Rightarrow> kernel_api \<Rightarrow> brd_device list \<Rightarrow> brd_device list \<Rightarrow> bool"
  for R K devs0 where
  start: "brd_reach R K devs0 devs0"
| event: "brd_reach R K devs0 devs \<Longrightarrow> run_event R K e devs = Some (err, devs') \<Longrightarrow>
    brd_reach R K devs0 devs'"

text \<open>What an event does: it replaces one device, of the same number, kind and parent.\<close>

lemma run_event_replaces:
  assumes "run_event R K e devs = Some (err, devs')"
  obtains i d d' where "find_brd devs i = Some d" "devs' = upd_brd devs d'"
    "brd_number d' = brd_number d" "parent_brd d' = parent_brd d" "is_snapshot d' = is_snapshot d"
    "(\<exists>cmd. e = Ioctl i cmd \<and> brd_ioctl d cmd = (err, d')) \<or>
     (\<exists>ms b b'. e = Request i ms b \<and>
        brd_make_request R K (parent_tree devs d) ms d b = Some (err, d', b'))"
proof (cases e)
  case (Request i ms b)
  then obtain d d' b' where d: "find_brd devs i = Some d"
    "brd_make_request R K (parent_tree devs d) ms d b = Some (err, d', b')" "devs' = upd_brd devs d'"
    using assms by (auto simp: run_event_def bind_eq_Some_conv)
  have "brd_number d' = brd_number d \<and> parent_brd d' = parent_brd d \<and> is_snapshot d' = is_snapshot d"
    by (subst (1 2 3) brd_make_request_frame [OF d(2)]) simp
  then show thesis using that d Request by blast
next
  case (Ioctl i cmd)
  then obtain d where f: "find_brd devs i = Some d"
    using assms by (auto simp: run_event_def)
  obtain err1 d' where "brd_ioctl d cmd = (err1, d')" by (cases "brd_ioctl d cmd")
  then have d: "find_brd devs i = Some d" "brd_ioctl d cmd = (err, d')" "devs' = upd_brd devs d'"
    using assms Ioctl f by (auto simp: run_event_def)
  then have "brd_number d' = brd_number d \<and> parent_brd d' = parent_brd d \<and> is_snapshot d' = is_snapshot d"
    by (auto simp: brd_ioctl_cases split: if_splits)
  then show thesis using that d Ioctl by metis
qed

section \<open>The invariant\<close>

lemma upd_brd_mem:
  assumes "distinct (map brd_number devs)" "find_brd devs i = Some d" "brd_number d' = brd_number d"
  shows "x \<in> set (upd_brd devs d') \<longleftrightarrow> x = d' \<or> x \<in> set devs \<and> brd_number x \<noteq> brd_number d"
proof -
  have d: "d \<in> set devs" using find_brd_number [OF assms(2)] by simp
  show ?thesis using assms(3) d by (auto simp: upd_brd_def image_iff split: if_splits)
qed

lemma upd_brd_inv:
  assumes "brd_inv devs" "find_brd devs i = Some d" "brd_number d' = brd_number d"
    "parent_brd d' = parent_brd d" "is_snapshot d' = is_snapshot d"
  shows "brd_inv (upd_brd devs d')"
proof -
  have dist: "distinct (map brd_number devs)" using assms(1) by (simp add: brd_inv_def)
  have num: "brd_number d = i" "d \<in> set devs" using find_brd_number [OF assms(2)] by auto
  let ?ok = "\<lambda>ds x. case parent_brd x of None \<Rightarrow> \<not> is_snapshot x
      | Some i \<Rightarrow> is_snapshot x \<and> (case find_brd ds i of None \<Rightarrow> False | Some p \<Rightarrow> \<not> is_snapshot p)"
  have keep: "?ok (upd_brd devs d') x" if "?ok devs x" for x
    using that assms(2,3,5) num(1)
    by (auto simp: find_upd_brd split: option.splits)
  have "?ok (upd_brd devs d') x" if "x \<in> set (upd_brd devs d')" for x
  proof -
    from that upd_brd_mem [OF dist assms(2,3)] consider "x = d'" | "x \<in> set devs" by blast
    then show ?thesis
    proof cases
      case 1
      have "?ok devs d" using assms(1) num by (simp add: brd_inv_def)
      then have "?ok devs d'" unfolding assms(4,5) .
      then show ?thesis using keep 1 by blast
    next
      case 2
      then have "?ok devs x" using assms(1) unfolding brd_inv_def by blast
      then show ?thesis by (rule keep)
    qed
  qed
  then show ?thesis using dist by (simp add: brd_inv_def)
qed

lemma run_event_inv: "brd_inv devs \<Longrightarrow> run_event R K e devs = Some (err, devs') \<Longrightarrow> brd_inv devs'"
  by (erule run_event_replaces) (use upd_brd_inv in metis)

section \<open>A frozen disk and its snapshots\<close>

definition brd_content :: "brd_device list \<Rightarrow> nat \<Rightarrow> nat \<Rightarrow> byte" where
  "brd_content devs i =
     (case find_brd devs i of
        None \<Rightarrow> (\<lambda>_. 0)
      | Some d \<Rightarrow> disk_byte (parent_tree devs d) (brd_pages d))"

text \<open>Device \<open>j\<close> is a disk its last snapshot ioctl froze, device \<open>i\<close> one of its snapshots.\<close>

definition frozen :: "nat \<Rightarrow> nat \<Rightarrow> brd_device list \<Rightarrow> bool" where
  "frozen j i devs \<longleftrightarrow> brd_inv devs \<and>
     (case find_brd devs j of None \<Rightarrow> False | Some d \<Rightarrow> \<not> is_writable d \<and> \<not> is_snapshot d) \<and>
     (case find_brd devs i of None \<Rightarrow> False | Some d \<Rightarrow> parent_brd d = Some j)"

definition keeps_frozen :: "nat \<Rightarrow> brd_event \<Rightarrow> bool" where
  "keeps_frozen j e \<longleftrightarrow> e \<noteq> Ioctl j COW_BRD_UNSNAPSHOT \<and> e \<noteq> Ioctl j COW_BRD_WIPE"

lemma disk_content:
  "brd_inv devs \<Longrightarrow> find_brd devs j = Some d \<Longrightarrow> \<not> is_snapshot d \<Longrightarrow>
    brd_content devs j = disk_byte None (brd_pages d)"
  using find_brd_number [of devs j d]
  by (cases "parent_brd d") (force simp: brd_inv_def brd_content_def parent_tree_def)+

lemma frozen_event:
  assumes "frozen j i devs" "keeps_frozen j e" "run_event R K e devs = Some (err, devs')" "rw_ok K"
  shows "frozen j i devs' \<and> brd_content devs' j = brd_content devs j"
proof -
  obtain dj di where dj: "find_brd devs j = Some dj" "\<not> is_writable dj" "\<not> is_snapshot dj"
    and di: "find_brd devs i = Some di" "parent_brd di = Some j" and inv: "brd_inv devs"
    using assms(1) by (auto simp: frozen_def split: option.splits)
  obtain k d d' where r: "find_brd devs k = Some d" "devs' = upd_brd devs d'"
    "brd_number d' = brd_number d" "parent_brd d' = parent_brd d" "is_snapshot d' = is_snapshot d"
    "(\<exists>cmd. e = Ioctl k cmd \<and> brd_ioctl d cmd = (err, d')) \<or>
     (\<exists>ms b b'. e = Request k ms b \<and>
        brd_make_request R K (parent_tree devs d) ms d b = Some (err, d', b'))"
    by (rule run_event_replaces [OF assms(3)])
  have inv': "brd_inv devs'" by (rule run_event_inv [OF inv assms(3)])
  have k: "brd_number d' = k" using r(1,3) find_brd_number by metis
  have same: "\<not> is_writable d' \<and> brd_pages d' = brd_pages dj" if "k = j"
  proof -
    have d: "d = dj" using that r(1) dj(1) by simp
    from r(6) show ?thesis
    proof (elim disjE exE conjE)
      fix cmd assume "e = Ioctl k cmd" "brd_ioctl d cmd = (err, d')"
      then show ?thesis
        using dj assms(2) that by (auto simp: d brd_ioctl_cases keeps_frozen_def split: if_splits)
    next
      fix ms b b' assume "brd_make_request R K (parent_tree devs d) ms d b = Some (err, d', b')"
      then have "d' = dj" using brd_make_request_not_writable [OF _ _ assms(4)] dj(2) d by blast
      then show ?thesis using dj(2) by simp
    qed
  qed
  obtain dj' where j: "find_brd devs' j = Some dj'" "\<not> is_writable dj'" "\<not> is_snapshot dj'"
    "brd_pages dj' = brd_pages dj"
  proof (cases "k = j")
    case True
    then show thesis using that [of d'] dj r(1,2,5) k same by (simp add: find_upd_brd)
  next
    case False
    then show thesis using that [of dj] dj r(2) k by (simp add: find_upd_brd)
  qed
  have "find_brd devs' i \<noteq> None \<and> parent_brd (the (find_brd devs' i)) = Some j"
    using di r(1,2,4) k by (auto simp: find_upd_brd)
  then have "frozen j i devs'" using inv' j by (auto simp: frozen_def)
  moreover have "brd_content devs' j = brd_content devs j"
    using disk_content [OF inv' j(1,3)] disk_content [OF inv dj(1,3)] j(4) by simp
  ultimately show ?thesis by simp
qed

lemma restore_event:
  assumes "frozen j i devs" "run_event R K (Ioctl i COW_BRD_RESTORE_SNAPSHOT) devs = Some (err, devs')"
  shows "err = None \<and> brd_content devs' i = brd_content devs' j"
proof -
  obtain dj di where dj: "find_brd devs j = Some dj" "\<not> is_snapshot dj"
    and di: "find_brd devs i = Some di" "parent_brd di = Some j" and inv: "brd_inv devs"
    using assms(1) by (auto simp: frozen_def split: option.splits)
  have "is_snapshot di" using inv di find_brd_number [OF di(1)] by (auto simp: brd_inv_def split: option.splits)
  then have e: "err = None" "devs' = upd_brd devs (di\<lparr>brd_pages := fmempty\<rparr>)"
    using assms(2) di by (auto simp: run_event_def brd_ioctl_cases)
  have n: "brd_number di = i" "i \<noteq> j"
    using find_brd_number [OF di(1)] di(1) dj \<open>is_snapshot di\<close> by auto
  have inv': "brd_inv devs'" unfolding e(2) by (rule upd_brd_inv [OF inv di(1)]) simp_all
  have "find_brd devs' j = Some dj" "find_brd devs' i = Some (di\<lparr>brd_pages := fmempty\<rparr>)"
    using dj di n by (simp_all add: e(2) find_upd_brd)
  then show ?thesis
    using disk_content [OF inv' _ dj(2)] di(2) e(1)
    by (simp add: brd_content_def [of devs' i] parent_tree_def disk_byte_empty)
qed

section \<open>The contract of a snapshot device\<close>

text \<open>
  What the harness relies on when it replays crash states: a system in which \<open>ok\<close> states keep the
  base, whatever allowed events happen, and a restored snapshot shows the base.
\<close>

locale snapshot_system =
  fixes step :: "'e \<Rightarrow> 's \<Rightarrow> ('r \<times> 's) option"
    and ok :: "'s \<Rightarrow> bool"
    and allowed :: "'e \<Rightarrow> bool"
    and base :: "'s \<Rightarrow> nat \<Rightarrow> byte"
    and snap :: "'s \<Rightarrow> nat \<Rightarrow> byte"
    and restore :: 'e
  assumes step_ok: "ok s \<Longrightarrow> allowed e \<Longrightarrow> step e s = Some (r, s') \<Longrightarrow> ok s'"
    and step_base: "ok s \<Longrightarrow> allowed e \<Longrightarrow> step e s = Some (r, s') \<Longrightarrow> base s' = base s"
    and restore_allowed: "allowed restore"
    and restore_snap: "ok s \<Longrightarrow> step restore s = Some (r, s') \<Longrightarrow> snap s' = base s'"
begin

inductive run :: "'s \<Rightarrow> 's \<Rightarrow> bool" where
  run_refl: "run s s"
| run_step: "run s s' \<Longrightarrow> allowed e \<Longrightarrow> step e s' = Some (r, s'') \<Longrightarrow> run s s''"

lemma run_keeps: "run s s' \<Longrightarrow> ok s \<Longrightarrow> ok s' \<and> base s' = base s"
proof (induction rule: run.induct)
  case (run_step s s' e r s'')
  then show ?case using step_ok step_base by metis
qed simp

lemma run_then_restore:
  assumes "ok s" "run s s'" "step restore s' = Some (r, s'')"
  shows "snap s'' = base s"
proof -
  have "ok s'" "base s' = base s" using run_keeps [OF assms(2,1)] by auto
  then show ?thesis
    using restore_snap [OF _ assms(3)] step_base [OF _ restore_allowed assms(3)] by simp
qed

end

interpretation cow_snapshots: snapshot_system "run_event R K" "\<lambda>devs. frozen j i devs \<and> rw_ok K"
  "keeps_frozen j" "\<lambda>devs. brd_content devs j" "\<lambda>devs. brd_content devs i"
  "Ioctl i COW_BRD_RESTORE_SNAPSHOT" for R K j i
  by unfold_locales (use frozen_event restore_event in \<open>fastforce simp: keeps_frozen_def\<close>)+

text \<open>The events of a list, from left to right; a failed lookup or a \<open>BUG_ON\<close> is \<open>None\<close>.\<close>

fun run_events :: "req_flags \<Rightarrow> kernel_api \<Rightarrow> brd_event list \<Rightarrow> brd_device list
    \<Rightarrow> brd_device list option" where
  "run_events R K [] devs = Some devs"
| "run_events R K (e # es) devs =
     Option.bind (run_event R K e devs) (\<lambda>(_, devs'). run_events R K es devs')"

lemma run_events_run:
  assumes "run_events R K es devs = Some devs'" "\<forall>e\<in>set es. keeps_frozen j e"
  shows "snapshot_system.run (run_event R K) (keeps_frozen j) devs devs'"
proof -
  have "snapshot_system.run (run_event R K) (keeps_frozen j) devs0 devs'"
    if "snapshot_system.run (run_event R K) (keeps_frozen j) devs0 devs" for devs0
    using assms that
    by (induction es arbitrary: devs) (auto simp: bind_eq_Some_conv intro: cow_snapshots.run_step)
  then show ?thesis using cow_snapshots.run_refl by blast
qed

lemma run_events_inv: "run_events R K es devs = Some devs' \<Longrightarrow> brd_inv devs \<Longrightarrow> brd_inv devs'"
  by (induction es arbitrary: devs) (auto simp: bind_eq_Some_conv dest: run_event_inv)

section \<open>Module initialisation\<close>

text \<open>Device \<open>i\<close> of a module as \<open>brd_init\<close> leaves it.\<close>

definition fresh_device :: "brd_module \<Rightarrow> nat \<Rightarrow> brd_device" where
  "fresh_device M i =
     \<lparr>brd_number = i,
      parent_brd = (if i < num_disks M then None else Some (i mod num_disks M)),
      is_writable = True, is_snapshot = (i \<ge> num_disks M),
      disk_name = (if i \<ge> num_disks M
        then ''cow_ram_snapshot'' @ dec_string (i div num_disks M) @ ''_'' @
             dec_string (i mod num_disks M)
        else ''cow_ram'' @ dec_string i),
      first_minor = push_bit (part_shift M) i, capacity = disk_size M * 2, brd_pages = fmempty\<rparr>"

lemma brd_number_fresh [simp]: "brd_number (fresh_device M i) = i"
  by (simp add: fresh_device_def)

lemma find_fresh: "find_brd (map (fresh_device M) [0..<n]) i = (if i < n then Some (fresh_device M i) else None)"
  by (induction n) (auto simp: find_brd_append, auto simp: find_brd_def less_Suc_eq)

lemma set_parent_fresh:
  assumes "fst (brd_alloc M ms i) = Some brd" "num_disks M > 0"
  shows "set_parent M (map (fresh_device M) [0..<i] @ [brd]) brd = fresh_device M i"
proof -
  have b: "brd = fresh_device M i \<lparr>parent_brd := None\<rparr>"
    using assms(1) by (auto simp: brd_alloc_def fresh_device_def Let_def split: prod.splits if_splits)
  have "i mod num_disks M < i" if "num_disks M \<le> i"
    using assms(2) that by (meson le_trans mod_less_divisor not_less)
  then show ?thesis
    by (auto simp: set_parent_def Let_def b find_brd_append find_fresh fresh_device_def)
qed

lemma init_devices_prefix:
  assumes "num_disks M > 0"
  shows "\<exists>m ok. init_devices M ms (map (fresh_device M) [0..<n]) [n..<n + k] =
      (ok, map (fresh_device M) [0..<m]) \<and> n \<le> m \<and> m \<le> n + k \<and> ok = (m = n + k) \<and>
    (ms = [] \<longrightarrow> ok)"
proof (induction k arbitrary: n ms)
  case (Suc k)
  have up: "[n..<n + Suc k] = n # [Suc n..<Suc n + k]" by (simp add: upt_rec)
  obtain a ms1 where a: "brd_alloc M ms n = (a, ms1)" by (cases "brd_alloc M ms n")
  have e: "ms = [] \<Longrightarrow> a \<noteq> None \<and> ms1 = []" using a by (auto simp: brd_alloc_def Let_def)
  show ?case
  proof (cases a)
    case None
    then have "init_devices M ms (map (fresh_device M) [0..<n]) [n..<n + Suc k] =
        (False, map (fresh_device M) [0..<n])"
      unfolding up by (simp add: a)
    then show ?thesis using e None by (intro exI [of _ n] exI [of _ False]) auto
  next
    case (Some brd)
    then have "set_parent M (map (fresh_device M) [0..<n] @ [brd]) brd = fresh_device M n"
      using set_parent_fresh [of M ms n brd] a assms by simp
    then have "init_devices M ms (map (fresh_device M) [0..<n]) [n..<n + Suc k] =
        init_devices M ms1 (map (fresh_device M) [0..<Suc n]) [Suc n..<Suc n + k]"
      unfolding up by (simp add: a Some)
    moreover obtain m ok where "init_devices M ms1 (map (fresh_device M) [0..<Suc n]) [Suc n..<Suc n + k] =
        (ok, map (fresh_device M) [0..<m])" "Suc n \<le> m" "m \<le> Suc n + k" "ok = (m = Suc n + k)"
        "ms1 = [] \<longrightarrow> ok"
      using Suc.IH [of ms1 "Suc n"] by blast
    ultimately show ?thesis using e by (intro exI [of _ m] exI [of _ ok]) auto
  qed
qed auto

definition nr_devices :: "brd_module \<Rightarrow> nat" where
  "nr_devices M = num_disks M * (1 + num_snapshots M)"

text \<open>The module with the numbers \<open>brd_init\<close> derives from \<open>max_part\<close>.\<close>

definition with_parts :: "kernel_api \<Rightarrow> int \<Rightarrow> brd_module \<Rightarrow> brd_module" where
  "with_parts K major M =
     M\<lparr>major_num := major, major_registered := True,
       part_shift := (if max_part M > 0 then fls K (max_part M) else 0),
       max_part := (if max_part M > 0 then 2 ^ fls K (max_part M) - 1 else max_part M)\<rparr>"

definition minors_fit :: "kernel_api \<Rightarrow> brd_module \<Rightarrow> bool" where
  "minors_fit K M \<longleftrightarrow> 2 ^ part_shift M \<le> DISK_MAX_PARTS K \<and>
     nr_devices M \<le> 2 ^ (MINORBITS K - part_shift M)"

lemma brd_init_branches:
  "brd_init K major ms M =
    (let W = with_parts K major M; (ok, devs) = init_devices W ms (brd_devices M) [0..<nr_devices M] in
     if major \<le> 0 then (Some EIO, M\<lparr>major_num := major\<rparr>)
     else if \<not> minors_fit K W then (Some EINVAL, W)
     else if ok then (None, W\<lparr>brd_devices := devs, disks_added := map brd_number devs,
        region := Some (RAMDISK_MAJOR K, push_bit (part_shift W) (nr_devices M))\<rparr>)
     else (Some ENOMEM, W\<lparr>brd_devices := [], major_registered := False\<rparr>))"
proof -
  define W where "W = with_parts K major M"
  have W: "W = (let M2 = M\<lparr>major_num := major, major_registered := True, part_shift := 0\<rparr> in
      if max_part M2 > 0
      then (let ps = fls K (max_part M2) in M2\<lparr>part_shift := ps, max_part := 2 ^ ps - 1\<rparr>) else M2)"
    by (auto simp: W_def with_parts_def Let_def)
  have D: "brd_devices W = brd_devices M" "nr_devices W = nr_devices M"
    by (simp_all add: W_def with_parts_def nr_devices_def)
  have "brd_init K major ms M =
     (if major \<le> 0 then (Some EIO, M\<lparr>major_num := major\<rparr>)
      else if 2 ^ part_shift W > DISK_MAX_PARTS K then (Some EINVAL, W)
      else if nr_devices M > 2 ^ (MINORBITS K - part_shift W) then (Some EINVAL, W)
      else (let (ok, devs) = init_devices W ms (brd_devices W) [0..<nr_devices M] in
         if ok then (None, W\<lparr>brd_devices := devs, disks_added := map brd_number devs,
           region := Some (RAMDISK_MAJOR K, push_bit (part_shift W) (nr_devices M))\<rparr>)
         else (Some ENOMEM, W\<lparr>brd_devices := [], major_registered := False\<rparr>)))"
    unfolding brd_init_def nr_devices_def W Let_def by simp
  then show ?thesis
    by (auto simp: minors_fit_def D Let_def simp flip: W_def split: prod.splits)
qed

lemma fresh_devices_inv: "num_disks M > 0 \<Longrightarrow> brd_inv (map (fresh_device M) [0..<nr_devices M])"
proof -
  assume pos: "num_disks M > 0"
  have "i mod num_disks M < nr_devices M" for i
    using pos mod_less_divisor [OF pos, of i] by (simp add: nr_devices_def trans_less_add1)
  then show ?thesis
    using pos by (auto simp: brd_inv_def find_fresh comp_def fresh_device_def not_le split: option.splits)
qed

text \<open>
  \<open>brd_init\<close> on an empty device list either makes all \<open>num_disks * (1 + num_snapshots)\<close>
  devices, each with its name, kind and parent and registered with the kernel, or makes none, and
  with memory and minors enough it makes them.
\<close>

theorem brd_init_devices:
  assumes "brd_devices M = []" "major > 0"
  shows "\<exists>err M'. brd_init K major ms M = (err, M') \<and>
    (if err = None
     then brd_devices M' = map (fresh_device M') [0..<nr_devices M] \<and>
       disks_added M' = [0..<nr_devices M] \<and> major_registered M' \<and>
       num_disks M' = num_disks M \<and> num_snapshots M' = num_snapshots M
     else brd_devices M' = [] \<and> disks_added M' = disks_added M) \<and>
    (ms = [] \<and> minors_fit K (with_parts K major M) \<longrightarrow> err = None)"
proof (cases "num_disks M > 0")
  case True
  let ?W = "with_parts K major M"
  have W: "num_disks ?W = num_disks M" "num_snapshots ?W = num_snapshots M" "major_registered ?W"
    "disks_added ?W = disks_added M" "brd_devices ?W = []"
    using assms(1) by (simp_all add: with_parts_def)
  then obtain m ok where i: "init_devices ?W ms [] [0..<nr_devices M] = (ok, map (fresh_device ?W) [0..<m])"
    "ok = (m = nr_devices M)" "ms = [] \<longrightarrow> ok"
    using init_devices_prefix [of ?W ms 0 "nr_devices M"] True by auto
  have f: "fresh_device (?W\<lparr>brd_devices := d, disks_added := a, region := r\<rparr>) = fresh_device ?W" for d a r
    by (simp add: fresh_device_def fun_eq_iff)
  show ?thesis
    using assms i W by (auto simp: brd_init_branches Let_def f comp_def)
next
  case False
  then show ?thesis
    using assms by (auto simp: brd_init_branches Let_def nr_devices_def with_parts_def)
qed

definition sample_module :: brd_module where
  "sample_module = \<lparr>num_disks = 1, num_snapshots = 1, disk_size = 32, max_part = 0, part_shift = 0,
     major_num = 0, major_registered = False, region = None, brd_devices = [], disks_added = []\<rparr>"

lemma sample_module_simps [simp]:
  "brd_devices sample_module = []" "nr_devices sample_module = 2" "num_disks sample_module = 1"
  "minors_fit sample_kernel (with_parts sample_kernel major sample_module)"
  by (simp_all add: sample_module_def nr_devices_def minors_fit_def with_parts_def sample_kernel_def)

theorem brd_init_devices_witness:
  "\<exists>M'. brd_init sample_kernel 250 [] sample_module = (None, M') \<and>
    brd_devices M' = map (fresh_device M') [0..<2]"
  using brd_init_devices [of sample_module 250 sample_kernel "[]"] by auto

lemma brd_init_sample:
  "brd_devices (snd (brd_init sample_kernel 250 [] sample_module)) =
    map (fresh_device (with_parts sample_kernel 250 sample_module)) [0..<2]"
  by (simp add: brd_init_branches Let_def sample_module_def nr_devices_def minors_fit_def
      with_parts_def sample_kernel_def upt_rec brd_alloc_def set_parent_def find_brd_def fresh_device_def)

text \<open>
  C31: whatever requests and ioctls follow a successful \<open>brd_init\<close>, device numbers stay distinct,
  snapshots and only they have a parent, and every parent is a device of the list that is not a
  snapshot itself.
\<close>

theorem devices_stay_well_formed:
  assumes "brd_init K major ms M = (None, M')" "brd_devices M = []" "num_disks M > 0"
    "brd_reach R K (brd_devices M') devs"
  shows "distinct (map brd_number devs) \<and>
    (\<forall>d\<in>set devs. (parent_brd d \<noteq> None) = is_snapshot d \<and>
      (\<forall>i. parent_brd d = Some i \<longrightarrow> (\<exists>p\<in>set devs. brd_number p = i \<and> \<not> is_snapshot p)))"
proof -
  let ?W = "with_parts K major M"
  have W: "num_disks ?W = num_disks M" "nr_devices ?W = nr_devices M"
    by (simp_all add: with_parts_def nr_devices_def)
  obtain m ok where i: "init_devices ?W ms [] [0..<nr_devices M] = (ok, map (fresh_device ?W) [0..<m])"
    "ok = (m = nr_devices M)"
    using init_devices_prefix [of ?W ms 0 "nr_devices M"] assms(3) W by auto
  have "brd_devices M' = map (fresh_device ?W) [0..<nr_devices M]"
    using assms(1,2) i by (auto simp: brd_init_branches Let_def split: if_splits)
  then have start: "brd_inv (brd_devices M')" using fresh_devices_inv [of ?W] assms(3) W by simp
  from assms(4) start have inv: "brd_inv devs" by induction (auto dest: run_event_inv)
  have "(parent_brd d \<noteq> None) = is_snapshot d \<and>
      (\<forall>i. parent_brd d = Some i \<longrightarrow> (\<exists>p\<in>set devs. brd_number p = i \<and> \<not> is_snapshot p))"
    if "d \<in> set devs" for d
  proof (cases "parent_brd d")
    case None
    then show ?thesis using inv that by (fastforce simp: brd_inv_def)
  next
    case (Some i)
    then show ?thesis using inv that find_brd_number
      by (fastforce simp: brd_inv_def split: option.splits)
  qed
  then show ?thesis using inv by (simp add: brd_inv_def)
qed

theorem devices_stay_well_formed_witness:
  "distinct (map brd_number (brd_devices (snd (brd_init sample_kernel 250 [] sample_module)))) \<and>
   list_all (\<lambda>d. (parent_brd d \<noteq> None) = is_snapshot d)
     (brd_devices (snd (brd_init sample_kernel 250 [] sample_module)))"
proof -
  obtain M' where "brd_init sample_kernel 250 [] sample_module = (None, M')"
    by (simp add: brd_init_branches Let_def sample_module_def nr_devices_def minors_fit_def
        with_parts_def sample_kernel_def upt_rec brd_alloc_def)
  then show ?thesis
    using devices_stay_well_formed [of sample_kernel 250 "[]" sample_module M' flag_names_req
        "brd_devices M'"] brd_reach.start by (simp add: list_all_iff)
qed

text \<open>
  C5: once disk \<open>j\<close> is frozen, whatever requests and ioctls reach any device, except the two ioctls
  that unfreeze or wipe \<open>j\<close>, restoring its snapshot \<open>i\<close> makes \<open>i\<close> show the bytes \<open>j\<close> held when it
  was frozen, and \<open>j\<close> still holds them.
\<close>

theorem restore_shows_frozen_disk:
  assumes "frozen j i devs" "rw_ok K" "\<forall>e\<in>set es. keeps_frozen j e"
    "run_events R K es devs = Some devs1"
    "run_event R K (Ioctl i COW_BRD_RESTORE_SNAPSHOT) devs1 = Some (err, devs2)"
  shows "err = None \<and> brd_content devs2 i = brd_content devs j \<and>
    brd_content devs2 j = brd_content devs j"
proof -
  have run: "snapshot_system.run (run_event R K) (keeps_frozen j) devs devs1"
    by (rule run_events_run [OF assms(4,3)])
  have "frozen j i devs1" using cow_snapshots.run_keeps [OF run, where i = i] assms(1,2) by blast
  then have "err = None" "brd_content devs2 i = brd_content devs2 j"
    using restore_event assms(5) by blast+
  moreover have "brd_content devs2 i = brd_content devs j"
    using cow_snapshots.run_then_restore [OF _ run assms(5)] assms(1,2) by blast
  ultimately show ?thesis by simp
qed

definition sample_devices :: "brd_device list" where
  "sample_devices = [(sample_brd False)\<lparr>is_writable := False, brd_pages := fmupd 0 (\<lambda>_. 7) fmempty\<rparr>,
     sample_brd True]"

lemma sample_rw_ok: "rw_ok sample_kernel"
  by (simp add: rw_ok_def sample_kernel_def)

theorem restore_shows_frozen_disk_witness:
  "\<exists>devs1 devs2. run_events flag_names_req sample_kernel [Request 1 [] (sample_bio True 0 [replicate 512 1])]
      sample_devices = Some devs1 \<and>
    run_event flag_names_req sample_kernel (Ioctl 1 COW_BRD_RESTORE_SNAPSHOT) devs1 = Some (None, devs2) \<and>
    brd_content devs2 1 = brd_content sample_devices 0"
proof -
  let ?es = "[Request 1 [] (sample_bio True 0 [replicate 512 1])]"
  have fr: "frozen 0 1 sample_devices"
    by (simp add: frozen_def sample_devices_def brd_inv_def find_brd_def sample_brd_def)
  have k: "\<forall>e\<in>set ?es. keeps_frozen 0 e" by (simp add: keeps_frozen_def)
  obtain devs1 where e: "run_events flag_names_req sample_kernel ?es sample_devices = Some devs1"
    by (simp add: run_event_def sample_devices_def find_brd_def sample_brd_def sample_bio_def
        brd_make_request_def bio_end_sector_def sample_kernel_def brd_do_bvec_def
        copy_to_brd_setup_def brd_insert_page_def brd_lookup_page_def page_offset_mod page_index_div
        parent_tree_def copy_to_brd_def Let_def)
  have "frozen 0 1 devs1"
    using cow_snapshots.run_keeps [OF run_events_run [OF e k], where i = 1] fr sample_rw_ok by blast
  then have "find_brd devs1 1 \<noteq> None" by (auto simp: frozen_def split: option.splits)
  then have "run_event flag_names_req sample_kernel (Ioctl 1 COW_BRD_RESTORE_SNAPSHOT) devs1 \<noteq> None"
    by (auto simp: run_event_def)
  then obtain err devs2 where f: "run_event flag_names_req sample_kernel
      (Ioctl 1 COW_BRD_RESTORE_SNAPSHOT) devs1 = Some (err, devs2)" by auto
  show ?thesis using restore_shows_frozen_disk [OF fr sample_rw_ok k e f] e f by auto
qed

text \<open>
  a \<open>brd_init\<close> that gives up with \<open>EINVAL\<close> keeps the major number it registered.
\<close>

theorem brd_init_einval_keeps_major:
  assumes "brd_init K major ms M = (Some EINVAL, M')"
  shows "major_registered M' \<and> brd_devices M' = brd_devices M"
  using assms
  by (auto simp: brd_init_branches Let_def with_parts_def split: if_splits prod.splits)

theorem brd_init_einval_keeps_major_witness:
  "major_registered (snd (brd_init (sample_kernel\<lparr>MINORBITS := 0\<rparr>) 250 [] sample_module))"
proof -
  obtain M' where "brd_init (sample_kernel\<lparr>MINORBITS := 0\<rparr>) 250 [] sample_module = (Some EINVAL, M')"
    by (simp add: brd_init_branches Let_def minors_fit_def with_parts_def sample_kernel_def
        sample_module_def nr_devices_def split: prod.split)
  then show ?thesis
    using brd_init_einval_keeps_major [of "sample_kernel\<lparr>MINORBITS := 0\<rparr>" 250 "[]" sample_module M'] by simp
qed

lemma brd_del_all:
  "brd_devices (fold (\<lambda>d M'. brd_del_one M' d) ds M) =
     filter (\<lambda>d. brd_number d \<notin> brd_number ` set ds) (brd_devices M) \<and>
   region (fold (\<lambda>d M'. brd_del_one M' d) ds M) = region M"
  by (induction ds arbitrary: M) (auto simp: brd_del_one_def conj_commute intro!: filter_cong)

text \<open>
  \<open>brd_exit\<close> removes every device, but the region \<open>brd_init\<close> registered stays: it was registered
  under \<open>RAMDISK_MAJOR\<close> and is unregistered under the major number of the module.
\<close>

theorem brd_exit_leaves_region:
  assumes "brd_init K major ms M = (None, M')" "major \<noteq> RAMDISK_MAJOR K"
  shows "brd_devices (brd_exit M') = [] \<and> \<not> major_registered (brd_exit M') \<and>
    region (brd_exit M') = Some (RAMDISK_MAJOR K, push_bit (part_shift M') (nr_devices M))"
proof -
  have "region M' = Some (RAMDISK_MAJOR K, push_bit (part_shift M') (nr_devices M))" "major_num M' = major"
    using assms(1) by (auto simp: brd_init_branches Let_def with_parts_def split: if_splits prod.splits)
  moreover have "filter (\<lambda>d. brd_number d \<notin> brd_number ` set (brd_devices M')) (brd_devices M') = []"
    by (auto simp: filter_empty_conv)
  ultimately show ?thesis
    using assms(2) brd_del_all [of "brd_devices M'" M'] by (simp add: brd_exit_def Let_def)
qed

theorem brd_exit_leaves_region_witness:
  "region (brd_exit (snd (brd_init sample_kernel 250 [] sample_module))) = Some (1, 2)"
proof -
  obtain M' where i: "brd_init sample_kernel 250 [] sample_module = (None, M')" and p: "part_shift M' = 0"
    by (simp add: brd_init_branches Let_def sample_module_def nr_devices_def minors_fit_def
        with_parts_def sample_kernel_def upt_rec brd_alloc_def)
  have "RAMDISK_MAJOR sample_kernel = 1" by (simp add: sample_kernel_def)
  then show ?thesis using brd_exit_leaves_region [OF i] i p by simp
qed

end
