(* ===== verification/Tester_Replay.thy ===== *)
theory Tester_Replay
  imports Tester Cow_Brd_Steps
begin

text \<open>
  What the harness does with the log: it fetches the entries the wrapper recorded, and writes
  operations to a device.  The clients' lemmas are proved in the locales \<open>log_device\<close>, interpreted
  by the wrapper, and \<open>block_file\<close>, interpreted by a RAM disk of \<open>Cow_Brd\<close>.  Together they give
  the round trip: replaying the fetched log onto the restored snapshot rebuilds the disk the
  workload left.
\<close>

section \<open>Fetching the log\<close>

context log_device begin

lemma fetch_log:
  "dev_ok s \<Longrightarrow> \<exists>s'. get_log_loop dev_ioctl jm jd log s = Some (SUCCESS, log @ rest s, s') \<and>
     dev_ok s' \<and> rest s' = []"
proof (induction "rest s" arbitrary: s log)
  case Nil
  then show ?case
    by (subst get_log_loop.simps) (simp add: at_end)
next
  case (Cons e es)
  have r: "rest s = e # es" using Cons.hyps(2) by simp
  obtain d where d: "dev_ioctl HWM_GET_LOG_DATA s = Some (None, User_data d, s)"
    "make_disk_write (metadata e) (Some d) = Some e"
    using at_data [OF Cons.prems r] by blast
  obtain s' where s': "dev_ioctl HWM_NEXT_ENT s = Some (None, Untouched, s')" "dev_ok s'" "rest s' = es"
    using at_next [OF Cons.prems r] by blast
  have len: "unat (meta_size (metadata e)) \<le> length d \<or> meta_size (metadata e) = 0"
    using d(2) by (auto simp: make_disk_write_def copy_data_def word_gt_0 split: if_splits)
  have "make_disk_write (metadata e)
      (Some (d @ map jd [length d..<unat (meta_size (metadata e))])) = Some e"
    using d(2) len by (auto simp: make_disk_write_def copy_data_def word_gt_0 split: if_splits)
  then have "get_log_loop dev_ioctl jm jd log s = get_log_loop dev_ioctl jm jd (log @ [e]) s'"
    by (subst get_log_loop.simps)
      (simp add: at_meta [OF Cons.prems r] d(1) s'(1) meta_or_def data_or_def)
  then show ?case
    using Cons.hyps(1) [of s' "log @ [e]"] s' r by auto
qed

end

section \<open>Writing operations to a device\<close>

text \<open>The bytes of a device after the operations that are writes have been written in order.\<close>

fun replay :: "req_flags \<Rightarrow> (nat \<Rightarrow> byte) \<Rightarrow> disk_write list \<Rightarrow> nat \<Rightarrow> byte" where
  "replay R m [] = m"
| "replay R m (dw # dws) =
     replay R
       (if has_write_flag R dw
        then page_write m (512 * unat (write_sector (metadata dw)))
               (case dw_data dw of None \<Rightarrow> [] | Some d \<Rightarrow> d)
        else m) dws"

lemma replay_append: "replay R m (xs @ ys) = replay R (replay R m xs) ys"
  by (induction xs arbitrary: m) auto

text \<open>An operation that, if it is a write, has its data and stays below \<open>limit\<close>, in whole sectors.\<close>

definition op_fits :: "req_flags \<Rightarrow> nat \<Rightarrow> disk_write \<Rightarrow> bool" where
  "op_fits R limit dw \<longleftrightarrow> (has_write_flag R dw \<longrightarrow> log_op dw \<and>
     512 * unat (write_sector (metadata dw)) + unat (meta_size (metadata dw)) \<le> limit \<and>
     512 dvd unat (meta_size (metadata dw)))"

text \<open>The 64-bit product of the code is the byte address, as long as it is a valid offset.\<close>

lemma sector_offset:
  fixes s :: u64
  assumes "512 * unat s < 2 ^ 63"
  shows "sint (s * SECTOR_SIZE) = int (512 * unat s)"
proof -
  have "unat s * unat (512 :: u64) < 2 ^ LENGTH(64)" using assms by simp
  then have "unat (s * 512) = unat s * unat (512 :: u64)" by (rule iffD1 [OF unat_mult_lem])
  then have u: "unat (s * SECTOR_SIZE) = 512 * unat s" by (simp add: SECTOR_SIZE_def)
  then have i: "uint (s * SECTOR_SIZE) = int (512 * unat s)" by (simp only: uint_nat)
  have "int (512 * unat s) < int (2 ^ 63)" using assms by (simp only: of_nat_less_iff)
  then have "int (512 * unat s) < 2 ^ (LENGTH(64) - Suc 0)" by simp
  moreover have "- (2 ^ (LENGTH(64) - Suc 0)) \<le> int (512 * unat s)"
    by (rule order_trans [OF _ of_nat_0_le_iff]) simp
  ultimately show ?thesis
    unfolding sint_uint i by (intro signed_take_bit_int_eq_self)
qed

text \<open>
  A block device opened for writing: \<open>lseek\<close> moves the position, \<open>write\<close> stores at least one byte
  of what it is given.
\<close>

locale block_file =
  fixes OS :: "'w os" and fd :: int
    and file_ok :: "'w \<Rightarrow> bool" and contents :: "'w \<Rightarrow> nat \<Rightarrow> byte" and position :: "'w \<Rightarrow> nat"
    and limit :: nat
  assumes limit_bound: "limit < 2 ^ 63"
    and seek: "file_ok w \<Longrightarrow> 0 \<le> p \<Longrightarrow> \<exists>w'. os_lseek OS fd p w = (p, w') \<and> file_ok w' \<and>
      position w' = nat p \<and> contents w' = contents w"
    and write_none: "file_ok w \<Longrightarrow> os_write OS fd buf 0 w = (0, w)"
    and write_some: "file_ok w \<Longrightarrow> 0 < n \<Longrightarrow> n = length d \<Longrightarrow> 512 dvd n \<Longrightarrow> 512 dvd position w \<Longrightarrow>
      position w + n \<le> limit \<Longrightarrow>
      \<exists>r w'. os_write OS fd (Some d) n w = (int r, w') \<and> 0 < r \<and> r \<le> n \<and> 512 dvd r \<and> file_ok w' \<and>
        position w' = position w + r \<and> contents w' = page_write (contents w) (position w) (take r d)"
begin

lemma write_all:
  assumes "file_ok w" "k < length d" "512 dvd length d" "512 dvd k" "512 dvd position w"
    "position w + (length d - k) \<le> limit"
  shows "\<exists>w'. write_all_loop OS fd (Some d) (length d) k w = Some (True, w') \<and> file_ok w' \<and>
    contents w' = page_write (contents w) (position w) (drop k d)"
  using assms
proof (induction "length d - k" arbitrary: k w rule: less_induct)
  case less
  have div: "512 dvd length d - k" using less.prems(3,4) by (rule dvd_diff_nat)
  obtain r w1 where r: "os_write OS fd (Some (drop k d)) (length d - k) w = (int r, w1)" "0 < r"
    "r \<le> length d - k" "512 dvd r" "file_ok w1" "position w1 = position w + r"
    "contents w1 = page_write (contents w) (position w) (take r (drop k d))"
  proof -
    have "0 < length d - k" "length d - k = length (drop k d)" using less.prems(2) by simp_all
    from write_some [OF less.prems(1) this div less.prems(5,6)] show thesis using that by blast
  qed
  have step: "write_all_loop OS fd (Some d) (length d) k w =
      (if k + r < length d then write_all_loop OS fd (Some d) (length d) (k + r) w1
       else Some (True, w1))"
    by (subst write_all_loop.simps) (simp add: r(1))
  show ?case
  proof (cases "k + r < length d")
    case True
    have "\<exists>w'. write_all_loop OS fd (Some d) (length d) (k + r) w1 = Some (True, w') \<and> file_ok w' \<and>
        contents w' = page_write (contents w1) (position w1) (drop (k + r) d)"
    proof (rule less.hyps)
      show "length d - (k + r) < length d - k" using True r(2) by linarith
      show "512 dvd k + r" using less.prems(4) r(4) by (rule dvd_add)
      show "512 dvd position w1" using less.prems(5) r(4) unfolding r(6) by (rule dvd_add)
      show "position w1 + (length d - (k + r)) \<le> limit" using less.prems(6) r(3,6) by linarith
    qed (use True r(5) less.prems(3) in simp_all)
    moreover have "page_write (contents w1) (position w1) (drop (k + r) d) =
        page_write (contents w) (position w) (drop k d)"
      using page_write_append [of "contents w" "position w" "take r (drop k d)" "drop (k + r) d"] r(3,6,7)
        append_take_drop_id [of r "drop k d"] by (simp add: min_absorb2 add.commute)
    ultimately show ?thesis using step True by auto
  next
    case False
    then show ?thesis using step r by auto
  qed
qed

lemma write_data_replays:
  "file_ok w \<Longrightarrow> \<forall>dw\<in>set dws. op_fits R limit dw \<Longrightarrow>
    \<exists>w'. test_write_data R OS fd dws w = Some (True, w') \<and> file_ok w' \<and>
      contents w' = replay R (contents w) dws"
proof (induction dws arbitrary: w)
  case (Cons dw dws)
  show ?case
  proof (cases "has_write_flag R dw")
    case False
    then show ?thesis using Cons by simp
  next
    case True
    let ?s = "write_sector (metadata dw)" and ?n = "unat (meta_size (metadata dw))"
    have fits: "512 * unat ?s + ?n \<le> limit" "512 dvd ?n" "log_op dw"
      using Cons.prems(2) True by (auto simp: op_fits_def)
    have s: "sint (?s * SECTOR_SIZE) = int (512 * unat ?s)"
      by (rule sector_offset) (use fits(1) limit_bound in linarith)
    obtain w1 where w1: "os_lseek OS fd (int (512 * unat ?s)) w = (int (512 * unat ?s), w1)" "file_ok w1"
      "position w1 = 512 * unat ?s" "contents w1 = contents w"
    proof -
      have "0 \<le> int (512 * unat ?s)" by (rule of_nat_0_le_iff)
      from seek [OF Cons.prems(1) this] show thesis using that unfolding nat_int by blast
    qed
    have "\<exists>w2. write_all_loop OS fd (get_data dw) ?n 0 w1 = Some (True, w2) \<and> file_ok w2 \<and>
        contents w2 = page_write (contents w) (512 * unat ?s)
          (case dw_data dw of None \<Rightarrow> [] | Some d \<Rightarrow> d)"
    proof (cases "dw_data dw")
      case None
      then have "?n = 0" using fits(3) by (simp add: log_op_def)
      then show ?thesis
        using None w1 by (subst write_all_loop.simps) (simp add: get_data_def write_none)
    next
      case (Some d)
      then have "length d = ?n" "?n > 0" using fits(3) by (auto simp: log_op_def dw_wf_def unat_gt_0)
      then show ?thesis
        using write_all [of w1 0 d] Some w1 fits by (auto simp: get_data_def)
    qed
    then obtain w2 where w2: "write_all_loop OS fd (get_data dw) ?n 0 w1 = Some (True, w2)" "file_ok w2"
      "contents w2 = page_write (contents w) (512 * unat ?s)
          (case dw_data dw of None \<Rightarrow> [] | Some d \<Rightarrow> d)" by blast
    then have "test_write_data R OS fd (dw # dws) w = test_write_data R OS fd dws w2"
      using True w1(1) by (simp add: s)
    then show ?thesis using Cons.IH [OF w2(2)] Cons.prems(2) w2(3) True by auto
  qed
qed simp

end

section \<open>A RAM disk opened as a file\<close>

text \<open>
  A descriptor on a RAM disk whose parent has the tree \<open>pp\<close>: a position and the device.  A
  \<open>write\<close> is one request, of at most the rest of a page, in whole sectors; the other calls are
  not there.
\<close>

record brd_file =
  file_pos :: nat
  file_dev :: brd_device

definition no_os :: "'w os" where
  "no_os = \<lparr>os_system = (\<lambda>_ w. (- 1, w)), os_open = (\<lambda>_ _ w. (- 1, w)), os_close = (\<lambda>_ w. w),
     os_mount = (\<lambda>_ _ _ _ w. (- 1, w)), os_umount = (\<lambda>_ w. (- 1, w)), os_ioctl = (\<lambda>_ _ w. (- 1, w)),
     os_rereadpt = (\<lambda>_ w. (- 1, False, w)), os_hwm = (\<lambda>_ _ w. Some (Some W_EINVAL, Untouched, w)),
     os_lseek = (\<lambda>_ _ w. (- 1, w)), os_write = (\<lambda>_ _ _ w. (- 1, w)),
     os_read = (\<lambda>_ _ w. (- 1, [], w)), os_sync = (\<lambda>w. w)\<rparr>"

definition file_bio :: "kernel_api \<Rightarrow> nat \<Rightarrow> byte list \<Rightarrow> bio" where
  "file_bio K a d = \<lparr>bio_sector = a div 512, bio_flags = WRITE K, bio_size = length d, bio_segs = [d]\<rparr>"

definition brd_write :: "req_flags \<Rightarrow> kernel_api \<Rightarrow> page_tree option \<Rightarrow> byte list option \<Rightarrow> nat
    \<Rightarrow> brd_file \<Rightarrow> int \<times> brd_file" where
  "brd_write R K pp buf n w =
     (if n = 0 then (0, w)
      else
        (case buf of
           None \<Rightarrow> (- 1, w)
         | Some d \<Rightarrow>
             (let a = file_pos w; r = min n (PAGE_SIZE - a mod PAGE_SIZE) in
              if a mod 512 \<noteq> 0 \<or> r mod 512 \<noteq> 0 then (- 1, w)
              else
                (case brd_make_request R K pp [] (file_dev w) (file_bio K a (take r d)) of
                   Some (None, dev, _) \<Rightarrow> (int r, \<lparr>file_pos = a + r, file_dev = dev\<rparr>)
                 | _ \<Rightarrow> (- 1, w)))))"

definition brd_file_os :: "req_flags \<Rightarrow> kernel_api \<Rightarrow> page_tree option \<Rightarrow> brd_file os" where
  "brd_file_os R K pp = no_os
     \<lparr>os_lseek := (\<lambda>fd p w. if p < 0 then (- 1, w) else (p, w\<lparr>file_pos := nat p\<rparr>)),
      os_write := (\<lambda>fd buf n w. brd_write R K pp buf n w)\<rparr>"

text \<open>The flag \<open>WRITE\<close> makes a request a write and not a discard.\<close>

definition write_api :: "req_flags \<Rightarrow> kernel_api \<Rightarrow> bool" where
  "write_api R K \<longleftrightarrow> \<not> has_mask (WRITE K) (REQ_DISCARD R) \<and> bio_rw K (WRITE K) \<noteq> READ K \<and>
     bio_rw K (WRITE K) \<noteq> READA K"

definition brd_file_ok :: "req_flags \<Rightarrow> kernel_api \<Rightarrow> nat \<Rightarrow> brd_file \<Rightarrow> bool" where
  "brd_file_ok R K sectors w \<longleftrightarrow> write_api R K \<and> is_writable (file_dev w) \<and>
     capacity (file_dev w) = sectors \<and> 512 * sectors < 2 ^ 63"

definition brd_file_bytes :: "page_tree option \<Rightarrow> brd_file \<Rightarrow> nat \<Rightarrow> byte" where
  "brd_file_bytes pp w = disk_byte pp (brd_pages (file_dev w))"

lemma brd_make_request_snapshot:
  assumes "brd_make_request R K pp ms brd b = Some (err, brd', b')"
  shows "is_snapshot brd' = is_snapshot brd"
  by (subst brd_make_request_frame [OF assms]) simp

lemma brd_write_snapshot:
  "brd_write R K pp buf n w = (r, w') \<Longrightarrow> is_snapshot (file_dev w') = is_snapshot (file_dev w)"
  by (auto simp: brd_write_def Let_def dest!: brd_make_request_snapshot
      split: option.splits if_splits)

lemma brd_write_page:
  assumes ok: "brd_file_ok R K sectors w" and d: "0 < n" "n = length d" "512 dvd n"
    "512 dvd file_pos w" "file_pos w + n \<le> 512 * sectors"
  shows "\<exists>r w'. brd_write R K pp (Some d) n w = (int r, w') \<and> 0 < r \<and> r \<le> n \<and> 512 dvd r \<and>
    brd_file_ok R K sectors w' \<and> file_pos w' = file_pos w + r \<and>
    brd_file_bytes pp w' = page_write (brd_file_bytes pp w) (file_pos w) (take r d)"
proof -
  define a where "a = file_pos w"
  define r where "r = min n (PAGE_SIZE - a mod PAGE_SIZE)"
  define b where "b = file_bio K a (take r d)"
  have "(512 :: nat) dvd 4096" by simp
  then have r512: "512 dvd a mod 4096" "512 dvd 4096 - a mod 4096" "512 dvd r"
    using d(3,4) by (auto simp: r_def a_def dvd_mod min_def)
  have r: "0 < r" "r \<le> n" "a mod 4096 + r \<le> 4096" "r \<le> 4096" using d(1) by (auto simp: r_def)
  have sec: "512 * (a div 512) = a" using d(4) by (simp add: a_def)
  have off: "page_offset (a div 512) = a mod 4096" by (simp add: page_offset_mod' sec)
  have len: "length (take r d) = r" using r(2) d(2) by simp
  have e: "bio_end_sector b \<le> sectors"
  proof -
    have "a + r \<le> 512 * sectors" using d(5) r(2) by (simp add: a_def)
    then have "(a + r) div 512 \<le> sectors" using div_le_mono [of "a + r" "512 * sectors" 512] by simp
    moreover have "(a + r) div 512 = a div 512 + r div 512" using d(4) by (simp add: a_def div_plus_div_distrib_dvd_left)
    ultimately show ?thesis by (simp add: b_def file_bio_def bio_end_sector_def len drop_bit_eq_div)
  qed
  have "write_request R K (file_dev w) b" "bio_segs b \<noteq> []"
    "segs_fit pp (bio_sector b) (bio_segs b)"
    using ok e r r512 len off
    by (auto simp: write_request_def brd_file_ok_def write_api_def b_def file_bio_def write_fits_def)
  from write_request_content [OF this, of "[]"] obtain dev where
    q: "brd_make_request R K pp [] (file_dev w) b = Some (None, dev, b)"
      "dev = file_dev w\<lparr>brd_pages := brd_pages dev\<rparr>"
      "disk_byte pp (brd_pages dev) = page_write (disk_byte pp (brd_pages (file_dev w))) a (take r d)"
    by (auto simp: b_def file_bio_def sec)
  have "brd_write R K pp (Some d) n w = (int r, \<lparr>file_pos = a + r, file_dev = dev\<rparr>)"
  proof -
    have "a mod 512 = 0" "r mod 512 = 0" "n \<noteq> 0" using d(1,4) r512(3) by (simp_all add: a_def)
    then show ?thesis
      unfolding brd_write_def Let_def a_def [symmetric] r_def [symmetric] b_def [symmetric] option.case q(1)
      by simp
  qed
  moreover have "is_writable dev = is_writable (file_dev w)" "capacity dev = capacity (file_dev w)"
    by (subst q(2), simp)+
  ultimately show ?thesis
    using ok r r512(3) q(3) by (auto simp: brd_file_ok_def brd_file_bytes_def a_def)
qed

interpretation brd_file: block_file "brd_file_os R K pp" fd
  "brd_file_ok R K sectors" "brd_file_bytes pp" file_pos
  "min (512 * sectors) (2 ^ 63 - 1)" for R K pp fd sectors
proof unfold_locales
  show "min (512 * sectors) (2 ^ 63 - 1) < (2 :: nat) ^ 63" by simp
next
  fix w :: brd_file and p :: int
  assume "brd_file_ok R K sectors w" "0 \<le> p"
  then show "\<exists>w'. os_lseek (brd_file_os R K pp) fd p w = (p, w') \<and>
      brd_file_ok R K sectors w' \<and>
      file_pos w' = nat p \<and> brd_file_bytes pp w' = brd_file_bytes pp w"
    by (simp add: brd_file_os_def brd_file_ok_def brd_file_bytes_def)
next
  fix w :: brd_file and buf
  show "os_write (brd_file_os R K pp) fd buf 0 w = (0, w)"
    by (simp add: brd_file_os_def brd_write_def)
next
  fix w :: brd_file and n :: nat and d :: "byte list"
  assume "brd_file_ok R K sectors w" "0 < n" "n = length d" "512 dvd n"
    "512 dvd file_pos w" "file_pos w + n \<le> min (512 * sectors) (2 ^ 63 - 1)"
  then show "\<exists>r w'. os_write (brd_file_os R K pp) fd (Some d) n w = (int r, w') \<and> 0 < r \<and> r \<le> n \<and>
      512 dvd r \<and> brd_file_ok R K sectors w' \<and>
      file_pos w' = file_pos w + r \<and>
      brd_file_bytes pp w' = page_write (brd_file_bytes pp w) (file_pos w) (take r d)"
    using brd_write_page [of R K sectors w n d pp] by (simp add: brd_file_os_def)
qed

section \<open>A recorded workload\<close>

text \<open>
  The requests of a workload on the wrapper: each is logged, at the address \<open>kzalloc\<close> returns and
  into a buffer that starts as \<open>kmalloc\<close> returns it, and then handed to the snapshot device.
\<close>

definition to_bio :: "wrapped_bio \<Rightarrow> bio" where
  "to_bio b = \<lparr>bio_sector = unat (wb_sector b), bio_flags = wb_rw b, bio_size = unat (wb_size b),
     bio_segs = wb_segs b\<rparr>"

type_synonym workload = "(nat \<times> (nat \<Rightarrow> byte) \<times> wrapped_bio) list"

fun run_workload :: "req_flags \<Rightarrow> kernel_api \<Rightarrow> page_tree option \<Rightarrow> workload
    \<Rightarrow> hwm_device \<times> brd_device \<Rightarrow> (hwm_device \<times> brd_device) option" where
  "run_workload R K pp [] s = Some s"
| "run_workload R K pp ((w, j, b) # bs) (D, d) =
     Option.bind (disk_wrapper_bio R (Some w) (Some j) b D)
       (\<lambda>D1. Option.bind (brd_make_request R K pp [] d (to_bio b))
         (\<lambda>(err, d1, _). run_workload R K pp bs (D1, d1)))"

text \<open>
  The workloads of the theorem: write requests in whole sectors whose segments stay in their
  pages, inside the device, with fresh memory for the log.
\<close>

definition workload_bio :: "req_flags \<Rightarrow> kernel_api \<Rightarrow> page_tree option \<Rightarrow> nat \<Rightarrow> wrapped_bio \<Rightarrow> bool" where
  "workload_bio R K pp sectors b \<longleftrightarrow>
     has_mask (wb_rw b) (REQ_WRITE R) \<and> \<not> has_mask (wb_rw b) (REQ_DISCARD R) \<and>
     bio_rw K (wb_rw b) \<noteq> READ K \<and> bio_rw K (wb_rw b) \<noteq> READA K \<and>
     length (concat (wb_segs b)) = unat (wb_size b) \<and> segs_fit pp (unat (wb_sector b)) (wb_segs b) \<and>
     bio_end_sector (to_bio b) \<le> sectors"

definition bio_op :: "wrapped_bio \<Rightarrow> disk_write" where
  "bio_op b = \<lparr>metadata = bio_meta b,
     dw_data = (if wb_size b = 0 then None else Some (concat (wb_segs b)))\<rparr>"

lemma segs_fit_dvd: "segs_fit pp s bs \<Longrightarrow> 512 dvd length (concat bs)"
  by (induction bs arbitrary: s) auto

lemma workload_op:
  assumes "workload_bio R K pp sectors b"
  shows "op_fits R (512 * sectors) (bio_op b)" "has_write_flag R (bio_op b)"
    "(case dw_data (bio_op b) of None \<Rightarrow> [] | Some d \<Rightarrow> d) = concat (wb_segs b)"
    "write_sector (metadata (bio_op b)) = wb_sector b" "is_logged R b"
proof -
  have len: "length (concat (wb_segs b)) = unat (wb_size b)" using assms by (simp add: workload_bio_def)
  have dvd: "512 dvd unat (wb_size b)" using assms segs_fit_dvd len by (metis workload_bio_def)
  have "unat (wb_sector b) + unat (wb_size b) div 512 \<le> sectors"
    using assms by (simp add: workload_bio_def bio_end_sector_def to_bio_def drop_bit_eq_div)
  then have "512 * (unat (wb_sector b) + unat (wb_size b) div 512) \<le> 512 * sectors"
    by (rule mult_le_mono2)
  then have "512 * unat (wb_sector b) + unat (wb_size b) \<le> 512 * sectors"
    using dvd by (simp add: distrib_left)
  then show "op_fits R (512 * sectors) (bio_op b)"
    using len dvd by (auto simp: op_fits_def log_op_def dw_wf_def bio_op_def bio_meta_def)
  show "has_write_flag R (bio_op b)" "is_logged R b"
    using assms by (simp_all add: workload_bio_def has_write_flag_def c_has_write_flag_def bio_op_def
        bio_meta_def is_logged_def)
  show "(case dw_data (bio_op b) of None \<Rightarrow> [] | Some d \<Rightarrow> d) = concat (wb_segs b)"
    using len by (auto simp: bio_op_def)
  show "write_sector (metadata (bio_op b)) = wb_sector b" by (simp add: bio_op_def bio_meta_def)
qed

text \<open>One request on the device: an empty one is refused and changes nothing.\<close>

lemma workload_request:
  assumes "workload_bio R K pp sectors b" "is_writable d" "capacity d = sectors"
  shows "\<exists>err d' b'. brd_make_request R K pp [] d (to_bio b) = Some (err, d', b') \<and>
    is_writable d' \<and> capacity d' = sectors \<and> is_snapshot d' = is_snapshot d \<and>
    disk_byte pp (brd_pages d') =
      page_write (disk_byte pp (brd_pages d)) (512 * unat (wb_sector b)) (concat (wb_segs b))"
proof (cases "wb_segs b = []")
  case True
  then have "brd_make_request R K pp [] d (to_bio b) = Some (Some EIO, d, to_bio b)"
    using assms by (auto simp: workload_bio_def brd_make_request_def to_bio_def Let_def)
  then show ?thesis using True assms(2,3) by simp
next
  case False
  have "write_request R K d (to_bio b)" "bio_segs (to_bio b) \<noteq> []"
    "segs_fit pp (bio_sector (to_bio b)) (bio_segs (to_bio b))"
    using assms False by (auto simp: workload_bio_def write_request_def) (simp_all add: to_bio_def)
  from write_request_content [OF this, of "[]"] obtain d' where
    q: "brd_make_request R K pp [] d (to_bio b) = Some (None, d', to_bio b)"
      "d' = d\<lparr>brd_pages := brd_pages d'\<rparr>"
      "disk_byte pp (brd_pages d') =
        page_write (disk_byte pp (brd_pages d)) (512 * unat (wb_sector b)) (concat (wb_segs b))"
    by (auto simp: to_bio_def)
  have "is_writable d' = is_writable d" "capacity d' = capacity d" "is_snapshot d' = is_snapshot d"
    by (subst q(2), simp)+
  then show ?thesis using q(1,3) assms(2,3) by auto
qed

definition workload_ok :: "req_flags \<Rightarrow> kernel_api \<Rightarrow> page_tree option \<Rightarrow> nat \<Rightarrow> workload \<Rightarrow> bool" where
  "workload_ok R K pp sectors bs \<longleftrightarrow>
     distinct (map fst bs) \<and> (\<forall>(w, j, b)\<in>set bs. workload_bio R K pp sectors b)"

lemma run_workload_result:
  assumes "workload_ok R K pp sectors bs" "log_inv as D" "log_on D" "set as \<inter> fst ` set bs = {}"
    "as = [] \<or> current_log_write D \<noteq> None" "is_writable d" "capacity d = sectors"
  shows "\<exists>D' d' as'. run_workload R K pp bs (D, d) = Some (D', d') \<and> log_inv as' D' \<and>
    unread D' = unread D @ map (\<lambda>(w, j, b). bio_op b) bs \<and>
    is_writable d' \<and> capacity d' = sectors \<and> is_snapshot d' = is_snapshot d \<and>
    disk_byte pp (brd_pages d') = replay R (disk_byte pp (brd_pages d)) (map (\<lambda>(w, j, b). bio_op b) bs)"
  using assms
proof (induction bs arbitrary: D d as)
  case Nil
  then show ?case by auto
next
  case (Cons x bs)
  obtain w j b where x: "x = (w, j, b)" by (metis prod_cases3)
  have b: "workload_bio R K pp sectors b" "workload_ok R K pp sectors bs" "w \<notin> set as"
    "w \<notin> fst ` set bs"
    using Cons.prems(1,4) x by (auto simp: workload_ok_def)
  have len: "length (concat (wb_segs b)) = unat (wb_size b)" using b(1) by (simp add: workload_bio_def)
  then have op: "logged_op j b = bio_op b" by (simp add: logged_op_def bio_op_def)
  have le: "length (concat (wb_segs b)) \<le> unat (wb_size b)" using len by simp
  obtain D1 where D1: "disk_wrapper_bio R (Some w) (Some j) b D = Some D1" "log_inv (as @ [w]) D1"
    "log_on D1" "unread D1 = unread D @ [bio_op b]" "current_log_write D1 \<noteq> None"
    by (rule disk_wrapper_bio_logs [OF Cons.prems(2,3) workload_op(5) [OF b(1)] b(3) le, of j])
      (use Cons.prems(5) op in auto)
  obtain err d1 b' where d1: "brd_make_request R K pp [] d (to_bio b) = Some (err, d1, b')"
    "is_writable d1" "capacity d1 = sectors"
    "disk_byte pp (brd_pages d1) =
      page_write (disk_byte pp (brd_pages d)) (512 * unat (wb_sector b)) (concat (wb_segs b))"
    "is_snapshot d1 = is_snapshot d"
    using workload_request [OF b(1) Cons.prems(6,7)] by blast
  have dis: "set (as @ [w]) \<inter> fst ` set bs = {}" using Cons.prems(4) x b(4) by auto
  obtain D2 d2 as' where "run_workload R K pp bs (D1, d1) = Some (D2, d2)" "log_inv as' D2"
    "unread D2 = unread D1 @ map (\<lambda>(w, j, b). bio_op b) bs" "is_writable d2" "capacity d2 = sectors"
    "is_snapshot d2 = is_snapshot d1" "disk_byte pp (brd_pages d2) =
      replay R (disk_byte pp (brd_pages d1)) (map (\<lambda>(w, j, b). bio_op b) bs)"
    using Cons.IH [OF b(2) D1(2,3) dis _ d1(2,3)] D1(5) by blast
  then show ?case
    using D1(1,4) d1(1,4,5) x workload_op(2-4) [OF b(1)] by auto
qed

text \<open>The devices of the machine as the harness sees them: the wrapper and its ioctls.\<close>

definition wrapper_os :: "nat list \<Rightarrow> hwm_device os" where
  "wrapper_os ks = no_os\<lparr>os_hwm := (\<lambda>fd cmd w. wrapper_dev ks cmd w)\<rparr>"

lemma fetch_wrapper_log:
  assumes "log_inv as D" "ioctl_fd T \<noteq> - 1"
  shows "\<exists>D'. get_wrapper_log (wrapper_os ks) jm jd T D =
    Some (SUCCESS, T\<lparr>log_data := log_data T @ unread D\<rparr>, D') \<and> unread D' = []"
  using wrapper_log.fetch_log [of D ks jm jd "log_data T"] assms
  by (auto simp: get_wrapper_log_def wrapper_os_def)



end
