(* ===== verification/Random_Permuter.thy ===== *)
theory Random_Permuter
  imports Permuter
begin

text \<open>
  \<open>code/permuter/RandomPermuter.cpp\<close>: a crash state is a prefix of the epochs, each of its
  epochs complete and (unless it overlaps) in log order, followed by a randomly chosen part of
  one more epoch in random order.

  The random numbers are an argument: \<open>draw g a b\<close> is what a
  \<open>uniform_int_distribution(a, b)\<close> returns on the generator state \<open>g\<close>, with the next state.
  The standard leaves the algorithm of the distribution open; what it promises is \<open>draw_ok\<close>,
  and its precondition \<open>a \<le> b\<close> is checked by \<open>uniform_int\<close>.
\<close>

section \<open>Random numbers\<close>

type_synonym 'g draw = "'g \<Rightarrow> nat \<Rightarrow> nat \<Rightarrow> nat \<times> 'g"

definition draw_ok :: "'g draw \<Rightarrow> bool" where
  "draw_ok draw \<longleftrightarrow> (\<forall>g a b. a \<le> b \<longrightarrow> a \<le> fst (draw g a b) \<and> fst (draw g a b) \<le> b)"

definition uniform_int :: "'g draw \<Rightarrow> 'g \<Rightarrow> nat \<Rightarrow> nat \<Rightarrow> (nat \<times> 'g) option" where
  "uniform_int draw g a b = (if a \<le> b then Some (draw g a b) else None)"

section \<open>permute_epoch\<close>

text \<open>
  The loop that places operations: \<open>n\<close> places are left, \<open>slots\<close> are the positions of the
  epoch not placed yet.  The result is what is written, the number of places left, and the
  generator state.  A draw past the end of the list and a position past the end of the epoch
  are \<open>None\<close>.
\<close>

fun fill_slots :: "'g draw \<Rightarrow> epoch_op list \<Rightarrow> nat \<Rightarrow> nat list \<Rightarrow> 'g
    \<Rightarrow> (epoch_op list \<times> nat \<times> 'g) option" where
  "fill_slots draw os 0 slots g = Some ([], 0, g)"
| "fill_slots draw os (Suc n) [] g = Some ([], Suc n, g)"
| "fill_slots draw os (Suc n) (s # ss) g =
     (case uniform_int draw g 0 (length (s # ss) - 1) of
        None \<Rightarrow> None
      | Some (k, g1) \<Rightarrow>
          (if k < length (s # ss) \<and> (s # ss) ! k < length os then
             (case fill_slots draw os n (remove_nth k (s # ss)) g1 of
                None \<Rightarrow> None
              | Some (xs, m, g2) \<Rightarrow> Some (os ! ((s # ss) ! k) # xs, m, g2))
           else None))"

definition permute_epoch :: "'g draw \<Rightarrow> nat \<Rightarrow> epoch \<Rightarrow> 'g \<Rightarrow> (epoch_op list \<times> 'g) option" where
  "permute_epoch draw n e g =
     (if n \<le> length (ops e) then
        (let slots = length (ops e) - (if has_barrier e then 1 else 0) in
         case fill_slots draw (ops e) n [0..<slots] g of
           None \<Rightarrow> None
         | Some (xs, m, g1) \<Rightarrow>
             (if m = 0 then Some (xs, g1)
              else if has_barrier e \<and> ops e \<noteq> [] then Some (xs @ [last (ops e)], g1)
              else None))
      else None)"

section \<open>gen_one_state\<close>

definition null_meta :: disk_write_op_meta where
  "null_meta = \<lparr>bi_flags = 0, bi_rw = 0, write_sector = 0, meta_size = 0\<rparr>"

definition resize_ops :: "nat \<Rightarrow> epoch_op list \<Rightarrow> epoch_op list" where
  "resize_ops n xs =
     take n xs @ replicate (n - length xs) (mk_op 0 \<lparr>metadata = null_meta, dw_data = None\<rparr>)"

definition write_at :: "'a list \<Rightarrow> nat \<Rightarrow> 'a list \<Rightarrow> 'a list" where
  "write_at res pos xs = take pos res @ xs @ drop (pos + length xs) res"

text \<open>
  The loop over the chosen epochs.  The last of the list is epoch \<open>num_epochs - 1\<close>; \<open>pos\<close> is
  the position of \<open>curr_iter\<close>.  Writing past the end of the vector is \<open>None\<close>.
\<close>

fun place_epochs :: "'g draw \<Rightarrow> epoch list \<Rightarrow> nat \<Rightarrow> nat \<Rightarrow> epoch_op list \<Rightarrow> 'g
    \<Rightarrow> (epoch_op list \<times> 'g) option" where
  "place_epochs draw [] num_requests pos res g = Some (res, g)"
| "place_epochs draw (e # es) num_requests pos res g =
     (if overlaps e \<or> es = [] then
        (let size = (if es \<noteq> [] then length (ops e) else num_requests) in
         if pos + size \<le> length res then
           (case permute_epoch draw size e g of
              None \<Rightarrow> None
            | Some (xs, g1) \<Rightarrow>
                place_epochs draw es num_requests (pos + size) (write_at res pos xs) g1)
         else None)
      else if pos + length (ops e) \<le> length res then
        place_epochs draw es num_requests (pos + length (ops e)) (write_at res pos (ops e)) g
      else None)"

definition gen_one_state :: "'g draw \<Rightarrow> 'g gen" where
  "gen_one_state draw es g res =
     (case uniform_int draw g 1 (length es) of
        None \<Rightarrow> None
      | Some (num_epochs, g1) \<Rightarrow>
          (if 0 < num_epochs \<and> num_epochs \<le> length es then
             (case uniform_int draw g1 1 (length (ops (es ! (num_epochs - 1)))) of
                None \<Rightarrow> None
              | Some (num_requests, g2) \<Rightarrow>
                  (let total_elements =
                         sum_list (map (length \<circ> ops) (take (num_epochs - 1) es)) + num_requests
                   in case place_epochs draw (take num_epochs es) num_requests 0
                             (resize_ops total_elements res) g2 of
                        None \<Rightarrow> None
                      | Some (res', g3) \<Rightarrow> Some (True, res', g3)))
           else None))"

section \<open>The crash states of a list of epochs\<close>

text \<open>
  \<open>partial_epoch e xs\<close>: \<open>xs\<close> is some of the operations of \<open>e\<close> in some order, where a barrier
  comes only after all the others.  \<open>full_epoch e xs\<close>: all of them, in log order unless the
  epoch overlaps.
\<close>

definition partial_epoch :: "epoch \<Rightarrow> epoch_op list \<Rightarrow> bool" where
  "partial_epoch e xs \<longleftrightarrow>
     (if has_barrier e then
        mset xs \<subseteq># mset (butlast (ops e)) \<or>
        xs \<noteq> [] \<and> ops e \<noteq> [] \<and> last xs = last (ops e) \<and> mset (butlast xs) = mset (butlast (ops e))
      else mset xs \<subseteq># mset (ops e))"

definition full_epoch :: "epoch \<Rightarrow> epoch_op list \<Rightarrow> bool" where
  "full_epoch e xs \<longleftrightarrow>
     (if overlaps e then partial_epoch e xs \<and> length xs = length (ops e) else xs = ops e)"

definition crash_state_of :: "epoch list \<Rightarrow> epoch_op list \<Rightarrow> bool" where
  "crash_state_of es xs \<longleftrightarrow>
     (\<exists>n < length es. \<exists>css ys. xs = concat css @ ys \<and> list_all2 full_epoch (take n es) css \<and>
        partial_epoch (es ! n) ys \<and> ys \<noteq> [])"

section \<open>Every generated state is a crash state\<close>

lemma fill_slots_sound:
  "fill_slots draw os n slots g = Some (xs, m, g') \<Longrightarrow>
     length xs + m = n \<and> mset xs \<subseteq># image_mset ((!) os) (mset slots) \<and>
     (m \<noteq> 0 \<longrightarrow> mset xs = image_mset ((!) os) (mset slots))"
proof (induction draw os n slots g arbitrary: xs m g' rule: fill_slots.induct)
  case (3 draw os n s ss g)
  from 3(2) obtain k g1 ys where k: "uniform_int draw g 0 (length (s # ss) - 1) = Some (k, g1)"
      "k < length (s # ss)" "(s # ss) ! k < length os"
    and rest: "fill_slots draw os n (remove_nth k (s # ss)) g1 = Some (ys, m, g')"
    and xs: "xs = os ! ((s # ss) ! k) # ys"
    by (auto split: option.splits if_splits)
  have "mset (s # ss) = add_mset ((s # ss) ! k) (mset (remove_nth k (s # ss)))"
    using k(2) by (rule mset_remove_nth)
  then have "image_mset ((!) os) (mset (s # ss)) =
      add_mset (os ! ((s # ss) ! k)) (image_mset ((!) os) (mset (remove_nth k (s # ss))))"
    by simp
  moreover note 3(1) [OF k(1) refl conjI [OF k(2,3)] rest]
  ultimately show ?case unfolding xs by simp
qed auto

lemma map_nth_slots:
  "map ((!) xs) [0..<length xs - Suc 0] = butlast xs" "map ((!) xs) [0..<length xs] = xs"
  by (rule nth_equalityI) (simp_all add: nth_butlast map_nth)

lemma permute_epoch_sound:
  assumes "permute_epoch draw n e g = Some (xs, g')"
  shows "length xs = n \<and> partial_epoch e xs"
proof -
  let ?slots = "length (ops e) - (if has_barrier e then 1 else 0)"
  obtain ys m where fill: "fill_slots draw (ops e) n [0..<?slots] g = Some (ys, m, g')"
    and n: "n \<le> length (ops e)"
    and xs: "m = 0 \<and> xs = ys \<or> m \<noteq> 0 \<and> has_barrier e \<and> ops e \<noteq> [] \<and> xs = ys @ [last (ops e)]"
    using assms by (auto simp: permute_epoch_def Let_def split: option.splits if_splits)
  have img: "image_mset ((!) (ops e)) (mset [0..<?slots]) =
      mset (if has_barrier e then butlast (ops e) else ops e)"
    by (cases "has_barrier e") (simp_all add: map_nth_slots del: mset_upt flip: mset_map)
  note sound = fill_slots_sound [OF fill, unfolded img]
  show ?thesis
  proof (cases "m = 0")
    case True
    with xs sound show ?thesis by (auto simp: partial_epoch_def)
  next
    case False
    with xs sound have "has_barrier e" "mset ys = mset (butlast (ops e))" by auto
    moreover from this have "length ys = length (ops e) - 1"
      by (metis length_butlast size_mset)
    ultimately show ?thesis using False xs sound n by (auto simp: partial_epoch_def)
  qed
qed

lemma write_at_simps:
  assumes "pos + length xs \<le> length res"
  shows "length (write_at res pos xs) = length res"
    "take (pos + length xs) (write_at res pos xs) = take pos res @ xs"
  using assms by (simp_all add: write_at_def)

lemma place_epochs_step:
  assumes "place_epochs draw (e # es) nr pos res g = Some r" "es \<noteq> []"
  shows "\<exists>xs g1. length xs = length (ops e) \<and> full_epoch e xs \<and> pos + length xs \<le> length res \<and>
    place_epochs draw es nr (pos + length xs) (write_at res pos xs) g1 = Some r"
proof (cases "overlaps e")
  case True
  with assms obtain xs g1 where xs: "permute_epoch draw (length (ops e)) e g = Some (xs, g1)"
    "pos + length (ops e) \<le> length res"
    "place_epochs draw es nr (pos + length (ops e)) (write_at res pos xs) g1 = Some r"
    by (auto simp: Let_def split: if_splits option.splits)
  with permute_epoch_sound [OF xs(1)] True have "length xs = length (ops e) \<and> full_epoch e xs"
    by (simp add: full_epoch_def)
  with xs(2,3) show ?thesis by (metis (no_types))
next
  case False
  with assms have "length (ops e) = length (ops e) \<and> full_epoch e (ops e) \<and>
      pos + length (ops e) \<le> length res \<and>
      place_epochs draw es nr (pos + length (ops e)) (write_at res pos (ops e)) g = Some r"
    by (simp add: full_epoch_def split: if_splits)
  then show ?thesis by (metis (no_types))
qed

lemma place_epochs_sound:
  "place_epochs draw es nr pos res g = Some (res', g') \<Longrightarrow> es \<noteq> [] \<Longrightarrow>
     pos + sum_list (map (length \<circ> ops) (butlast es)) + nr = length res \<Longrightarrow>
     \<exists>css ys. res' = take pos res @ concat css @ ys \<and> list_all2 full_epoch (butlast es) css \<and>
       partial_epoch (last es) ys \<and> length ys = nr"
proof (induction es arbitrary: pos res g)
  case Nil
  then show ?case by simp
next
  case (Cons e es)
  show ?case
  proof (cases "es = []")
    case True
    with Cons.prems(1) obtain xs where perm: "permute_epoch draw nr e g = Some (xs, g')"
      and res': "res' = write_at res pos xs"
      by (auto simp: Let_def split: if_splits option.splits)
    have "length xs = nr" "partial_epoch e xs" using permute_epoch_sound [OF perm] by simp_all
    moreover from this Cons.prems True have "res' = take pos res @ concat [] @ xs"
      by (simp add: res' write_at_def)
    ultimately show ?thesis using True
      by (intro exI [of _ "[]"] exI [of _ xs]) simp
  next
    case False
    with place_epochs_step [OF Cons.prems(1)] obtain xs g1
      where xs: "length xs = length (ops e)" "full_epoch e xs" "pos + length xs \<le> length res"
      and rest: "place_epochs draw es nr (pos + length xs) (write_at res pos xs) g1 = Some (res', g')"
      by blast
    have "pos + length xs + sum_list (map (length \<circ> ops) (butlast es)) + nr =
        length (write_at res pos xs)"
      using Cons.prems(3) False xs by (simp add: write_at_simps comp_def)
    with Cons.IH [OF rest False] obtain css ys where
      "res' = take (pos + length xs) (write_at res pos xs) @ concat css @ ys"
      "list_all2 full_epoch (butlast es) css" "partial_epoch (last es) ys" "length ys = nr"
      by blast
    with xs(2) False have "res' = take pos res @ concat (xs # css) @ ys \<and>
        list_all2 full_epoch (butlast (e # es)) (xs # css) \<and>
        partial_epoch (last (e # es)) ys \<and> length ys = nr"
      unfolding write_at_simps(2) [OF xs(3)] by simp
    then show ?thesis by blast
  qed
qed

lemma take_epochs:
  assumes "0 < n" "n \<le> length es"
  shows "take n es \<noteq> []" "butlast (take n es) = take (n - 1) es" "last (take n es) = es ! (n - 1)"
proof -
  show "take n es \<noteq> []" using assms by auto
  then show "last (take n es) = es ! (n - 1)" using assms by (simp add: last_conv_nth min_def)
  show "butlast (take n es) = take (n - 1) es" using assms by (simp add: butlast_take)
qed

lemma resize_ops_length [simp]: "length (resize_ops n xs) = n"
  by (simp add: resize_ops_def)

lemma gen_one_state_sound:
  assumes "gen_one_state draw es g old = Some (b, xs, g')" and "draw_ok draw"
  shows "b \<and> crash_state_of es xs"
proof -
  from assms(1) obtain n g1 nr g2 where n: "0 < n" "n \<le> length es"
    and nr: "uniform_int draw g1 1 (length (ops (es ! (n - 1)))) = Some (nr, g2)"
    and place: "place_epochs draw (take n es) nr 0
        (resize_ops (sum_list (map (length \<circ> ops) (take (n - 1) es)) + nr) old) g2 = Some (xs, g')"
    and b: "b"
    by (auto simp: gen_one_state_def Let_def split: option.splits if_splits)
  from nr assms(2) have "1 \<le> nr"
    by (auto simp: uniform_int_def draw_ok_def split: if_splits) (metis fst_conv)
  from place_epochs_sound [OF place take_epochs(1) [OF n]] obtain css ys
    where "xs = concat css @ ys" "list_all2 full_epoch (take (n - 1) es) css"
      "partial_epoch (es ! (n - 1)) ys" "length ys = nr"
    by (auto simp: take_epochs [OF n])
  moreover from this \<open>1 \<le> nr\<close> have "ys \<noteq> []" by auto
  moreover have "n - 1 < length es" using n by simp
  ultimately have "crash_state_of es xs" unfolding crash_state_of_def by blast
  with b show ?thesis by simp
qed

section \<open>A generated state exists\<close>

definition epochs_ready :: "epoch list \<Rightarrow> bool" where
  "epochs_ready es \<longleftrightarrow> es \<noteq> [] \<and> [] \<notin> set (map ops es)"

lemma uniform_int_total:
  assumes "draw_ok draw" "a \<le> b"
  obtains k g' where "uniform_int draw g a b = Some (k, g')" "a \<le> k" "k \<le> b"
  using assms unfolding uniform_int_def draw_ok_def by (metis prod.collapse)

lemma fill_slots_total:
  "draw_ok draw \<Longrightarrow> \<forall>s\<in>set slots. s < length os \<Longrightarrow>
     \<exists>xs m g'. fill_slots draw os n slots g = Some (xs, m, g')"
proof (induction n arbitrary: slots g)
  case 0
  then show ?case by simp
next
  case (Suc n)
  show ?case
  proof (cases slots)
    case Nil
    then show ?thesis by simp
  next
    case (Cons s ss)
    obtain k g1 where k: "uniform_int draw g 0 (length (s # ss) - 1) = Some (k, g1)"
      "k \<le> length (s # ss) - 1"
      using uniform_int_total [OF Suc.prems(1), of 0] by blast
    then have "k < length (s # ss)" by (simp add: le_imp_less_Suc)
    moreover from this Suc.prems(2) have "(s # ss) ! k < length os"
      using nth_mem unfolding Cons by blast
    moreover have "\<forall>s\<in>set (remove_nth k (s # ss)). s < length os"
      using Suc.prems(2) set_remove_nth [of k "s # ss"] unfolding Cons by blast
    ultimately show ?thesis using k Suc.IH [OF Suc.prems(1), of "remove_nth k (s # ss)" g1]
      by (auto simp: Cons)
  qed
qed

lemma permute_epoch_total:
  assumes "draw_ok draw" "n \<le> length (ops e)"
  shows "\<exists>xs g'. permute_epoch draw n e g = Some (xs, g')"
proof -
  let ?slots = "length (ops e) - (if has_barrier e then 1 else 0)"
  have "\<forall>s\<in>set [0..<?slots]. s < length (ops e)" by (auto split: if_splits)
  from fill_slots_total [OF assms(1) this] obtain xs m g'
    where fill: "fill_slots draw (ops e) n [0..<?slots] g = Some (xs, m, g')" by blast
  note sound = fill_slots_sound [OF fill]
  have "m \<noteq> 0 \<Longrightarrow> length xs = ?slots"
    using sound by (metis length_map length_upt minus_nat.diff_0 mset_map size_mset)
  then have "m \<noteq> 0 \<Longrightarrow> has_barrier e \<and> ops e \<noteq> []"
    using sound assms(2) by (cases "ops e") (auto split: if_splits)
  with fill assms(2) show ?thesis by (auto simp: permute_epoch_def Let_def)
qed

lemma place_epochs_total:
  "draw_ok draw \<Longrightarrow> es \<noteq> [] \<Longrightarrow> nr \<le> length (ops (last es)) \<Longrightarrow>
     pos + sum_list (map (length \<circ> ops) (butlast es)) + nr = length res \<Longrightarrow>
     \<exists>r. place_epochs draw es nr pos res g = Some r"
proof (induction es arbitrary: pos res g)
  case Nil
  then show ?case by simp
next
  case (Cons e es)
  let ?size = "if es \<noteq> [] then length (ops e) else nr"
  have size: "?size \<le> length (ops e)" "pos + ?size \<le> length res"
    using Cons.prems(3,4) by auto
  obtain xs g1 where perm: "permute_epoch draw ?size e g = Some (xs, g1)"
    using permute_epoch_total [OF Cons.prems(1) size(1)] by blast
  have len: "length xs = ?size" using permute_epoch_sound [OF perm] by simp
  show ?case
  proof (cases "es = []")
    case True
    with perm size show ?thesis by simp
  next
    case False
    have IH: "length ys = length (ops e) \<Longrightarrow> pos + length ys \<le> length res \<Longrightarrow>
        \<exists>r. place_epochs draw es nr (pos + length (ops e)) (write_at res pos ys) g2 = Some r" for ys g2
      using Cons.IH [of "pos + length (ops e)" "write_at res pos ys" g2] Cons.prems False
      by (simp add: write_at_simps comp_def add.assoc)
    with False perm size len show ?thesis by (auto simp: Let_def)
  qed
qed

lemma gen_one_state_total:
  assumes "draw_ok draw" "epochs_ready es"
  shows "\<exists>xs g'. gen_one_state draw es g old = Some (True, xs, g')"
proof -
  have "1 \<le> length es" using assms(2) by (simp add: epochs_ready_def Suc_le_eq)
  from uniform_int_total [OF assms(1) this] obtain n g1
    where n: "uniform_int draw g 1 (length es) = Some (n, g1)" "0 < n" "n \<le> length es"
    by (metis One_nat_def Suc_le_eq)
  let ?e = "es ! (n - 1)"
  have "ops ?e \<in> set (map ops es)" using n by simp
  then have "ops ?e \<noteq> []" using assms(2) unfolding epochs_ready_def by metis
  then have "1 \<le> length (ops ?e)" by (simp add: Suc_le_eq)
  from uniform_int_total [OF assms(1) this] obtain nr g2
    where nr: "uniform_int draw g1 1 (length (ops ?e)) = Some (nr, g2)" "nr \<le> length (ops ?e)"
    by blast
  let ?total = "sum_list (map (length \<circ> ops) (take (n - 1) es)) + nr"
  obtain r where "place_epochs draw (take n es) nr 0 (resize_ops ?total old) g2 = Some r"
    using place_epochs_total [OF assms(1) take_epochs(1) [OF n(2,3)], of nr 0 "resize_ops ?total old" g2]
      nr(2) take_epochs(2,3) [OF n(2,3)] by auto
  with n nr(1) show ?thesis
    by (cases r) (simp add: gen_one_state_def Let_def)
qed

text \<open>The permuter of the repository keeps the contract of the base class.\<close>

interpretation random_permuter: total_crash_state_generator "gen_one_state draw"
  "\<lambda>es cs. draw_ok draw \<longrightarrow> crash_state_of es cs" "\<lambda>es. draw_ok draw \<and> epochs_ready es"
  for draw :: "'g draw"
  by unfold_locales (use gen_one_state_sound gen_one_state_total in fastforce)+

section \<open>Every crash state can be generated\<close>

text \<open>A generator that replays a list of numbers; a number out of range becomes the lower bound.\<close>

definition script_draw :: "nat list draw" where
  "script_draw ks a b =
     (case ks of [] \<Rightarrow> (a, []) | k # r \<Rightarrow> (if a \<le> k \<and> k \<le> b then k else a, r))"

lemma script_draw_ok: "draw_ok script_draw"
  by (auto simp: draw_ok_def script_draw_def split: list.splits)

lemma uniform_script: "a \<le> k \<Longrightarrow> k \<le> b \<Longrightarrow> uniform_int script_draw (k # ks) a b = Some (k, ks)"
  by (simp add: uniform_int_def script_draw_def)

lemma fill_slots_complete:
  "\<forall>s\<in>set slots. s < length os \<Longrightarrow> mset ys \<subseteq># mset (map ((!) os) slots) \<Longrightarrow>
     m = 0 \<or> mset ys = mset (map ((!) os) slots) \<Longrightarrow>
     \<exists>ks. \<forall>rest. fill_slots script_draw os (length ys + m) slots (ks @ rest) = Some (ys, m, rest)"
proof (induction ys arbitrary: slots)
  case Nil
  show ?case
  proof (cases m)
    case 0
    then show ?thesis by (intro exI [of _ "[]"]) simp
  next
    case (Suc m')
    with Nil.prems(3) have "slots = []" by simp
    with Suc show ?thesis by (intro exI [of _ "[]"]) simp
  qed
next
  case (Cons y ys)
  have "y \<in> set (map ((!) os) slots)"
    using Cons.prems(2) by (metis list.set_intros(1) mset_subset_eqD set_mset_mset)
  then obtain k where k: "k < length slots" "os ! (slots ! k) = y"
    by (metis (no_types, lifting) in_set_conv_nth length_map nth_map)
  then obtain s ss where slots: "slots = s # ss" by (cases slots) auto
  let ?rest = "remove_nth k slots"
  have split: "mset (map ((!) os) slots) = add_mset y (mset (map ((!) os) ?rest))"
    using mset_remove_nth [OF k(1)] k(2) by simp
  have "\<forall>s\<in>set ?rest. s < length os"
    using Cons.prems(1) set_remove_nth [of k slots] by auto
  moreover have "mset ys \<subseteq># mset (map ((!) os) ?rest)"
    using Cons.prems(2) unfolding split by simp
  moreover have "m = 0 \<or> mset ys = mset (map ((!) os) ?rest)"
    using Cons.prems(3) unfolding split by simp
  ultimately obtain ks where
    "\<forall>rest. fill_slots script_draw os (length ys + m) ?rest (ks @ rest) = Some (ys, m, rest)"
    using Cons.IH by blast
  moreover have "slots ! k < length os" using Cons.prems(1) k(1) by simp
  ultimately have "\<forall>rest. fill_slots script_draw os (length (y # ys) + m) slots ((k # ks) @ rest) =
      Some (y # ys, m, rest)"
    using k unfolding slots by (simp add: uniform_script)
  then show ?case by blast
qed

lemma permute_epoch_complete:
  assumes "partial_epoch e ys"
  shows "\<exists>ks. \<forall>rest. permute_epoch script_draw (length ys) e (ks @ rest) = Some (ys, rest)"
proof -
  let ?slots = "[0..<length (ops e) - (if has_barrier e then 1 else 0)]"
  have bound: "\<forall>s\<in>set ?slots. s < length (ops e)" by (auto split: if_splits)
  have img: "map ((!) (ops e)) ?slots = (if has_barrier e then butlast (ops e) else ops e)"
    by (simp add: map_nth_slots)
  show ?thesis
  proof (cases "mset ys \<subseteq># mset (map ((!) (ops e)) ?slots)")
    case True
    then obtain ks where ks: "\<forall>rest. fill_slots script_draw (ops e) (length ys + 0) ?slots (ks @ rest)
        = Some (ys, 0, rest)"
      using fill_slots_complete [OF bound] by blast
    have "length ys \<le> length (ops e)"
      using size_mset_mono [OF True] by (simp split: if_splits)
    with ks show ?thesis by (intro exI [of _ ks]) (simp add: permute_epoch_def Let_def)
  next
    case False
    with assms have bar: "has_barrier e" "ys \<noteq> []" "ops e \<noteq> []" "last ys = last (ops e)"
      "mset (butlast ys) = mset (map ((!) (ops e)) ?slots)"
      unfolding img partial_epoch_def by (auto split: if_splits)
    have len: "length ys = length (butlast ys) + 1" using bar(2) by simp
    have "mset (butlast ys) \<subseteq># mset (map ((!) (ops e)) ?slots)" using bar(5) by simp
    from fill_slots_complete [OF bound this disjI2 [OF bar(5)]]
    obtain ks where ks: "\<forall>rest. fill_slots script_draw (ops e) (length (butlast ys) + 1) ?slots
        (ks @ rest) = Some (butlast ys, 1, rest)"
      by blast
    have "length (butlast ys) = length (ops e) - 1"
      using bar(1,5) by (metis img length_butlast size_mset)
    moreover have "0 < length (ops e)" using bar(3) by simp
    ultimately have "length ys \<le> length (ops e)" using len by linarith
    moreover have "butlast ys @ [last (ops e)] = ys" using bar(2,4) by (metis append_butlast_last_id)
    ultimately show ?thesis using ks [folded len] bar(1,3)
      by (intro exI [of _ ks]) (simp add: permute_epoch_def Let_def)
  qed
qed

lemma partial_epoch_length:
  assumes "partial_epoch e ys"
  shows "length ys \<le> length (ops e)"
proof -
  obtain ks where "permute_epoch script_draw (length ys) e (ks @ []) = Some (ys, [])"
    using permute_epoch_complete [OF assms] by blast
  then show ?thesis by (simp add: permute_epoch_def split: if_splits)
qed

lemma full_epoch_length: "full_epoch e xs \<Longrightarrow> length xs = length (ops e)"
  by (simp add: full_epoch_def split: if_splits)

lemma place_epochs_full:
  assumes "full_epoch e xs" "es \<noteq> []" "pos + length (ops e) \<le> length res"
  shows "\<exists>ks. \<forall>rest. place_epochs script_draw (e # es) nr pos res (ks @ rest) =
    place_epochs script_draw es nr (pos + length xs) (write_at res pos xs) rest"
proof (cases "overlaps e")
  case True
  with assms(1) have "partial_epoch e xs" and len: "length xs = length (ops e)"
    by (simp_all add: full_epoch_def)
  from permute_epoch_complete [OF this(1)] obtain ks where
    "\<forall>rest. permute_epoch script_draw (length xs) e (ks @ rest) = Some (xs, rest)" by blast
  with True assms len show ?thesis by (intro exI [of _ ks]) (simp add: Let_def)
next
  case False
  with assms show ?thesis by (intro exI [of _ "[]"]) (simp add: full_epoch_def)
qed

lemma place_epochs_complete:
  "list_all2 full_epoch (butlast es) css \<Longrightarrow> es \<noteq> [] \<Longrightarrow> partial_epoch (last es) ys \<Longrightarrow>
     pos + length (concat css) + length ys = length res \<Longrightarrow>
     \<exists>ks. \<forall>rest. place_epochs script_draw es (length ys) pos res (ks @ rest) =
       Some (take pos res @ concat css @ ys, rest)"
proof (induction es arbitrary: css pos res)
  case Nil
  then show ?case by simp
next
  case (Cons e es)
  show ?case
  proof (cases "es = []")
    case True
    with Cons.prems have css: "css = []" and "partial_epoch e ys" by auto
    then obtain ks where "\<forall>rest. permute_epoch script_draw (length ys) e (ks @ rest) = Some (ys, rest)"
      using permute_epoch_complete by blast
    with True css Cons.prems(4) show ?thesis
      by (intro exI [of _ ks]) (simp add: write_at_def)
  next
    case False
    with Cons.prems(1) obtain xs css' where css: "css = xs # css'" and full: "full_epoch e xs"
      and rest: "list_all2 full_epoch (butlast es) css'"
      by (auto simp: list_all2_Cons1)
    have len: "pos + length xs \<le> length res" using Cons.prems(4) css by simp
    obtain ks where ks: "\<forall>rest. place_epochs script_draw (e # es) (length ys) pos res (ks @ rest) =
        place_epochs script_draw es (length ys) (pos + length xs) (write_at res pos xs) rest"
      using place_epochs_full [OF full False] len full_epoch_length [OF full] by metis
    have "pos + length xs + length (concat css') + length ys = length (write_at res pos xs)"
      using Cons.prems(4) css len by (simp add: write_at_simps(1))
    from Cons.IH [OF rest False _ this] Cons.prems(3) False obtain ks' where
      "\<forall>rest. place_epochs script_draw es (length ys) (pos + length xs) (write_at res pos xs)
         (ks' @ rest) = Some ((take pos res @ xs) @ concat css' @ ys, rest)"
      unfolding write_at_simps(2) [OF len] by auto
    with ks have "\<forall>rest. place_epochs script_draw (e # es) (length ys) pos res ((ks @ ks') @ rest) =
        Some (take pos res @ concat css @ ys, rest)"
      unfolding css append_assoc by simp
    then show ?thesis by blast
  qed
qed

lemma list_all2_full_length:
  "list_all2 full_epoch es css \<Longrightarrow> length (concat css) = sum_list (map (length \<circ> ops) es)"
  by (induction rule: list_all2_induct) (auto dest: full_epoch_length)

lemma gen_one_state_complete:
  assumes "crash_state_of es xs"
  shows "\<exists>g g'. gen_one_state script_draw es g old = Some (True, xs, g')"
proof -
  obtain n css ys where n: "n < length es" and xs: "xs = concat css @ ys"
    and css: "list_all2 full_epoch (take n es) css" and ys: "partial_epoch (es ! n) ys" "ys \<noteq> []"
    using assms unfolding crash_state_of_def by blast
  let ?es = "take (Suc n) es"
  have es: "?es \<noteq> []" "butlast ?es = take n es" "last ?es = es ! n"
    using take_epochs [of "Suc n" es] n by auto
  let ?res = "resize_ops (sum_list (map (length \<circ> ops) (take n es)) + length ys) old"
  have "0 + length (concat css) + length ys = length ?res"
    using list_all2_full_length [OF css] by simp
  from place_epochs_complete [OF css [folded es(2)] es(1) ys(1) [folded es(3)] this]
  obtain ks where "place_epochs script_draw ?es (length ys) 0 ?res (ks @ []) = Some (xs, [])"
    unfolding xs by auto
  moreover have "1 \<le> length ys" using ys(2) by (simp add: Suc_le_eq)
  ultimately have "gen_one_state script_draw es ([Suc n, length ys] @ ks) old = Some (True, xs, [])"
    using n partial_epoch_length [OF ys(1)]
    by (simp add: gen_one_state_def uniform_script Let_def)
  then show ?thesis by blast
qed

section \<open>Crash states of a recorded log\<close>

lemma epochs_ready_log: "data \<noteq> [] \<Longrightarrow> epochs_ready (InitDataVector R J data)"
  using segments_nonempty [of R J 0 None "[]" data]
  unfolding epochs_ready_def InitDataVector_ops
  by (metis InitDataVector_ops list.simps(8) segments_eq_Nil)

text \<open>Slices of a concatenation.\<close>

lemma concat_take_slice:
  "n < length xss \<Longrightarrow>
     concat (take n xss) = take (length (concat (take n xss))) (concat xss) \<and>
     xss ! n = take (length (xss ! n)) (drop (length (concat (take n xss))) (concat xss))"
proof -
  assume n: "n < length xss"
  have "concat xss = concat (take n xss) @ xss ! n @ concat (drop (Suc n) xss)"
    by (metis concat.simps(2) concat_append id_take_nth_drop n)
  then show ?thesis by (metis append_eq_conv_conj)
qed

text \<open>In the epochs of a plain log, an epoch is a slice of the log and only its last can be a barrier.\<close>

lemma split_after_butlast:
  "xs \<in> set (split_after P cur ds) \<Longrightarrow> \<forall>c\<in>set cur. \<not> P c \<Longrightarrow> \<forall>c\<in>set (butlast xs). \<not> P c"
  by (induction P cur ds rule: split_after.induct)
    (auto split: if_splits dest: in_set_butlastD)

lemma plain_log_epoch:
  assumes plain: "\<forall>d\<in>set data. \<not> is_split_flush R d"
    and n: "n < length (InitDataVector R J data)"
  defines "es \<equiv> InitDataVector R J data"
  defines "s \<equiv> length (concat (map ops (take n es)))" and "l \<equiv> length (ops (es ! n))"
  shows "concat (map ops (take n es)) = map (\<lambda>k. mk_op k (data ! k)) [0..<s]"
    "ops (es ! n) = map (\<lambda>k. mk_op k (data ! k)) [s..<s + l]" "0 < l" "s + l \<le> length data"
proof -
  have all: "concat (map ops es) = map (\<lambda>k. mk_op k (data ! k)) [0..<length data]"
    unfolding es_def InitDataVector_expand by (simp add: expand_plain [OF plain])
  have n': "n < length (map ops es)" using n by (simp add: es_def)
  note slice = concat_take_slice [OF n', folded take_map, unfolded all]
  have len: "s + l \<le> length data"
  proof -
    have "concat (map ops es) = concat (map ops (take n es)) @ ops (es ! n) @ concat (map ops (drop (Suc n) es))"
      by (metis concat.simps(2) concat_append id_take_nth_drop list.simps(9) map_append n es_def)
    then have "length (concat (map ops es)) = s + l + length (concat (map ops (drop (Suc n) es)))"
      unfolding s_def l_def by simp
    then show ?thesis unfolding all by simp
  qed
  then show "s + l \<le> length data" .
  show "concat (map ops (take n es)) = map (\<lambda>k. mk_op k (data ! k)) [0..<s]"
    using slice len n by (simp add: take_map take_upt flip: s_def l_def)
  have "ops (es ! n) = take l (drop s (map (\<lambda>k. mk_op k (data ! k)) [0..<length data]))"
    using slice n unfolding s_def l_def es_def by (simp add: take_map drop_map)
  also have "\<dots> = map (\<lambda>k. mk_op k (data ! k)) [s..<s + l]"
    using len by (simp add: take_map drop_map take_upt)
  finally show "ops (es ! n) = map (\<lambda>k. mk_op k (data ! k)) [s..<s + l]" .
  show "0 < l"
    using segments_nonempty [of R J 0 None "[]" data] n
    unfolding l_def es_def by (metis InitDataVector_ops length_greater_0_conv length_map nth_map nth_mem)
qed

lemma partial_epoch_subset:
  assumes "partial_epoch e ys"
  shows "mset ys \<subseteq># mset (ops e)"
proof (cases "has_barrier e \<and> \<not> mset ys \<subseteq># mset (butlast (ops e))")
  case True
  with assms have ys: "ys \<noteq> []" "ops e \<noteq> []" "last ys = last (ops e)"
    "mset (butlast ys) = mset (butlast (ops e))"
    by (auto simp: partial_epoch_def split: if_splits)
  then show ?thesis by (simp add: mset_butlast_last)
next
  case False
  have "mset (butlast (ops e)) \<subseteq># mset (ops e)"
    by (cases "ops e" rule: rev_cases) auto
  with False assms show ?thesis
    by (auto simp: partial_epoch_def split: if_splits intro: subset_mset.order_trans)
qed

text \<open>A crash state of a plain log: a prefix of the log in order, then part of one more epoch.\<close>

lemma crash_state_shape:
  assumes plain: "\<forall>d\<in>set data. \<not> is_split_flush R d"
    and crash: "crash_state_of (InitDataVector R J data) cs"
  obtains s l n ys where "n < length (InitDataVector R J data)" "0 < l" "s + l \<le> length data"
    "ops (InitDataVector R J data ! n) = map (\<lambda>k. mk_op k (data ! k)) [s..<s + l]"
    "cs = map (\<lambda>k. mk_op k (data ! k)) [0..<s] @ ys"
    "partial_epoch (InitDataVector R J data ! n) ys" "ys \<noteq> []"
proof -
  let ?es = "InitDataVector R J data"
  obtain n css ys where n: "n < length ?es" and cs: "cs = concat css @ ys"
    and css: "list_all2 full_epoch (take n ?es) css"
    and ys: "partial_epoch (?es ! n) ys" "ys \<noteq> []"
    using crash unfolding crash_state_of_def by blast
  have "\<forall>e\<in>set (take n ?es). \<not> overlaps e"
    using InitDataVector_overlaps [of R J data] set_take_subset [of n ?es]
    by (auto simp: filter_empty_conv)
  with css have "css = map ops (take n ?es)"
    by (induction rule: list_all2_induct) (auto simp: full_epoch_def)
  with cs plain_log_epoch(1) [OF plain n]
  have "cs = map (\<lambda>k. mk_op k (data ! k)) [0..<length (concat (map ops (take n ?es)))] @ ys" by simp
  from that [OF n plain_log_epoch(3,4,2) [OF plain n] this ys] show thesis .
qed

lemma crash_state_indices:
  assumes "ops e = map (\<lambda>k. mk_op k (data ! k)) [s..<s + l]" "partial_epoch e ys"
  shows "distinct (map abs_index ys)" "set (map abs_index ys) \<subseteq> {s..<s + l}"
    "\<forall>y\<in>set ys. y = mk_op (abs_index y) (data ! abs_index y)"
proof -
  have sub: "mset ys \<subseteq># mset (map (\<lambda>k. mk_op k (data ! k)) [s..<s + l])"
    using partial_epoch_subset [OF assms(2)] unfolding assms(1) .
  have "image_mset abs_index (mset ys) \<subseteq># image_mset abs_index
      (mset (map (\<lambda>k. mk_op k (data ! k)) [s..<s + l]))"
    using sub by (rule image_mset_subseteq_mono)
  then have idx: "mset (map abs_index ys) \<subseteq># mset [s..<s + l]"
    by (simp add: multiset.map_comp comp_def)
  show "distinct (map abs_index ys)"
    using idx distinct_upt by (rule distinct_submset)
  show "set (map abs_index ys) \<subseteq> {s..<s + l}"
    using set_mset_mono [OF idx] by simp
  show "\<forall>y\<in>set ys. y = mk_op (abs_index y) (data ! abs_index y)"
    using set_mset_mono [OF sub] by auto
qed

text \<open>In an epoch of a plain log that holds a barrier, the barrier is the last entry.\<close>

lemma barrier_ends_epoch:
  assumes plain: "\<forall>d\<in>set data. \<not> is_split_flush R d"
    and n: "n < length (InitDataVector R J data)"
    and os: "ops (InitDataVector R J data ! n) = map (\<lambda>k. mk_op k (data ! k)) [s..<s + l]"
    and l: "0 < l" "s + l \<le> length data"
    and b: "s \<le> b" "b < s + l" "is_barrier_write R (data ! b)"
  shows "Suc b = s + l" "has_barrier (InitDataVector R J data ! n)"
proof -
  let ?e = "InitDataVector R J data ! n"
  have "map op (ops ?e) \<in> set (split_after (is_barrier_write R) [] data)"
    using n segments_plain [OF plain, of J 0 "[]"] InitDataVector_ops [of R J data]
    by (metis length_map list.simps(8) nth_map nth_mem)
  then have nb: "\<forall>c\<in>set (butlast (map op (ops ?e))). \<not> is_barrier_write R c"
    by (rule split_after_butlast) simp
  have ev: "map op (ops ?e) = map (\<lambda>k. data ! k) [s..<s + l]" unfolding os by simp
  have "butlast (map op (ops ?e)) = map (\<lambda>k. data ! k) [s..<s + l - 1]"
    unfolding ev upt_snoc [OF l(1)] by (simp add: butlast_append)
  with nb b show "Suc b = s + l" by (cases "b < s + l - 1") auto
  then have "last (ops ?e) = mk_op b (data ! b)" unfolding os upt_snoc [OF l(1)]
    by (simp flip: \<open>Suc b = s + l\<close>)
  with os l b have "ends_in_barrier R data ?e"
    using plain by (auto simp: ends_in_barrier_def Let_def)
  then show "has_barrier ?e"
    using InitDataVector_has_barrier [of R J data] n by (metis nth_map)
qed

lemma partial_barrier_last:
  assumes e: "has_barrier e" "ops e \<noteq> []" "distinct (ops e)"
    and ys: "partial_epoch e ys" "p < length ys" "ys ! p = last (ops e)"
  shows "Suc p = length ys" "set (butlast ys) = set (butlast (ops e))"
proof -
  have notin: "last (ops e) \<notin> set (butlast (ops e))"
    using e(2,3) by (rule last_notin_butlast [rotated])
  then have "\<not> mset ys \<subseteq># mset (butlast (ops e))"
    using ys(2,3) by (metis mset_subset_eqD nth_mem set_mset_mset)
  with ys(1) e(1) have y: "ys \<noteq> []" "mset (butlast ys) = mset (butlast (ops e))"
    by (auto simp: partial_epoch_def split: if_splits)
  then show set: "set (butlast ys) = set (butlast (ops e))" by (metis set_mset_mset)
  show "Suc p = length ys"
  proof (rule ccontr)
    assume "Suc p \<noteq> length ys"
    then have "p < length (butlast ys)" using ys(2) by simp
    then have "ys ! p \<in> set (butlast ys)" by (metis nth_butlast nth_mem)
    with set notin ys(3) show False by simp
  qed
qed

section \<open>Properties\<close>

text \<open>
  C3: A crash state of a plain log never reorders across a barrier: when an operation at or after
  a barrier (in log order) has been placed, every operation before the barrier, and the barrier
  itself unless it is that operation, was placed earlier.
\<close>

theorem crash_state_respects_barriers:
  assumes plain: "\<forall>d\<in>set data. \<not> is_split_flush R d"
    and crash: "crash_state_of (InitDataVector R J data) cs"
    and b: "b < length data" "is_barrier_write R (data ! b)"
    and q: "q < length cs" "b \<le> abs_index (cs ! q)"
    and j: "j \<le> b" "j \<noteq> abs_index (cs ! q)"
  shows "\<exists>p<q. cs ! p = mk_op j (data ! j)"
proof -
  let ?F = "\<lambda>k. mk_op k (data ! k)"
  obtain s l n ys where n: "n < length (InitDataVector R J data)" and l: "0 < l" "s + l \<le> length data"
    and os: "ops (InitDataVector R J data ! n) = map ?F [s..<s + l]"
    and cs: "cs = map ?F [0..<s] @ ys" and ys: "partial_epoch (InitDataVector R J data ! n) ys"
    by (rule crash_state_shape [OF plain crash])
  note idx = crash_state_indices [OF os ys]
  have prefix: "p < s \<Longrightarrow> cs ! p = ?F p" for p by (simp add: cs nth_append)
  have suffix: "s \<le> q \<Longrightarrow> cs ! q = ys ! (q - s) \<and> q - s < length ys"
    using q(1) by (auto simp: cs nth_append)
  show ?thesis
  proof (cases "q < s \<or> j < s")
    case True
    then have "j < q" "j < s" using prefix [of q] q(2) j suffix by fastforce+
    then show ?thesis using prefix by blast
  next
    case False
    define y where "y = ys ! (q - s)"
    have y: "y \<in> set ys" "cs ! q = y" using suffix False by (auto simp: y_def)
    then have "abs_index y < s + l" using idx(2) by auto
    with y q(2) have "b < s + l" by simp
    with barrier_ends_epoch [OF plain n os l _ _ b(2)] False j(1)
    have end_: "Suc b = s + l" and bar: "has_barrier (InitDataVector R J data ! n)" by auto
    with y q(2) \<open>abs_index y < s + l\<close> have "abs_index y = b" by simp
    with idx(3) y(1) have yb: "ys ! (q - s) = ?F b" unfolding y_def by metis
    have nonempty: "ops (InitDataVector R J data ! n) \<noteq> []"
      and dist: "distinct (ops (InitDataVector R J data ! n))"
      and last: "last (ops (InitDataVector R J data ! n)) = ?F b"
      and bl: "butlast (ops (InitDataVector R J data ! n)) = map ?F [s..<b]"
      unfolding os upt_snoc [OF l(1)] by (auto simp: distinct_map inj_on_def simp flip: end_)
    have pos: "Suc (q - s) = length ys" and set: "set (butlast ys) = ?F ` {s..<b}"
      using partial_barrier_last [OF bar nonempty dist ys, of "q - s"] suffix False yb last bl by auto
    have "?F j \<in> set (butlast ys)"
      using False j \<open>abs_index y = b\<close> y(2) unfolding set by auto
    then obtain p where "p < length (butlast ys)" "butlast ys ! p = ?F j"
      by (meson in_set_conv_nth)
    then have "s + p < q \<and> cs ! (s + p) = ?F j"
      using pos False by (auto simp: cs nth_append nth_butlast)
    then show ?thesis by blast
  qed
qed

text \<open>The epochs of a small log: a write, a FUA write, two more writes.\<close>

definition sample_log :: "disk_write list" where
  "sample_log = [sample_op 1 0 [1], sample_op 0x801 8 [2], sample_op 1 16 [3], sample_op 1 24 [4]]"

lemma sample_log_plain: "\<forall>d\<in>set sample_log. \<not> is_split_flush flag_names_req d"
  by (simp add: sample_log_def is_split_flush_def dw_flag_defs meta_defs)

definition sample_epochs :: "epoch list" where
  "sample_epochs =
     [\<lparr>num_meta = 7, has_barrier = True, overlaps = False,
       ops = [mk_op 0 (sample_op 1 0 [1]), mk_op 1 (sample_op 0x801 8 [2])]\<rparr>,
      \<lparr>num_meta = 7, has_barrier = False, overlaps = False,
       ops = [mk_op 2 (sample_op 1 16 [3]), mk_op 3 (sample_op 1 24 [4])]\<rparr>]"

lemma sample_epochs: "InitDataVector flag_names_req sample_indet sample_log = sample_epochs"
  by (simp add: InitDataVector_def sample_log_def sample_epochs_def init_loop.simps
      fill_step_def push_pending_def push_op_def is_split_flush_def dw_flag_defs meta_defs
      sample_indet_def Let_def)

definition sample_crash_state :: "epoch_op list" where
  "sample_crash_state = [mk_op 0 (sample_op 1 0 [1]), mk_op 1 (sample_op 0x801 8 [2]),
     mk_op 3 (sample_op 1 24 [4])]"

lemma sample_generated:
  "gen_one_state script_draw sample_epochs [2, 1, 1] [] = Some (True, sample_crash_state, [])"
  by (simp add: gen_one_state_def uniform_script sample_epochs_def sample_crash_state_def
      permute_epoch_def remove_nth_def write_at_def resize_ops_def Let_def numeral_2_eq_2)

lemma sample_epochs_ready: "epochs_ready sample_epochs"
  by (simp add: epochs_ready_def sample_epochs_def)

lemma sample_crash_state_of: "crash_state_of sample_epochs sample_crash_state"
  using gen_one_state_sound [OF sample_generated script_draw_ok] by simp

theorem crash_state_respects_barriers_witness:
  "\<exists>p<2. sample_crash_state ! p = mk_op 1 (sample_op 0x801 8 [2])"
  using crash_state_respects_barriers [OF sample_log_plain
      sample_crash_state_of [folded sample_epochs], of 1 2 1]
  by (simp add: sample_log_def sample_crash_state_def dw_flag_defs meta_defs)

text \<open>
  C9: The crash states the random permuter can produce, over all sequences of random numbers,
  are exactly those of the specification: some epochs complete and in order, then a non-empty part
  of the next epoch in any order with its barrier last.
\<close>

theorem gen_one_state_exact:
  "(\<exists>g g'. gen_one_state script_draw es g old = Some (True, xs, g')) = crash_state_of es xs"
  using gen_one_state_sound [OF _ script_draw_ok] gen_one_state_complete by blast

text \<open>
  C27: With random numbers inside the bounds asked for, and for epochs as InitDataVector makes them
  from a non-empty log, gen_one_state returns: no assertion fails, no index is out of range, no
  distribution is empty, and its answer is true.
\<close>

theorem gen_one_state_returns:
  assumes "draw_ok draw" "data \<noteq> []"
  shows "\<exists>xs g'. gen_one_state draw (InitDataVector R J data) g old = Some (True, xs, g') \<and>
    crash_state_of (InitDataVector R J data) xs"
  using gen_one_state_total [OF assms(1) epochs_ready_log [OF assms(2)]] gen_one_state_sound [OF _ assms(1)]
  by blast

theorem gen_one_state_returns_witness:
  "\<exists>xs g'. gen_one_state script_draw (InitDataVector flag_names_req sample_indet sample_log) [2] [] =
    Some (True, xs, g')"
  using gen_one_state_returns [OF script_draw_ok, of sample_log flag_names_req sample_indet "[2]" "[]"]
  by (auto simp: sample_log_def)

text \<open>
  A call of GenerateCrashState that answers true returns the operations of a crash state of
  the epochs whose key was not produced before, and adds this key; the epochs stay.
\<close>

theorem GenerateCrashState_new:
  assumes "draw_ok draw" "GenerateCrashState (gen_one_state draw) P = Some (True, res, P')"
  shows "\<exists>cs. crash_state_of (epochs P) cs \<and> res = map op cs \<and>
    map abs_index cs \<notin> completed_permutations P \<and>
    completed_permutations P' = insert (map abs_index cs) (completed_permutations P) \<and>
    epochs P' = epochs P"
  using random_permuter.GenerateCrashState_true [OF assms(2)] assms(1) by blast

definition sample_permuter :: "nat list permuter" where
  "sample_permuter = \<lparr>epochs = sample_epochs, completed_permutations = {}, rand = [2, 1, 1]\<rparr>"

lemma sample_GenerateCrashState:
  "GenerateCrashState (gen_one_state script_draw) sample_permuter =
     Some (True, map op sample_crash_state,
       sample_permuter\<lparr>completed_permutations := {[0, 1, 3]}, rand := []\<rparr>)"
  by (simp add: GenerateCrashState_def sample_permuter_def generate_loop.simps
      sample_generated [simplified]
      max_retries_of_def kMinRetries_def kRetryMultiplier_def sample_crash_state_def Let_def)

theorem GenerateCrashState_new_witness:
  "\<exists>cs. crash_state_of sample_epochs cs \<and> map op sample_crash_state = map op cs"
  using GenerateCrashState_new [OF script_draw_ok sample_GenerateCrashState]
  by (auto simp: sample_permuter_def)

text \<open>
  A new permuter: its generator is seeded with 42, and the factory does not look at its argument
  (nor does the harness pass one).  Its first crash state is always a new one.
\<close>

definition RandomPermuter :: "(nat \<Rightarrow> 'g) \<Rightarrow> 'g permuter" where
  "RandomPermuter mt19937 = \<lparr>epochs = [], completed_permutations = {}, rand = mt19937 42\<rparr>"

definition init_data :: "epoch list \<Rightarrow> 'g permuter \<Rightarrow> 'g permuter" where
  "init_data es P = P"

definition permuter_get_instance :: "(nat \<Rightarrow> 'g) \<Rightarrow> disk_write list \<Rightarrow> 'g permuter" where
  "permuter_get_instance mt19937 data = RandomPermuter mt19937"

lemma first_crash_state:
  assumes "gen_one_state draw (epochs P) (rand P) [] = Some (True, cs, g)" "completed_permutations P = {}"
  shows "\<exists>P'. GenerateCrashState (gen_one_state draw) P = Some (True, map op cs, P')"
  using assms by (simp add: GenerateCrashState_def generate_loop.simps Let_def)

lemma new_permuter_finds_one:
  assumes "draw_ok draw" "data \<noteq> []"
  shows "\<exists>cs P'. crash_state_of (InitDataVector R J data) cs \<and>
    GenerateCrashState (gen_one_state draw)
      ((permuter_get_instance mt19937 junk)\<lparr>epochs := InitDataVector R J data\<rparr>)
      = Some (True, map op cs, P')"
proof -
  let ?P = "(permuter_get_instance mt19937 junk)\<lparr>epochs := InitDataVector R J data\<rparr>"
  obtain cs g where g: "gen_one_state draw (epochs ?P) (rand ?P) [] = Some (True, cs, g)"
    using gen_one_state_total [OF assms(1) epochs_ready_log [OF assms(2)]] by fastforce
  have "completed_permutations ?P = {}" by (simp add: permuter_get_instance_def RandomPermuter_def)
  from first_crash_state [OF g this] gen_one_state_sound [OF g assms(1)] show ?thesis by auto
qed

text \<open>
  GenerateCrashState returns after at least one and at most max(1000, 2n) calls of
  gen_one_state, n the number of crash states produced so far.
\<close>

theorem GenerateCrashState_returns:
  assumes "draw_ok draw" "epochs_ready (epochs P)"
  shows "\<exists>b res P' k. GenerateCrashState (gen_one_state draw) P = Some (b, res, P') \<and>
    map_option (\<lambda>(_, _, Q). fst (rand Q)) (GenerateCrashState (counted (gen_one_state draw))
      \<lparr>epochs = epochs P, completed_permutations = completed_permutations P, rand = (0, rand P)\<rparr>)
      = Some k \<and>
    1 \<le> k \<and> k \<le> max 1000 (2 * card (completed_permutations P))"
proof -
  let ?P = "\<lparr>epochs = epochs P, completed_permutations = completed_permutations P,
    rand = (0, rand P)\<rparr>"
  have "forget_count ?P = P" by (simp add: forget_count_def)
  obtain r where r: "GenerateCrashState (gen_one_state draw) P = Some r"
    using random_permuter.GenerateCrashState_total assms by blast
  then have "GenerateCrashState (counted (gen_one_state draw)) ?P \<noteq> None"
    using GenerateCrashState_counted_None [of "gen_one_state draw" ?P] \<open>forget_count ?P = P\<close> by force
  then obtain b res Q where Q: "GenerateCrashState (counted (gen_one_state draw)) ?P = Some (b, res, Q)"
    by (metis option.exhaust prod_cases3)
  note count = GenerateCrashState_counted [OF Q, unfolded \<open>forget_count ?P = P\<close>]
  have "max_retries_of (completed_permutations P) = max 1000 (2 * card (completed_permutations P))"
    by (simp add: max_retries_of_def kMinRetries_def kRetryMultiplier_def)
  with Q count show ?thesis by auto
qed

theorem GenerateCrashState_returns_witness:
  "GenerateCrashState (gen_one_state script_draw) sample_permuter \<noteq> None"
  using GenerateCrashState_returns [OF script_draw_ok, of sample_permuter] sample_epochs_ready
  by (auto simp: sample_permuter_def)

end
