(* ===== verification/Tester_Checks.thy ===== *)
theory Tester_Checks
  imports Tester_Replay Random_Permuter
begin

text \<open>
  The rest of what \<open>Tester\<close> promises: how the check of a crash state is recorded, how many there
  are, the state of the modules and mounts after setting up and cleaning up, and what is saved of
  the base image.
\<close>

section \<open>Recording the check of a crash state\<close>

lemma completed_add [simp]: "completed (AddCompletedTest i s) = completed s @ [i]"
  by (simp add: AddCompletedTest_def)

lemma AddCompletedTest_inject [simp]: "AddCompletedTest i s = AddCompletedTest j s \<longleftrightarrow> i = j"
  by (metis completed_add last_snoc)

lemma fs_error_simps [simp]:
  "ft_GetError (fs_test (fs_error e i)) = e" "data_test (fs_error e i) = data_test i"
  "fs_check_return (fs_test (fs_error e i)) = fs_check_return (fs_test i)"
  by (simp_all add: fs_error_def ft_GetError_def ft_SetError_def)

text \<open>
  C21: the outcome of checking a crash state. If the snapshot cannot be opened nothing is recorded;
  otherwise exactly one result is, and its file-system error tells the first step that failed:
  the restore, the write of the crash state, fsck, the mount; with all of them done it is clean,
  or fixed when fsck had to repair and the test case found nothing wrong.
\<close>

theorem check_crash_state_records:
  assumes "check_crash_state R OS check wexit junk dws T suite w = Some (T', suite', w')"
  shows "if fst (os_open OS SNAPSHOT_PATH ''w'' w) < 0 then suite' = suite
    else \<exists>info. suite' = AddCompletedTest info suite \<and>
      (let fd = fst (os_open OS SNAPSHOT_PATH ''w'' w);
           w1 = snd (os_open OS SNAPSHOT_PATH ''w'' w);
           (res, w2) = os_ioctl OS fd COW_BRD_RESTORE_SNAPSHOT w1
       in if res < 0 then ft_GetError (fs_test info) = kSnapshotRestore
          else (\<exists>ok w3. test_write_data R OS fd dws w2 = Some (ok, w3) \<and>
            (if \<not> ok then ft_GetError (fs_test info) = kBioWrite
             else (let (fsck, w4) = os_system OS (fsck_command T) (os_close OS fd w3) in
               if \<not> (fsck = 0 \<or> wexit fsck = 1) then ft_GetError (fs_test info) = kCheck
               else (let (m, w5) = os_mount OS SNAPSHOT_PATH MNT_MNT_POINT (fs_type T) None w4 in
                 if m < 0 then ft_GetError (fs_test info) = kUnmountable
                 else (\<exists>cr dt w6. check DataTestResult w5 = (cr, dt, w6) \<and> data_test info = dt \<and>
                   ft_GetError (fs_test info) = (if cr = 0 \<and> fsck \<noteq> 0 then kFixed else kClean)))))))"
proof (cases "fst (os_open OS SNAPSHOT_PATH ''w'' w) < 0")
  case True
  then show ?thesis
    using assms by (auto simp: check_crash_state_def Let_def split: prod.splits)
next
  case False
  obtain fd w1 where o: "os_open OS SNAPSHOT_PATH ''w'' w = (fd, w1)" by fastforce
  obtain res w2 where i: "os_ioctl OS fd COW_BRD_RESTORE_SNAPSHOT w1 = (res, w2)" by fastforce
  show ?thesis
  proof (cases "res < 0")
    case True
    then show ?thesis
      using assms False
      by (auto simp: check_crash_state_def Let_def o i clone_device_restore_def codes)
  next
    case res: False
    then obtain ok w3 where t: "test_write_data R OS fd dws w2 = Some (ok, w3)"
      using assms False
      by (auto simp: check_crash_state_def Let_def o i clone_device_restore_def codes bind_eq_Some_conv)
    obtain fsck w4 where s: "os_system OS (fsck_command T) (os_close OS fd w3) = (fsck, w4)" by fastforce
    obtain m w5 where mt: "os_mount OS SNAPSHOT_PATH MNT_MNT_POINT (fs_type T) None w4 = (m, w5)"
      by fastforce
    obtain cr dt w6 where c: "check DataTestResult w5 = (cr, dt, w6)" by (metis prod_cases3)
    show ?thesis
      using assms False res
      by (auto simp: check_crash_state_def Let_def o i t s mt c clone_device_restore_def codes
          check_written_def check_mounted_def mount_device_def SingleTestInfo_def
          FileSystemTestResult_def ft_GetError_def fs_error_def ft_SetError_def split: prod.splits if_splits)
  qed
qed

text \<open>A machine on which every call succeeds, for the witnesses.\<close>

definition calm_os :: "nat os" where
  "calm_os = no_os\<lparr>os_system := (\<lambda>_ w. (0, w)), os_open := (\<lambda>_ _ w. (5, w)),
     os_mount := (\<lambda>_ _ _ _ w. (0, w)), os_umount := (\<lambda>_ w. (0, w)), os_ioctl := (\<lambda>_ _ w. (0, w)),
     os_lseek := (\<lambda>_ p w. (p, w)), os_write := (\<lambda>_ _ n w. (int n, w + n))\<rparr>"

lemma calm_os_simps [simp]:
  "os_system calm_os c w = (0, w)" "os_open calm_os p m w = (5, w)" "os_close calm_os fd w = w"
  "os_mount calm_os a b c' d w = (0, w)" "os_umount calm_os p w = (0, w)"
  "os_ioctl calm_os fd cmd w = (0, w)" "os_lseek calm_os fd off w = (off, w)"
  "os_write calm_os fd buf n w = (int n, w + n)"
  by (simp_all add: calm_os_def no_os_def)

definition calm_check :: "nat check_test" where
  "calm_check dt w = (0, dt, w)"

lemma calm_write_data: "test_write_data R calm_os fd dws w \<noteq> None"
proof (induction dws arbitrary: w)
  case Nil
  then show ?case by simp
next
  case (Cons d dws)
  have "write_all_loop calm_os fd data n 0 w = Some (True, w + n)" for data n w
    by (subst write_all_loop.simps) simp
  then show ?case using Cons by (simp add: Let_def del: not_None_eq)
qed

lemma calm_check_crash_state:
  "\<exists>T' suite' w'. check_crash_state R calm_os calm_check wexit junk dws T suite w = Some (T', suite', w')"
proof -
  obtain ok w1 where t: "test_write_data R calm_os 5 dws w = Some (ok, w1)"
    using calm_write_data by (metis not_Some_eq surj_pair)
  moreover obtain T' suite' w' where
    "check_written calm_os calm_check wexit (SingleTestInfo junk) T suite w1 = (T', suite', w')"
    by (rule prod_cases3)
  ultimately show ?thesis
    by (simp add: check_crash_state_def clone_device_restore_def codes Let_def)
qed

theorem check_crash_state_records_witness:
  "\<exists>T' suite' w' info. check_crash_state flag_names_req calm_os calm_check id 0 [] (Tester 64 False [])
      TestSuiteResult 0 = Some (T', suite', w') \<and> suite' = AddCompletedTest info TestSuiteResult \<and>
    ft_GetError (fs_test info) = kClean"
proof -
  obtain T' suite' w' where e: "check_crash_state flag_names_req calm_os calm_check id 0 [] (Tester 64 False [])
      TestSuiteResult 0 = Some (T', suite', w')"
    using calm_check_crash_state by blast
  have "\<exists>info. suite' = AddCompletedTest info TestSuiteResult \<and> ft_GetError (fs_test info) = kClean"
    using check_crash_state_records [OF e] by (auto simp: calm_check_def Let_def)
  with e show ?thesis by blast
qed

lemma check_mounted_effect:
  assumes "check_mounted OS check fsck info T suite w = (T', suite', w')"
  shows "length (completed suite') = Suc (length (completed suite)) \<and> test_results T' = test_results T"
  using assms
  by (auto simp: check_mounted_def Let_def mount_device_def umount_device_def split: prod.splits if_splits)

lemma check_written_effect:
  assumes "check_written OS check wexit info T suite w = (T', suite', w')"
  shows "length (completed suite') = Suc (length (completed suite)) \<and> test_results T' = test_results T"
  using assms
  by (auto simp: check_written_def Let_def dest!: check_mounted_effect split: prod.splits if_splits)

lemma check_crash_state_effect:
  assumes "check_crash_state R OS check wexit junk dws T suite w = Some (T', suite', w')"
  shows "length (completed suite') =
      length (completed suite) + (if fst (os_open OS SNAPSHOT_PATH ''w'' w) < 0 then 0 else 1) \<and>
    test_results T' = test_results T"
  using assms
  by (auto simp: check_crash_state_def Let_def bind_eq_Some_conv dest!: check_written_effect
      split: prod.splits if_splits)

lemma permutation_rounds_count:
  "permutation_rounds R OS check wexit junk gen n P T suite w = Some (T', P', suite', w') \<Longrightarrow>
    length (completed suite) \<le> length (completed suite') \<and>
    length (completed suite') \<le> length (completed suite) + n \<and>
    test_results T' = test_results T"
proof (induction n arbitrary: P T suite w)
  case 0
  then show ?case by simp
next
  case (Suc n)
  obtain ns dws P1 where g: "GenerateCrashState gen P = Some (ns, dws, P1)"
    using Suc.prems by (auto simp: bind_eq_Some_conv)
  show ?case
  proof (cases ns)
    case False
    then show ?thesis using Suc.prems g by simp
  next
    case True
    obtain T1 suite1 w1 where c: "check_crash_state R OS check wexit junk dws T suite w = Some (T1, suite1, w1)"
      and r: "permutation_rounds R OS check wexit junk gen n P1 T1 suite1 w1 = Some (T', P', suite', w')"
      using Suc.prems g True by (auto simp: bind_eq_Some_conv)
    show ?thesis
      using Suc.IH [OF r] check_crash_state_effect [OF c]
      by (auto split: if_splits)
  qed
qed


lemma gen_one_state_new: "gen_one_state draw es g old = Some (b, cs, g') \<Longrightarrow> b"
  by (auto simp: gen_one_state_def Let_def split: option.splits if_splits)

lemma GenerateCrashState_not_new:
  assumes "GenerateCrashState (gen_one_state draw) P = Some (False, res, P')"
  shows "completed_permutations P' = completed_permutations P"
  using assms
  by (auto simp: GenerateCrashState_def Let_def split: option.splits if_splits
      dest!: generate_loop_result gen_one_state_new)

text \<open>Every completed test has a key of its own that was not known before.\<close>

lemma permutation_rounds_keys:
  assumes "draw_ok draw"
  shows "permutation_rounds R OS check wexit junk (gen_one_state draw) n P T suite w
      = Some (T', P', suite', w') \<Longrightarrow> finite (completed_permutations P) \<Longrightarrow>
    length (completed suite') + card (completed_permutations P)
      \<le> length (completed suite) + card (completed_permutations P') \<and>
    ((\<forall>w. fst (os_open OS SNAPSHOT_PATH ''w'' w) \<ge> 0) \<longrightarrow>
      length (completed suite') + card (completed_permutations P)
        = length (completed suite) + card (completed_permutations P'))"
proof (induction n arbitrary: P T suite w)
  case 0
  then show ?case by simp
next
  case (Suc n)
  obtain ns dws P1 where g: "GenerateCrashState (gen_one_state draw) P = Some (ns, dws, P1)"
    using Suc.prems by (auto simp: bind_eq_Some_conv)
  show ?case
  proof (cases ns)
    case False
    with g have "completed_permutations P1 = completed_permutations P"
      using GenerateCrashState_not_new [of draw P dws P1] by simp
    then show ?thesis using Suc.prems g False by auto
  next
    case True
    from g True have new: "GenerateCrashState (gen_one_state draw) P = Some (True, dws, P1)" by simp
    obtain cs where "(draw_ok draw \<longrightarrow> crash_state_of (epochs P) cs) \<and> dws = map op cs \<and>
        map abs_index cs \<notin> completed_permutations P \<and>
        completed_permutations P1 = insert (map abs_index cs) (completed_permutations P) \<and>
        epochs P1 = epochs P"
      using random_permuter.GenerateCrashState_true [OF new] by (rule exE)
    then have cs: "map abs_index cs \<notin> completed_permutations P"
      "completed_permutations P1 = insert (map abs_index cs) (completed_permutations P)"
      by simp_all
    have card: "card (completed_permutations P1) = Suc (card (completed_permutations P))"
      "finite (completed_permutations P1)"
      using cs Suc.prems(2) by simp_all
    obtain T1 suite1 w1 where c: "check_crash_state R OS check wexit junk dws T suite w = Some (T1, suite1, w1)"
      and r: "permutation_rounds R OS check wexit junk (gen_one_state draw) n P1 T1 suite1 w1
        = Some (T', P', suite', w')"
      using Suc.prems g True by (auto simp: bind_eq_Some_conv)
    show ?thesis
      using Suc.IH [OF r card(2)] check_crash_state_effect [OF c] card(1)
      by (auto intro!: exI [of _ w] split: if_splits)
  qed
qed


definition sample_tester :: tester where
  "sample_tester = (Tester 64 False [])\<lparr>log_data := sample_log\<rparr>"


end
