(* ===== verification/Tester_States.thy ===== *)
theory Tester_States
  imports Tester_Checks
begin

text \<open>
  The crash state tests end to end.  Every operation the permuter hands out is well typed for the
  device if the log was; and whatever fsck, the mount and the test case did to the snapshot in
  earlier rounds, each round shows fsck the frozen base image with the writes of one crash state
  of the log on it.  The rounds are proved once in the locale \<open>snapshot_tests\<close>, interpreted on a
  RAM disk snapshot of \<open>Cow_Brd\<close>.
\<close>

section \<open>The operations of a crash state\<close>

text \<open>
  The flags of the halves of flushes are not initialised.  \<open>quiet_halves\<close> says that they happen
  not to hold the flag of a write.
\<close>

definition quiet_halves :: "req_flags \<Rightarrow> indet \<Rightarrow> disk_write list \<Rightarrow> bool" where
  "quiet_halves R J data \<longleftrightarrow> (\<forall>k\<in>{..<length data}. is_split_flush R (data ! k) \<longrightarrow>
     \<not> has_mask (bi_rw (indet_flag_half J k)) (REQ_WRITE R))"

lemma quiet_halves_plain: "\<forall>d\<in>set data. \<not> is_split_flush R d \<Longrightarrow> quiet_halves R J data"
  by (simp add: quiet_halves_def)

lemma flag_half_write:
  assumes "req_ok R"
  shows "has_write_flag R (flag_half_of R m d) = has_mask (bi_rw m) (REQ_WRITE R)"
  using flag_simps [OF assms]
  by (simp add: flag_half_of_def Let_def uninit_disk_write_def) (simp add: dw_flag_defs meta_defs)

lemma data_half_fits:
  assumes "req_ok R"
  shows "op_fits R limit (data_half_of R d) = op_fits R limit d"
  unfolding op_fits_def log_op_def dw_wf_def data_half_frame [OF assms] ..

lemma expand_fits:
  assumes "req_ok R" "c \<in> set (expand R J i p ds)" "\<forall>d\<in>set ds \<union> set_option p. op_fits R limit d"
    "\<forall>k<length ds. is_split_flush R (ds ! k) \<longrightarrow>
      \<not> has_mask (bi_rw (indet_flag_half J (i + k))) (REQ_WRITE R)"
  shows "op_fits R limit (op c)"
  using assms(2-4)
proof (induction ds arbitrary: i p)
  case Nil
  then show ?case by simp
next
  case (Cons d ds)
  have quiet: "is_split_flush R d \<Longrightarrow> \<not> has_mask (bi_rw (indet_flag_half J i)) (REQ_WRITE R)"
    "\<forall>k<length ds. is_split_flush R (ds ! k) \<longrightarrow>
      \<not> has_mask (bi_rw (indet_flag_half J (i + 1 + k))) (REQ_WRITE R)"
    using Cons.prems(3) by (auto simp: All_less_Suc2)
  show ?case
  proof (cases "is_barrier_write R d")
    case False
    then consider "op c \<in> insert d (set_option p)" | "c \<in> set (expand R J (i + 1) None ds)"
      using Cons.prems(1) by (cases p) auto
    then show ?thesis
      by cases (use Cons.IH Cons.prems(2) quiet(2) False in auto)
  next
    case True
    have h: "op_fits R limit (data_half_of R d)"
      using Cons.prems(2) by (simp add: data_half_fits [OF assms(1)])
    have f: "is_split_flush R d \<Longrightarrow> op_fits R limit (flag_half_of R (indet_flag_half J i) d)"
      using quiet(1) by (simp add: op_fits_def flag_half_write [OF assms(1)])
    show ?thesis using Cons.IH Cons.prems(1,2) quiet(2) True h f by (auto split: if_splits)
  qed
qed

lemma crash_state_ops:
  assumes "crash_state_of es cs" "c \<in> set cs"
  shows "c \<in> set (concat (map ops es))"
proof -
  obtain n css ys where n: "n < length es" and cs: "cs = concat css @ ys"
    and css: "list_all2 full_epoch (take n es) css" and ys: "partial_epoch (es ! n) ys"
    using assms(1) unfolding crash_state_of_def by blast
  have part: "set xs \<subseteq> set (ops e)" if "partial_epoch e xs" for e xs
    using set_mset_mono [OF partial_epoch_subset [OF that]] by simp
  have full: "set xs \<subseteq> set (ops e)" if "full_epoch e xs" for e xs
    using that part by (auto simp: full_epoch_def split: if_splits)
  have "set (concat css) \<subseteq> set (concat (map ops (take n es)))"
    using css
  proof (induction rule: list_all2_induct)
    case (Cons e es xs xss)
    then show ?case using full [of e xs] by auto
  qed simp
  moreover have "set (concat (map ops (take n es))) \<subseteq> set (concat (map ops es))"
    using set_take_subset [of n es] by auto
  moreover have "set ys \<subseteq> set (concat (map ops es))" using part [OF ys] nth_mem [OF n] by (auto intro: bexI [of _ "es ! n"])
  ultimately show ?thesis using assms(2) unfolding cs set_append by blast
qed

lemma epoch_ops_fit:
  assumes "req_ok R" "quiet_halves R J data" "\<forall>d\<in>set data. op_fits R limit d"
    "c \<in> set (concat (map ops (InitDataVector R J data)))"
  shows "op_fits R limit (op c)"
proof -
  have "op c \<in> op ` set (expand R J 0 None data)"
    using assms(4) unfolding InitDataVector_expand by simp
  then show ?thesis
    using expand_fits [OF assms(1)] assms(2,3) by (fastforce simp: quiet_halves_def)
qed

section \<open>The rounds of the crash state tests\<close>

text \<open>
  What the tests need of the machine: the snapshot can be opened for writing and restored, whatever
  its contents; reading and writing its file does not change what fsck has seen; fsck, the mount,
  the test case and the unmount may change the snapshot, but leave it a snapshot.  \<open>seen\<close> lists
  the disks fsck was started on.
\<close>

locale snapshot_tests =
  fixes OS :: "'w os" and fd :: int and file_ok :: "'w \<Rightarrow> bool" and contents :: "'w \<Rightarrow> nat \<Rightarrow> byte"
    and position :: "'w \<Rightarrow> nat" and limit :: nat
    and seen :: "'w \<Rightarrow> (nat \<Rightarrow> byte) list" and base :: "nat \<Rightarrow> byte" and check :: "'w check_test"
  assumes fd: "0 \<le> fd"
    and as_file: "block_file OS fd (\<lambda>w. file_ok w \<and> seen w = s) contents position limit"
    and opened: "file_ok w \<Longrightarrow> \<exists>w'. os_open OS SNAPSHOT_PATH ''w'' w = (fd, w') \<and> file_ok w' \<and> seen w' = seen w"
    and restored: "file_ok w \<Longrightarrow> \<exists>w'. os_ioctl OS fd COW_BRD_RESTORE_SNAPSHOT w = (0, w') \<and> file_ok w' \<and>
      seen w' = seen w \<and> contents w' = base"
    and closed: "file_ok w \<Longrightarrow> file_ok (os_close OS fd w) \<and> seen (os_close OS fd w) = seen w \<and>
      contents (os_close OS fd w) = contents w"
    and fsck_sees: "file_ok w \<Longrightarrow> os_system OS c w = (r, w') \<Longrightarrow> file_ok w' \<and> seen w' = seen w @ [contents w]"
    and mounted: "file_ok w \<Longrightarrow> os_mount OS p q fs opts w = (r, w') \<Longrightarrow> file_ok w' \<and> seen w' = seen w"
    and unmounted: "file_ok w \<Longrightarrow> os_umount OS p w = (r, w') \<Longrightarrow> file_ok w' \<and> seen w' = seen w"
    and checked: "file_ok w \<Longrightarrow> check dt w = (r, dt', w') \<Longrightarrow> file_ok w' \<and> seen w' = seen w"
begin

lemma check_mounted_keeps:
  assumes "check_mounted OS check fsck info T suite w = (T', suite', w')" "file_ok w"
  shows "file_ok w' \<and> seen w' = seen w"
proof -
  obtain r w1 where m: "os_mount OS SNAPSHOT_PATH MNT_MNT_POINT (fs_type T) None w = (r, w1)" by fastforce
  obtain cr dt w2 where c: "check (data_test info) w1 = (cr, dt, w2)" by (rule prod_cases3)
  obtain u w3 where u: "os_umount OS MNT_MNT_POINT w2 = (u, w3)" by fastforce
  note keeps = mounted [OF assms(2) m]
  note keeps' = checked [OF conjunct1 [OF keeps] c]
  show ?thesis
    using assms(1) keeps keeps' unmounted [OF conjunct1 [OF keeps'] u]
    by (auto simp: check_mounted_def mount_device_def umount_device_def Let_def m c u codes split: if_splits)
qed

lemma check_written_sees:
  assumes "check_written OS check wexit info T suite w = (T', suite', w')" "file_ok w"
  shows "file_ok w' \<and> seen w' = seen w @ [contents w]"
proof -
  obtain r w1 where r: "os_system OS (fsck_command T) w = (r, w1)" by fastforce
  then show ?thesis
    using assms fsck_sees [OF assms(2) r] check_mounted_keeps
    by (fastforce simp: check_written_def Let_def split: if_splits)
qed

text \<open>One round.\<close>

lemma round_sees:
  assumes "file_ok w" "\<forall>dw\<in>set dws. op_fits R limit dw"
  shows "\<exists>T' suite' w'. check_crash_state R OS check wexit junk dws T suite w = Some (T', suite', w') \<and>
    file_ok w' \<and> seen w' = seen w @ [replay R base dws] \<and>
    length (completed suite') = Suc (length (completed suite)) \<and> test_results T' = test_results T"
proof -
  obtain w1 where w1: "os_open OS SNAPSHOT_PATH ''w'' w = (fd, w1)" "file_ok w1" "seen w1 = seen w"
    using opened [OF assms(1)] by blast
  obtain w2 where w2: "os_ioctl OS fd COW_BRD_RESTORE_SNAPSHOT w1 = (0, w2)" "file_ok w2"
    "seen w2 = seen w" "contents w2 = base"
    using restored [OF w1(2)] w1(3) by auto
  obtain w3 where w3: "test_write_data R OS fd dws w2 = Some (True, w3)" "file_ok w3"
    "seen w3 = seen w" "contents w3 = replay R base dws"
    using block_file.write_data_replays [OF as_file, of w2 "seen w" dws R] w2 assms(2) by auto
  obtain T' suite' w' where e: "check_written OS check wexit (SingleTestInfo junk) T suite
      (os_close OS fd w3) = (T', suite', w')"
    by (rule prod_cases3)
  have c: "check_crash_state R OS check wexit junk dws T suite w = Some (T', suite', w')"
    using fd by (simp add: check_crash_state_def w1(1) w2(1) w3(1) e clone_device_restore_def codes)
  show ?thesis
    using c check_crash_state_effect [OF c] fd w1(1) check_written_sees [OF e] closed [OF w3(2)] w3(3,4)
    by auto
qed

text \<open>All rounds: each sees a crash state that was never seen before.\<close>

lemma rounds_see:
  assumes "draw_ok draw" "\<forall>cs. crash_state_of es cs \<longrightarrow> (\<forall>c\<in>set cs. op_fits R limit (op c))"
    "epochs_ready es"
  shows "file_ok w \<Longrightarrow> epochs P = es \<Longrightarrow>
    \<exists>T' P' suite' w' css. permutation_rounds R OS check wexit junk (gen_one_state draw) n P T suite w
      = Some (T', P', suite', w') \<and> file_ok w' \<and>
    seen w' = seen w @ map (\<lambda>cs. replay R base (map op cs)) css \<and> (\<forall>cs\<in>set css. crash_state_of es cs) \<and>
    distinct (map (map abs_index) css) \<and>
    set (map (map abs_index) css) \<inter> completed_permutations P = {} \<and> length css \<le> n \<and>
    length (completed suite') = length (completed suite) + length css \<and> test_results T' = test_results T"
proof (induction n arbitrary: P T suite w)
  case 0
  then show ?case by (auto intro!: exI [of _ "[]"])
next
  case (Suc n)
  obtain ns dws P1 where g: "GenerateCrashState (gen_one_state draw) P = Some (ns, dws, P1)"
    using random_permuter.GenerateCrashState_total assms(1,3) Suc.prems(2) by (metis option.exhaust prod_cases3)
  show ?case
  proof (cases ns)
    case False
    then show ?thesis using g Suc.prems(1) by (auto intro!: exI [of _ "[]"])
  next
    case True
    from g True have new: "GenerateCrashState (gen_one_state draw) P = Some (True, dws, P1)" by simp
    obtain cs where cs: "crash_state_of es cs" "dws = map op cs"
      "map abs_index cs \<notin> completed_permutations P"
      "completed_permutations P1 = insert (map abs_index cs) (completed_permutations P)" "epochs P1 = es"
      using random_permuter.GenerateCrashState_true [OF new] assms(1) Suc.prems(2) by blast
    have "\<forall>dw\<in>set dws. op_fits R limit dw" using assms(2) cs(1,2) by auto
    then obtain T1 suite1 w1 where r: "check_crash_state R OS check wexit junk dws T suite w
        = Some (T1, suite1, w1)" "file_ok w1" "seen w1 = seen w @ [replay R base dws]"
      "length (completed suite1) = Suc (length (completed suite))" "test_results T1 = test_results T"
      using round_sees [OF Suc.prems(1)] by blast
    obtain T' P' suite' w' css where rs: "permutation_rounds R OS check wexit junk (gen_one_state draw)
        n P1 T1 suite1 w1 = Some (T', P', suite', w')" "file_ok w'"
      "seen w' = seen w1 @ map (\<lambda>cs. replay R base (map op cs)) css" "\<forall>cs\<in>set css. crash_state_of es cs"
      "distinct (map (map abs_index) css)"
      "set (map (map abs_index) css) \<inter> completed_permutations P1 = {}" "length css \<le> n"
      "length (completed suite') = length (completed suite1) + length css"
      "test_results T' = test_results T1"
      using Suc.IH [OF r(2) cs(5)] by blast
    have "permutation_rounds R OS check wexit junk (gen_one_state draw) (Suc n) P T suite w
        = Some (T', P', suite', w')" using g True r(1) rs(1) by simp
    then show ?thesis
      using rs r cs by (intro exI [of _ T'] exI [of _ P'] exI [of _ suite'] exI [of _ w'] exI [of _ "cs # css"]) auto
  qed
qed

end

section \<open>The tests on a RAM disk snapshot\<close>

text \<open>
  A test bench: the file of a RAM disk snapshot whose parent has the tree \<open>pp\<close>, and the disks
  fsck has seen.  What fsck, the kernel's file system and the test case do to the snapshot is the
  argument \<open>U\<close>.
\<close>

record snapshot_users =
  run_fsck :: "string \<Rightarrow> brd_device \<Rightarrow> int \<times> brd_device"
  run_mount :: "brd_device \<Rightarrow> int \<times> brd_device"
  run_umount :: "brd_device \<Rightarrow> int \<times> brd_device"
  run_check :: "data_test_result \<Rightarrow> brd_device \<Rightarrow> int \<times> data_test_result \<times> brd_device"

record test_bench =
  bench_file :: brd_file
  bench_seen :: "(nat \<Rightarrow> byte) list"

abbreviation bench_dev :: "test_bench \<Rightarrow> brd_device" where
  "bench_dev w \<equiv> file_dev (bench_file w)"

definition set_dev :: "test_bench \<Rightarrow> brd_device \<Rightarrow> test_bench" where
  "set_dev w d = w\<lparr>bench_file := (bench_file w)\<lparr>file_dev := d\<rparr>\<rparr>"

definition bench_os :: "req_flags \<Rightarrow> kernel_api \<Rightarrow> page_tree option \<Rightarrow> snapshot_users \<Rightarrow> test_bench os" where
  "bench_os R K pp U = no_os
     \<lparr>os_system := (\<lambda>c w. (fst (run_fsck U c (bench_dev w)),
        (set_dev w (snd (run_fsck U c (bench_dev w))))
          \<lparr>bench_seen := bench_seen w @ [disk_byte pp (brd_pages (bench_dev w))]\<rparr>)),
      os_open := (\<lambda>p m w. if p = SNAPSHOT_PATH then (3, w\<lparr>bench_file := (bench_file w)\<lparr>file_pos := 0\<rparr>\<rparr>)
        else (- 1, w)),
      os_mount := (\<lambda>_ _ _ _ w. map_prod id (set_dev w) (run_mount U (bench_dev w))),
      os_umount := (\<lambda>_ w. map_prod id (set_dev w) (run_umount U (bench_dev w))),
      os_ioctl := (\<lambda>_ cmd w. map_prod (\<lambda>e. if e = None then 0 else - 1) (set_dev w)
        (brd_ioctl (bench_dev w) cmd)),
      os_lseek := (\<lambda>fd p w. map_prod id (\<lambda>f. w\<lparr>bench_file := f\<rparr>)
        (os_lseek (brd_file_os R K pp) fd p (bench_file w))),
      os_write := (\<lambda>fd buf n w. map_prod id (\<lambda>f. w\<lparr>bench_file := f\<rparr>)
        (os_write (brd_file_os R K pp) fd buf n (bench_file w)))\<rparr>"

definition bench_check :: "snapshot_users \<Rightarrow> test_bench check_test" where
  "bench_check U dt w = map_prod id (map_prod id (set_dev w)) (run_check U dt (bench_dev w))"

definition snapshot_dev :: "nat \<Rightarrow> brd_device \<Rightarrow> bool" where
  "snapshot_dev sectors d \<longleftrightarrow> is_snapshot d \<and> is_writable d \<and> capacity d = sectors"

text \<open>The users leave the snapshot a writable snapshot of its size; they may change its contents.\<close>

definition users_ok :: "nat \<Rightarrow> snapshot_users \<Rightarrow> bool" where
  "users_ok sectors U \<longleftrightarrow> (\<forall>d. snapshot_dev sectors d \<longrightarrow>
     (\<forall>c. snapshot_dev sectors (snd (run_fsck U c d))) \<and> snapshot_dev sectors (snd (run_mount U d)) \<and>
     snapshot_dev sectors (snd (run_umount U d)) \<and>
     (\<forall>dt. snapshot_dev sectors (snd (snd (run_check U dt d)))))"

definition bench_ok :: "req_flags \<Rightarrow> kernel_api \<Rightarrow> nat \<Rightarrow> snapshot_users \<Rightarrow> test_bench \<Rightarrow> bool" where
  "bench_ok R K sectors U w \<longleftrightarrow> users_ok sectors U \<and> write_api R K \<and> 512 * sectors < 2 ^ 63 \<and>
     snapshot_dev sectors (bench_dev w)"

lemma bench_ok_file:
  "bench_ok R K sectors U w \<longleftrightarrow> users_ok sectors U \<and> brd_file_ok R K sectors (bench_file w) \<and>
     is_snapshot (bench_dev w)"
  by (auto simp: bench_ok_def brd_file_ok_def snapshot_dev_def)

lemma set_dev_simps [simp]:
  "bench_dev (set_dev w d) = d" "bench_seen (set_dev w d) = bench_seen w"
  by (simp_all add: set_dev_def)

lemma bench_os_simps [simp]:
  "os_lseek (bench_os R K pp U) fd p w =
     map_prod id (\<lambda>f. w\<lparr>bench_file := f\<rparr>) (os_lseek (brd_file_os R K pp) fd p (bench_file w))"
  "os_write (bench_os R K pp U) fd buf n w =
     map_prod id (\<lambda>f. w\<lparr>bench_file := f\<rparr>) (os_write (brd_file_os R K pp) fd buf n (bench_file w))"
  "os_close (bench_os R K pp U) fd w = w"
  by (simp_all add: bench_os_def no_os_def)

lemma bench_block_file:
  "block_file (bench_os R K pp U) fd (\<lambda>w. bench_ok R K sectors U w \<and> bench_seen w = s)
     (\<lambda>w. brd_file_bytes pp (bench_file w)) (\<lambda>w. file_pos (bench_file w)) (min (512 * sectors) (2 ^ 63 - 1))"
proof unfold_locales
  show "min (512 * sectors) (2 ^ 63 - 1) < (2 :: nat) ^ 63" by simp
next
  fix w :: test_bench and p :: int
  assume w: "bench_ok R K sectors U w \<and> bench_seen w = s" "0 \<le> p"
  then obtain f where "os_lseek (brd_file_os R K pp) fd p (bench_file w) = (p, f)"
    "brd_file_ok R K sectors f" "file_pos f = nat p" "brd_file_bytes pp f = brd_file_bytes pp (bench_file w)"
    "is_snapshot (file_dev f)"
    by (auto simp: bench_ok_file brd_file_os_def brd_file_ok_def brd_file_bytes_def)
  then show "\<exists>w'. os_lseek (bench_os R K pp U) fd p w = (p, w') \<and>
      (bench_ok R K sectors U w' \<and> bench_seen w' = s) \<and> file_pos (bench_file w') = nat p \<and>
      brd_file_bytes pp (bench_file w') = brd_file_bytes pp (bench_file w)"
    using w by (simp add: bench_ok_file)
next
  fix w :: test_bench and buf
  assume "bench_ok R K sectors U w \<and> bench_seen w = s"
  then show "os_write (bench_os R K pp U) fd buf 0 w = (0, w)"
    by (simp add: brd_file_os_def brd_write_def)
next
  fix w :: test_bench and n :: nat and d :: "byte list"
  assume w: "bench_ok R K sectors U w \<and> bench_seen w = s" "0 < n" "n = length d" "512 dvd n"
    "512 dvd file_pos (bench_file w)" "file_pos (bench_file w) + n \<le> min (512 * sectors) (2 ^ 63 - 1)"
  then obtain r f where f: "brd_write R K pp (Some d) n (bench_file w) = (int r, f)" "0 < r" "r \<le> n"
    "512 dvd r" "brd_file_ok R K sectors f" "file_pos f = file_pos (bench_file w) + r"
    "brd_file_bytes pp f =
       page_write (brd_file_bytes pp (bench_file w)) (file_pos (bench_file w)) (take r d)"
    using brd_write_page [of R K sectors "bench_file w" n d pp] by (auto simp: bench_ok_file)
  then show "\<exists>r w'. os_write (bench_os R K pp U) fd (Some d) n w = (int r, w') \<and> 0 < r \<and> r \<le> n \<and>
      512 dvd r \<and> (bench_ok R K sectors U w' \<and> bench_seen w' = s) \<and>
      file_pos (bench_file w') = file_pos (bench_file w) + r \<and>
      brd_file_bytes pp (bench_file w') =
        page_write (brd_file_bytes pp (bench_file w)) (file_pos (bench_file w)) (take r d)"
    using w(1) brd_write_snapshot [OF f(1)] by (simp add: bench_ok_file brd_file_os_def)
qed

lemma map_prod_eq:
  "map_prod f g p = (a, b) \<longleftrightarrow> a = f (fst p) \<and> b = g (snd p)"
  "(a, b) = map_prod f g p \<longleftrightarrow> a = f (fst p) \<and> b = g (snd p)"
  by (cases p; auto)+

lemma restored_snapshot:
  "is_snapshot d \<Longrightarrow> brd_ioctl d COW_BRD_RESTORE_SNAPSHOT = (None, d\<lparr>brd_pages := fmempty\<rparr>)"
  by (simp add: brd_ioctl_cases)

interpretation bench: snapshot_tests "bench_os R K pp U" 3 "bench_ok R K sectors U"
  "\<lambda>w. brd_file_bytes pp (bench_file w)" "\<lambda>w. file_pos (bench_file w)" "min (512 * sectors) (2 ^ 63 - 1)"
  bench_seen "disk_byte pp fmempty" "bench_check U" for R K pp U sectors
proof (intro snapshot_tests.intro bench_block_file)
  fix w p q fs opts c r w' dt dt'
  assume ok: "bench_ok R K sectors U w"
  then have s: "is_snapshot (bench_dev w)" by (simp add: bench_ok_def snapshot_dev_def)
  show "\<exists>w'. os_open (bench_os R K pp U) SNAPSHOT_PATH ''w'' w = (3, w') \<and> bench_ok R K sectors U w' \<and>
      bench_seen w' = bench_seen w"
    using ok by (simp add: bench_os_def bench_ok_def)
  show "\<exists>w'. os_ioctl (bench_os R K pp U) 3 COW_BRD_RESTORE_SNAPSHOT w = (0, w') \<and>
      bench_ok R K sectors U w' \<and> bench_seen w' = bench_seen w \<and>
      brd_file_bytes pp (bench_file w') = disk_byte pp fmempty"
    using ok s by (simp add: bench_os_def bench_ok_def snapshot_dev_def restored_snapshot brd_file_bytes_def)
  show "bench_ok R K sectors U (os_close (bench_os R K pp U) 3 w) \<and>
      bench_seen (os_close (bench_os R K pp U) 3 w) = bench_seen w \<and>
      brd_file_bytes pp (bench_file (os_close (bench_os R K pp U) 3 w)) = brd_file_bytes pp (bench_file w)"
    using ok by simp
  show "os_system (bench_os R K pp U) c w = (r, w') \<Longrightarrow> bench_ok R K sectors U w' \<and>
      bench_seen w' = bench_seen w @ [brd_file_bytes pp (bench_file w)]"
    using ok by (auto simp: bench_os_def bench_ok_def users_ok_def brd_file_bytes_def set_dev_def)
  show "os_mount (bench_os R K pp U) p q fs opts w = (r, w') \<Longrightarrow> bench_ok R K sectors U w' \<and>
      bench_seen w' = bench_seen w"
    using ok by (simp add: bench_os_def bench_ok_def users_ok_def map_prod_eq)
  show "os_umount (bench_os R K pp U) p w = (r, w') \<Longrightarrow> bench_ok R K sectors U w' \<and>
      bench_seen w' = bench_seen w"
    using ok by (simp add: bench_os_def bench_ok_def users_ok_def map_prod_eq)
  show "bench_check U dt w = (r, dt', w') \<Longrightarrow> bench_ok R K sectors U w' \<and> bench_seen w' = bench_seen w"
    using ok by (simp add: bench_check_def bench_ok_def users_ok_def map_prod_eq)
qed simp

section \<open>Properties\<close>



text \<open>
  C33: the flag half of a flush that carries data is a default \<open>disk_write\<close>, whose size and
  flags are not initialised.  When they happen to hold a write that is not empty, the crash
  state that places the half cannot be written: the write has no data, and the test is recorded
  as a failed write instead of being run.
\<close>

theorem garbage_half_fails_write:
  assumes "req_ok R" "is_split_flush R f" "brd_file_ok R K sectors w"
  shows "\<exists>J cs w'. crash_state_of (InitDataVector R J [f]) cs \<and>
    test_write_data R (brd_file_os R K pp) fd (map op cs) w = Some (False, w')"
proof -
  let ?m = "\<lparr>bi_flags = 0, bi_rw = REQ_WRITE R, write_sector = 0, meta_size = 1\<rparr>"
  let ?J = "\<lparr>indet_num_meta = \<lambda>_. 0, indet_flag_half = \<lambda>_. ?m, indet_data_half = ?m\<rparr>"
  let ?h = "flag_half_of R ?m f"
  have es: "map ops (InitDataVector R ?J [f]) = [[mk_op 0 ?h]]"
    by (simp add: InitDataVector_ops split_flush_barrier [OF assms(2)] assms(2))
  then obtain e where e: "InitDataVector R ?J [f] = [e]" "ops e = [mk_op 0 ?h]" by auto
  have bar: "has_barrier e = False"
    using InitDataVector_has_barrier [of R ?J "[f]"] assms(2) e
    by (simp add: ends_in_barrier_def Let_def)
  have "crash_state_of (InitDataVector R ?J [f]) [mk_op 0 ?h]"
    unfolding crash_state_of_def e by (auto simp: partial_epoch_def bar e)
  moreover have "has_write_flag R ?h" "dw_data ?h = None" "write_sector (metadata ?h) = 0"
    "meta_size (metadata ?h) = 1"
    by (simp_all add: flag_half_write [OF assms(1)] flag_half_no_data req_okD(3) [OF assms(1)])
      (simp_all add: flag_half_of_def Let_def uninit_disk_write_def dw_flag_defs meta_defs)
  then have "\<exists>w'. test_write_data R (brd_file_os R K pp) fd [?h] w = Some (False, w')"
    by (simp add: brd_file_os_def get_data_def) (subst write_all_loop.simps, simp add: brd_write_def)
  ultimately show ?thesis by (intro exI [of _ ?J] exI [of _ "[mk_op 0 ?h]"]) simp
qed

text \<open>
  The witnesses: a log of two writes of a sector, users that overwrite the first page of the
  snapshot, and the recorded workload of \<open>Tester_Replay\<close>.
\<close>

definition sector_log :: "disk_write list" where
  "sector_log = [sample_op 1 1 (replicate 512 5), sample_op 0x801 2 (replicate 512 6)]"

definition scribble :: "brd_device \<Rightarrow> brd_device" where
  "scribble d = d\<lparr>brd_pages := fmupd 0 (\<lambda>_. 9) fmempty\<rparr>"

definition scribblers :: snapshot_users where
  "scribblers = \<lparr>run_fsck = \<lambda>_ d. (0, scribble d), run_mount = \<lambda>d. (0, scribble d),
     run_umount = \<lambda>d. (0, d), run_check = \<lambda>dt d. (0, dt, scribble d)\<rparr>"

definition sample_bench :: test_bench where
  "sample_bench = \<lparr>bench_file = \<lparr>file_pos = 0, file_dev = scribble (sample_brd True)\<rparr>, bench_seen = []\<rparr>"

lemma sample_bench_ok: "bench_ok flag_names_req sample_kernel 64 scribblers sample_bench"
  by (simp add: bench_ok_def users_ok_def scribblers_def snapshot_dev_def scribble_def sample_bench_def
      write_api_def sample_kernel_def)

lemma sector_log_plain: "\<forall>d\<in>set sector_log. \<not> is_split_flush flag_names_req d"
  by (simp add: sector_log_def is_split_flush_def dw_flag_defs meta_defs)

lemma sector_log_fits: "\<forall>dw\<in>set sector_log. op_fits flag_names_req (512 * 64) dw"
  by (simp add: sector_log_def op_fits_def log_op_def dw_wf_def)


theorem garbage_half_fails_write_witness:
  "\<exists>J cs w'. crash_state_of (InitDataVector flag_names_req J [sample_op 0x1001 8 [7]]) cs \<and>
    test_write_data flag_names_req (brd_file_os flag_names_req sample_kernel None) 3 (map op cs)
      \<lparr>file_pos = 0, file_dev = sample_brd True\<rparr> = Some (False, w')"
  by (rule garbage_half_fails_write [OF req_ok_flag_names, where sectors = 64])
    (simp_all add: is_split_flush_def dw_flag_defs meta_defs brd_file_ok_def write_api_def sample_kernel_def)


end
