(* ===== verification/Tester_Timing.thy ===== *)
theory Tester_Timing
  imports Tester_Checks
begin

text \<open>
  The times the harness measures: the enumeration \<open>time_stats\<close> of \<open>code/harness/Tester.h\<close>, the
  readings of the clock in \<open>test_check_random_permutations\<close> of \<open>code/harness/Tester.cpp\<close>, and
  their printing by the main program.  The clock is the sequence \<open>C\<close> of what successive calls of
  \<open>steady_clock::now\<close> return, in nanoseconds.  The timed functions follow the code once more, with
  the readings; that they do the same as those of \<open>Tester\<close> is a lemma each.
\<close>

section \<open>Clock readings\<close>

datatype time_stats = PERMUTE_TIME | SNAPSHOT_TIME | BIO_WRITE_TIME | FSCK_TIME | TEST_CASE_TIME
  | TOTAL_TIME | NUM_TIME

text \<open>The number of readings so far and \<open>timing_stats\<close>, in milliseconds.\<close>

record timing =
  clock_pos :: nat
  timing_stats :: "time_stats \<Rightarrow> int"

definition no_times :: timing where
  "no_times = \<lparr>clock_pos = 0, timing_stats = (\<lambda>_. 0)\<rparr>"

definition get_timing_stat :: "timing \<Rightarrow> time_stats \<Rightarrow> int" where
  "get_timing_stat S timing_stat = timing_stats S timing_stat"

text \<open>\<open>duration_cast\<close> to milliseconds cuts off towards zero.\<close>

definition to_ms :: "int \<Rightarrow> int" where
  "to_ms d = (if d < 0 then - (- d div 1000000) else d div 1000000)"

definition now :: "(nat \<Rightarrow> int) \<Rightarrow> timing \<Rightarrow> int \<times> timing" where
  "now C S = (C (clock_pos S), S\<lparr>clock_pos := Suc (clock_pos S)\<rparr>)"

definition add_time :: "time_stats \<Rightarrow> int \<Rightarrow> int \<Rightarrow> timing \<Rightarrow> timing" where
  "add_time k start stop S =
     S\<lparr>timing_stats := (timing_stats S)(k := timing_stats S k + to_ms (stop - start))\<rparr>"

text \<open>A reading before and one after a call, and their difference added to one of the times.\<close>

definition lap :: "(nat \<Rightarrow> int) \<Rightarrow> time_stats \<Rightarrow> timing \<Rightarrow> timing" where
  "lap C k S = (let (start, S1) = now C S; (stop, S2) = now C S1 in add_time k start stop S2)"

section \<open>The timed tests\<close>

definition check_mounted_timed :: "(nat \<Rightarrow> int) \<Rightarrow> 'w os \<Rightarrow> 'w check_test \<Rightarrow> int \<Rightarrow> single_test_info
    \<Rightarrow> tester \<Rightarrow> test_suite_result \<Rightarrow> timing \<Rightarrow> 'w \<Rightarrow> tester \<times> test_suite_result \<times> timing \<times> 'w" where
  "check_mounted_timed C OS check fsck info T suite S w =
     (let (res, T1, w1) = mount_device OS SNAPSHOT_PATH None T w in
      if res \<noteq> SUCCESS then (T1, AddCompletedTest (fs_error kUnmountable info) suite, S, w1)
      else
        (let (check_res, dt, w2) = check (data_test info) w1;
             S1 = lap C TEST_CASE_TIME S;
             info1 = info\<lparr>data_test := dt\<rparr>;
             info2 = (if check_res = 0 \<and> fsck \<noteq> 0 then fs_error kFixed info1 else info1);
             suite1 = AddCompletedTest info2 suite;
             (_, T2, w3) = umount_device OS T1 w2
         in (T2, suite1, S1, w3)))"

definition check_written_timed :: "(nat \<Rightarrow> int) \<Rightarrow> 'w os \<Rightarrow> 'w check_test \<Rightarrow> (int \<Rightarrow> int)
    \<Rightarrow> single_test_info \<Rightarrow> tester \<Rightarrow> test_suite_result \<Rightarrow> timing \<Rightarrow> 'w
    \<Rightarrow> tester \<times> test_suite_result \<times> timing \<times> 'w" where
  "check_written_timed C OS check wexit info T suite S w =
     (let (fsck, w1) = os_system OS (fsck_command T) w;
          S1 = lap C FSCK_TIME S;
          info1 = info\<lparr>fs_test := (fs_test info)\<lparr>fs_check_return := word_of_int fsck\<rparr>\<rparr>
      in if \<not> (fsck = 0 \<or> wexit fsck = 1)
         then (T, AddCompletedTest (fs_error kCheck info1) suite, S1, w1)
         else check_mounted_timed C OS check fsck info1 T suite S1 w1)"

text \<open>A restore that fails has only its first reading.\<close>

definition check_crash_state_timed :: "(nat \<Rightarrow> int) \<Rightarrow> req_flags \<Rightarrow> 'w os \<Rightarrow> 'w check_test
    \<Rightarrow> (int \<Rightarrow> int) \<Rightarrow> 32 word \<Rightarrow> disk_write list \<Rightarrow> tester \<Rightarrow> test_suite_result \<Rightarrow> timing \<Rightarrow> 'w
    \<Rightarrow> (tester \<times> test_suite_result \<times> timing \<times> 'w) option" where
  "check_crash_state_timed C R OS check wexit junk permutes T suite S w =
     (let info = SingleTestInfo junk;
          (fd, w1) = os_open OS SNAPSHOT_PATH ''w'' w
      in if fd < 0 then Some (T, suite, S, w1)
         else Option.bind (clone_device_restore OS fd False w1) (\<lambda>(res, w2).
           if res \<noteq> SUCCESS
           then Some (T, AddCompletedTest (fs_error kSnapshotRestore info) suite, snd (now C S), w2)
           else Option.bind (test_write_data R OS fd permutes w2) (\<lambda>(ok, w3).
             (let S1 = lap C BIO_WRITE_TIME (lap C SNAPSHOT_TIME S) in
              if \<not> ok
              then Some (T, AddCompletedTest (fs_error kBioWrite info) suite, S1, os_close OS fd w3)
              else Some (check_written_timed C OS check wexit info T suite S1 (os_close OS fd w3))))))"

fun permutation_rounds_timed :: "(nat \<Rightarrow> int) \<Rightarrow> req_flags \<Rightarrow> 'w os \<Rightarrow> 'w check_test \<Rightarrow> (int \<Rightarrow> int)
    \<Rightarrow> 32 word \<Rightarrow> 'g gen \<Rightarrow> nat \<Rightarrow> 'g permuter \<Rightarrow> tester \<Rightarrow> test_suite_result \<Rightarrow> timing \<Rightarrow> 'w
    \<Rightarrow> (tester \<times> 'g permuter \<times> test_suite_result \<times> timing \<times> 'w) option" where
  "permutation_rounds_timed C R OS check wexit junk gen 0 P T suite S w = Some (T, P, suite, S, w)"
| "permutation_rounds_timed C R OS check wexit junk gen (Suc n) P T suite S w =
     Option.bind (GenerateCrashState gen P) (\<lambda>(new_state, permutes, P1).
       let S1 = lap C PERMUTE_TIME S in
       if \<not> new_state then Some (T, P1, suite, S1, w)
       else Option.bind (check_crash_state_timed C R OS check wexit junk permutes T suite S1 w)
         (\<lambda>(T1, suite1, S2, w1).
            permutation_rounds_timed C R OS check wexit junk gen n P1 T1 suite1 S2 w1))"

definition timed_tests :: "(nat \<Rightarrow> int) \<Rightarrow> req_flags \<Rightarrow> 'w os \<Rightarrow> 'w check_test \<Rightarrow> (int \<Rightarrow> int)
    \<Rightarrow> 32 word \<Rightarrow> indet \<Rightarrow> 'g gen \<Rightarrow> int \<Rightarrow> 'g permuter \<Rightarrow> tester \<Rightarrow> timing \<Rightarrow> 'w
    \<Rightarrow> (int \<times> bool \<times> tester \<times> 'g permuter \<times> timing \<times> 'w) option" where
  "timed_tests C R OS check wexit junk J gen num_rounds P T S w =
     (let (start_time, S1) = now C S; P1 = P\<lparr>epochs := InitDataVector R J (log_data T)\<rparr> in
      map_option
        (\<lambda>(T1, P2, suite, S2, w1).
           let (end_time, S3) = now C S2 in
           (SUCCESS, GetCompleted suite < word_of_int num_rounds,
            T1\<lparr>test_results := test_results T1 @ [suite]\<rparr>, P2,
            S3\<lparr>timing_stats := (timing_stats S3)(TOTAL_TIME := to_ms (end_time - start_time))\<rparr>, w1))
        (permutation_rounds_timed C R OS check wexit junk gen (nat num_rounds) P1 T TestSuiteResult S1 w))"

section \<open>Printing the times\<close>

text \<open>\<open>operator<<\<close> for a time, and the loop of the main program that prints the times.\<close>

definition time_print :: "time_stats \<Rightarrow> ostream \<Rightarrow> ostream" where
  "time_print time os =
     (case time of
        PERMUTE_TIME \<Rightarrow> put ''permute time'' os
      | SNAPSHOT_TIME \<Rightarrow> put ''snapshot restore time'' os
      | BIO_WRITE_TIME \<Rightarrow> put ''bio write time'' os
      | FSCK_TIME \<Rightarrow> put ''fsck time'' os
      | TEST_CASE_TIME \<Rightarrow> put ''test case time'' os
      | TOTAL_TIME \<Rightarrow> put ''total time'' os
      | NUM_TIME \<Rightarrow> fail_stream os)"

definition int_string :: "int \<Rightarrow> string" where
  "int_string i = (if i < 0 then ''-'' else []) @ dec_string (nat \<bar>i\<bar>)"

definition time_stat_of :: "nat \<Rightarrow> time_stats" where
  "time_stat_of i = [PERMUTE_TIME, SNAPSHOT_TIME, BIO_WRITE_TIME, FSCK_TIME, TEST_CASE_TIME, TOTAL_TIME,
     NUM_TIME] ! i"

definition print_times :: "timing \<Rightarrow> ostream \<Rightarrow> ostream" where
  "print_times S os =
     fold (\<lambda>i os. put (int_string (get_timing_stat S (time_stat_of i)) @ '' ms'' @ [newline])
         (put '': '' (time_print (time_stat_of i) (put [CHR 0x09] os)))) [0..<6] os"

section \<open>Timing changes nothing else\<close>

definition untimed :: "('a \<times> 'b \<times> timing \<times> 'w) option \<Rightarrow> ('a \<times> 'b \<times> 'w) option" where
  "untimed = map_option (\<lambda>(a, b, _, w). (a, b, w))"

lemma check_mounted_untimed:
  "(case check_mounted_timed C OS check fsck info T suite S w of (a, b, _, w') \<Rightarrow> (a, b, w')) =
     check_mounted OS check fsck info T suite w"
  by (simp add: check_mounted_timed_def check_mounted_def Let_def split: prod.split)

lemma check_written_untimed:
  "(case check_written_timed C OS check wexit info T suite S w of (a, b, _, w') \<Rightarrow> (a, b, w')) =
     check_written OS check wexit info T suite w"
  by (simp add: check_written_timed_def check_written_def Let_def check_mounted_untimed split: prod.split)

lemma check_crash_state_untimed:
  "untimed (check_crash_state_timed C R OS check wexit junk permutes T suite S w) =
     check_crash_state R OS check wexit junk permutes T suite w"
proof -
  note w = check_written_untimed [of C OS check wexit "SingleTestInfo junk" T suite]
  show ?thesis
    by (cases "clone_device_restore OS (fst (os_open OS SNAPSHOT_PATH ''w'' w)) False
          (snd (os_open OS SNAPSHOT_PATH ''w'' w))")
      (auto simp: untimed_def check_crash_state_timed_def check_crash_state_def Let_def w
        split: prod.split option.split bind_split)
qed

lemma permutation_rounds_untimed:
  "map_option (\<lambda>(T, P, suite, _, w). (T, P, suite, w))
     (permutation_rounds_timed C R OS check wexit junk gen n P T suite S w) =
   permutation_rounds R OS check wexit junk gen n P T suite w"
proof (induction n arbitrary: P T suite S w)
  case 0
  then show ?case by simp
next
  case (Suc n)
  show ?case
  proof (cases "GenerateCrashState gen P")
    case None
    then show ?thesis by simp
  next
    case (Some r)
    obtain ns permutes P1 where r: "r = (ns, permutes, P1)" by (rule prod_cases3)
    let ?t = "check_crash_state_timed C R OS check wexit junk permutes T suite (lap C PERMUTE_TIME S) w"
    have u: "check_crash_state R OS check wexit junk permutes T suite w = map_option (\<lambda>(a, b, _, w). (a, b, w)) ?t"
      by (rule check_crash_state_untimed [of C, symmetric, unfolded untimed_def])
    show ?thesis
      using Suc.IH by (cases ?t) (auto simp: Some r Let_def u)
  qed
qed

text \<open>Without the times, the timed tests return what the tests return, for every clock.\<close>

lemma timed_tests_untimed:
  "map_option (\<lambda>(r, stopped, T, P, _, w). (r, stopped, T, P, w))
     (timed_tests C R OS check wexit junk J gen num_rounds P T S w) =
   test_check_random_permutations R OS check wexit junk J gen num_rounds P T w"
proof -
  let ?t = "permutation_rounds_timed C R OS check wexit junk gen (nat num_rounds)
    (P\<lparr>epochs := InitDataVector R J (log_data T)\<rparr>) T TestSuiteResult (S\<lparr>clock_pos := Suc (clock_pos S)\<rparr>) w"
  have "permutation_rounds R OS check wexit junk gen (nat num_rounds)
      (P\<lparr>epochs := InitDataVector R J (log_data T)\<rparr>) T TestSuiteResult w =
    map_option (\<lambda>(T, P, suite, _, w). (T, P, suite, w)) ?t"
    by (rule permutation_rounds_untimed [symmetric])
  then show ?thesis
    by (cases ?t) (auto simp: timed_tests_def test_check_random_permutations_def Let_def now_def)
qed

section \<open>The phases never add up to more than the total\<close>

definition phase_sum :: "timing \<Rightarrow> int" where
  "phase_sum S = timing_stats S PERMUTE_TIME + timing_stats S SNAPSHOT_TIME + timing_stats S BIO_WRITE_TIME +
     timing_stats S FSCK_TIME + timing_stats S TEST_CASE_TIME"

text \<open>What holds between two timings of a run: the phases grow by no more than the clock.\<close>

definition time_passes :: "(nat \<Rightarrow> int) \<Rightarrow> timing \<Rightarrow> timing \<Rightarrow> bool" where
  "time_passes C S S' \<longleftrightarrow> clock_pos S \<le> clock_pos S' \<and>
     1000000 * (phase_sum S' - phase_sum S) \<le> C (clock_pos S') - C (clock_pos S) \<and>
     (\<forall>k. timing_stats S k \<le> timing_stats S' k) \<and> timing_stats S' TOTAL_TIME = timing_stats S TOTAL_TIME"

lemma time_passes_refl [simp, intro]: "time_passes C S S"
  by (simp add: time_passes_def)

lemma time_passes_trans [trans]: "time_passes C S S1 \<Longrightarrow> time_passes C S1 S2 \<Longrightarrow> time_passes C S S2"
  unfolding time_passes_def by (auto intro: order_trans)

lemma time_passes_now: "mono C \<Longrightarrow> time_passes C S (snd (now C S))"
  by (simp add: time_passes_def now_def phase_sum_def monoD)

lemma to_ms_floor: "0 \<le> d \<Longrightarrow> 0 \<le> to_ms d \<and> 1000000 * to_ms d \<le> d"
  using mult_div_mod_eq [of 1000000 d] pos_mod_sign [of 1000000 d]
  by (simp add: to_ms_def pos_imp_zdiv_nonneg_iff)

lemma time_passes_lap:
  assumes "mono C" "k \<noteq> TOTAL_TIME" "k \<noteq> NUM_TIME"
  shows "time_passes C S (lap C k S)"
proof -
  define d where "d = C (Suc (clock_pos S)) - C (clock_pos S)"
  have "C (clock_pos S) \<le> C (Suc (clock_pos S))" "C (Suc (clock_pos S)) \<le> C (Suc (Suc (clock_pos S)))"
    using assms(1) by (simp_all add: monoD)
  then have d: "0 \<le> d" "d \<le> C (Suc (Suc (clock_pos S))) - C (clock_pos S)" by (simp_all add: d_def)
  have l: "lap C k S = \<lparr>clock_pos = Suc (Suc (clock_pos S)),
      timing_stats = (timing_stats S)(k := timing_stats S k + to_ms d)\<rparr>"
    by (simp add: lap_def now_def add_time_def d_def)
  have "phase_sum (lap C k S) - phase_sum S = to_ms d"
    using assms(2,3) unfolding l phase_sum_def by (cases k) simp_all
  then show ?thesis
    using to_ms_floor [OF d(1)] d(2) assms(2) by (auto simp: time_passes_def l)
qed

lemma check_mounted_time:
  assumes "mono C" "check_mounted_timed C OS check fsck info T suite S w = (T', suite', S', w')"
  shows "time_passes C S S'"
  using assms(2) time_passes_lap [OF assms(1), of TEST_CASE_TIME S]
  by (auto simp: check_mounted_timed_def Let_def split: prod.splits if_splits)

lemma check_written_time:
  assumes "mono C" "check_written_timed C OS check wexit info T suite S w = (T', suite', S', w')"
  shows "time_passes C S S'"
proof -
  have l: "time_passes C S (lap C FSCK_TIME S)" by (simp add: time_passes_lap assms(1))
  then show ?thesis
    using assms(2) time_passes_trans [OF l check_mounted_time [OF assms(1)]]
    by (fastforce simp: check_written_timed_def Let_def split: prod.splits if_splits)
qed

lemma check_crash_state_time:
  assumes "mono C"
    "check_crash_state_timed C R OS check wexit junk permutes T suite S w = Some (T', suite', S', w')"
  shows "time_passes C S S'"
proof -
  have l: "time_passes C S (lap C BIO_WRITE_TIME (lap C SNAPSHOT_TIME S))"
    using time_passes_trans time_passes_lap [OF assms(1)] by (metis time_stats.distinct)
  show ?thesis
    using assms(2) l time_passes_now [OF assms(1)] time_passes_trans [OF l check_written_time [OF assms(1)]]
    by (fastforce simp: check_crash_state_timed_def Let_def bind_eq_Some_conv split: prod.splits if_splits)
qed

lemma permutation_rounds_time:
  assumes "mono C"
  shows "permutation_rounds_timed C R OS check wexit junk gen n P T suite S w = Some (T', P', suite', S', w')
    \<Longrightarrow> time_passes C S S'"
proof (induction n arbitrary: P T suite S w)
  case 0
  then show ?case by simp
next
  case (Suc n)
  have l: "time_passes C S (lap C PERMUTE_TIME S)" by (simp add: time_passes_lap assms)
  obtain ns permutes P1 where g: "GenerateCrashState gen P = Some (ns, permutes, P1)"
    using Suc.prems by (auto simp: bind_eq_Some_conv)
  show ?case
  proof (cases ns)
    case False
    then show ?thesis using Suc.prems g l by (simp add: Let_def)
  next
    case True
    then obtain T1 suite1 S1 w1 where
      c: "check_crash_state_timed C R OS check wexit junk permutes T suite (lap C PERMUTE_TIME S) w
        = Some (T1, suite1, S1, w1)"
      and r: "permutation_rounds_timed C R OS check wexit junk gen n P1 T1 suite1 S1 w1
        = Some (T', P', suite', S', w')"
      using Suc.prems g by (auto simp: bind_eq_Some_conv Let_def)
    show ?thesis
      using l check_crash_state_time [OF assms c] Suc.IH [OF r] by (blast intro: time_passes_trans)
  qed
qed

section \<open>Properties\<close>

text \<open>
  C22: with a clock that never runs backwards, the times of the five phases that a run of the
  tests of a new harness reports are not negative, and together not more than the total time,
  whatever the run did: rounds that broke off at any step are only counted for the phases they
  finished.
\<close>

theorem phases_within_total:
  assumes "mono C" "timed_tests C R OS check wexit junk J gen num_rounds P T no_times w =
    Some (r, stopped, T', P', S', w')"
  shows "(\<forall>k. 0 \<le> get_timing_stat S' k) \<and>
    get_timing_stat S' PERMUTE_TIME + get_timing_stat S' SNAPSHOT_TIME + get_timing_stat S' BIO_WRITE_TIME +
    get_timing_stat S' FSCK_TIME + get_timing_stat S' TEST_CASE_TIME \<le> get_timing_stat S' TOTAL_TIME"
proof -
  let ?S1 = "no_times\<lparr>clock_pos := 1\<rparr>"
  obtain T1 P1 suite S2 where p: "permutation_rounds_timed C R OS check wexit junk gen (nat num_rounds)
      (P\<lparr>epochs := InitDataVector R J (log_data T)\<rparr>) T TestSuiteResult ?S1 w = Some (T1, P1, suite, S2, w')"
    and S': "timing_stats S' = (timing_stats S2)(TOTAL_TIME := to_ms (C (clock_pos S2) - C 0))"
    using assms(2) by (auto simp: timed_tests_def now_def no_times_def Let_def)
  have t: "time_passes C ?S1 S2" by (rule permutation_rounds_time [OF assms(1) p])
  have z: "phase_sum ?S1 = 0" "timing_stats ?S1 k = 0" for k by (simp_all add: phase_sum_def no_times_def)
  have "C 0 \<le> C 1" using assms(1) by (simp add: monoD)
  moreover have "1000000 * phase_sum S2 \<le> C (clock_pos S2) - C 1"
    using t unfolding time_passes_def z by simp
  moreover have nonneg: "\<forall>k. 0 \<le> timing_stats S2 k" using t unfolding time_passes_def z by simp
  then have "0 \<le> phase_sum S2" by (simp add: phase_sum_def)
  ultimately have d: "1000000 * phase_sum S2 \<le> C (clock_pos S2) - C 0" "0 \<le> C (clock_pos S2) - C 0" by auto
  then have "phase_sum S2 \<le> to_ms (C (clock_pos S2) - C 0)" "0 \<le> to_ms (C (clock_pos S2) - C 0)"
    by (auto simp: to_ms_def)
  then show ?thesis using nonneg by (simp add: get_timing_stat_def S' phase_sum_def)
qed

text \<open>A clock that advances by three seconds between readings.\<close>

definition slow_clock :: "nat \<Rightarrow> int" where
  "slow_clock n = 3000000000 * int n"

theorem phases_within_total_witness:
  "\<exists>stopped T' P' S' w'. timed_tests slow_clock flag_names_req calm_os calm_check id 0 sample_indet
      (gen_one_state script_draw) 1 sample_permuter sample_tester no_times 0 =
      Some (SUCCESS, stopped, T', P', S', w') \<and>
    get_timing_stat S' PERMUTE_TIME + get_timing_stat S' SNAPSHOT_TIME + get_timing_stat S' BIO_WRITE_TIME +
    get_timing_stat S' FSCK_TIME + get_timing_stat S' TEST_CASE_TIME \<le> get_timing_stat S' TOTAL_TIME"
proof -
  have P: "sample_permuter\<lparr>epochs := InitDataVector flag_names_req sample_indet sample_log\<rparr> = sample_permuter"
    by (simp add: sample_epochs sample_permuter_def)
  obtain T1 suite1 w1 where c: "check_crash_state flag_names_req calm_os calm_check id 0
      (map op sample_crash_state) sample_tester TestSuiteResult 0 = Some (T1, suite1, w1)"
    using calm_check_crash_state by blast
  obtain stopped T' P' w' where e: "test_check_random_permutations flag_names_req calm_os calm_check
      id 0 sample_indet (gen_one_state script_draw) 1 sample_permuter sample_tester 0
      = Some (SUCCESS, stopped, T', P', w')"
    using c by (auto simp: test_check_random_permutations_def P sample_tester_def sample_GenerateCrashState
        numeral_nat)
  then obtain S' where t: "timed_tests slow_clock flag_names_req calm_os calm_check id 0
      sample_indet (gen_one_state script_draw) 1 sample_permuter sample_tester no_times 0 =
      Some (SUCCESS, stopped, T', P', S', w')"
    unfolding timed_tests_untimed [of slow_clock, where S = no_times, symmetric] by auto
  have "mono slow_clock" by (simp add: mono_def slow_clock_def)
  from conjunct2 [OF phases_within_total [OF this t]] t show ?thesis by blast
qed

text \<open>Printing the times names each of the six, in order, and leaves the stream good.\<close>

lemma put_good [simp]: "put t \<lparr>out_text = a, out_fail = False\<rparr> = \<lparr>out_text = a @ t, out_fail = False\<rparr>"
  by (simp add: put_def)

lemma print_times_names:
  "print_times S \<lparr>out_text = [], out_fail = False\<rparr> =
     \<lparr>out_text = concat (map (\<lambda>(k, n). [CHR 0x09] @ n @ '': '' @ int_string (get_timing_stat S k) @ '' ms'' @ [newline])
        [(PERMUTE_TIME, ''permute time''), (SNAPSHOT_TIME, ''snapshot restore time''),
         (BIO_WRITE_TIME, ''bio write time''), (FSCK_TIME, ''fsck time''),
         (TEST_CASE_TIME, ''test case time''), (TOTAL_TIME, ''total time'')]), out_fail = False\<rparr>"
proof -
  have "[0..<6] = [0, 1, 2, 3, 4, 5 :: nat]" by (simp add: upt_rec)
  then show ?thesis by (simp add: print_times_def time_stat_of_def time_print_def)
qed

end
