(* ===== verification/Tester_Image.thy ===== *)
theory Tester_Image
  imports Tester_Replay
begin

text \<open>
  Saving the base image and loading it again: \<open>log_snapshot_save\<close> reads the disk through its
  descriptor into a file, \<open>log_snapshot_load\<close> wipes a disk and writes the file to it.  The disk is
  the RAM disk of \<open>Cow_Brd\<close>, opened as a file; the image it keeps is too short.
\<close>

section \<open>Reading and writing an image\<close>

text \<open>The counters of the loops are 32 bits wide, the size of the device is 64.\<close>

lemma unat_ucast_64: "unat (ucast (x :: u32) :: u64) = unat x"
  by transfer (simp add: take_bit_int_eq_self)

lemma unat_counter: "k < 2 ^ 32 \<Longrightarrow> unat (word_of_nat k :: u32) = k"
  by (simp add: unat_of_nat take_bit_nat_eq_self)

lemma counter_left:
  "k \<le> unat (N :: u64) \<Longrightarrow> k < 2 ^ 32 \<Longrightarrow> unat (N - ucast (word_of_nat k :: u32)) = unat N - k"
  by (simp add: unat_sub word_le_nat_alt unat_ucast_64 unat_counter)

lemma counter_below:
  "k < 2 ^ 32 \<Longrightarrow> ucast (word_of_nat k :: u32) < (N :: u64) \<longleftrightarrow> k < unat N"
  by (simp add: word_less_nat_alt unat_ucast_64 unat_counter)

text \<open>The interface of a block device that can be read.\<close>

locale readable_file =
  fixes OS :: "'w os" and fd :: int
    and file_ok :: "'w \<Rightarrow> bool" and contents :: "'w \<Rightarrow> nat \<Rightarrow> byte" and position :: "'w \<Rightarrow> nat"
    and limit :: nat
  assumes read_some: "file_ok w \<Longrightarrow> 0 < n \<Longrightarrow> 512 dvd n \<Longrightarrow> 512 dvd position w \<Longrightarrow>
      position w + n \<le> limit \<Longrightarrow>
      \<exists>r w'. os_read OS fd n w = (int r, page_read (contents w) (position w) r, w') \<and> 0 < r \<and> r \<le> n \<and>
        512 dvd r \<and> file_ok w' \<and> position w' = position w + r \<and> contents w' = contents w"
begin

lemma read_image:
  assumes "file_ok w" "512 dvd position w" "512 dvd unat N" "512 dvd k" "k < unat N" "unat N < 2 ^ 32"
    "length buf = unat N" "position w + (unat N - k) \<le> limit"
  shows "\<exists>w'. snapshot_read_loop OS fd N (word_of_nat k) buf w =
      Some (take k buf @ page_read (contents w) (position w) (unat N - k), w') \<and>
    file_ok w' \<and> contents w' = contents w"
  using assms
proof (induction "unat N - k" arbitrary: k buf w rule: less_induct)
  case less
  have k32: "k < 2 ^ 32" using less.prems(5,6) by linarith
  have div: "512 dvd unat N - k" using less.prems(3,4) by (rule dvd_diff_nat)
  obtain r w1 where r: "os_read OS fd (unat N - k) w = (int r, page_read (contents w) (position w) r, w1)"
    "0 < r" "r \<le> unat N - k" "512 dvd r" "file_ok w1" "position w1 = position w + r"
    "contents w1 = contents w"
  proof -
    have "0 < unat N - k" using less.prems(5) by simp
    from read_some [OF less.prems(1) this div less.prems(2,8)] show thesis using that by blast
  qed
  let ?buf = "put_bytes (page_read (contents w) (position w) r) k buf"
  have kr: "k + r < 2 ^ 32 \<or> k + r = unat N" "k + r \<le> unat N" using r(3) less.prems(5,6) by linarith+
  then have kr32: "k + r < 2 ^ 32" using less.prems(6) by linarith
  have buf: "length ?buf = unat N" "take (k + r) ?buf = take k buf @ page_read (contents w) (position w) r"
    using less.prems(5,7) r(3) by (simp_all add: put_bytes_def)
  have step: "snapshot_read_loop OS fd N (word_of_nat k) buf w =
      (if k + r < unat N then snapshot_read_loop OS fd N (word_of_nat (k + r)) ?buf w1 else Some (?buf, w1))"
    using less.prems(5)
    by (subst snapshot_read_loop.simps)
      (simp add: counter_left [OF _ k32] r(1) unat_counter [OF k32] counter_below [OF kr32, simplified])
  show ?case
  proof (cases "k + r < unat N")
    case True
    have "\<exists>w'. snapshot_read_loop OS fd N (word_of_nat (k + r)) ?buf w1 =
        Some (take (k + r) ?buf @ page_read (contents w1) (position w1) (unat N - (k + r)), w') \<and>
        file_ok w' \<and> contents w' = contents w1"
    proof (rule less.hyps)
      show "unat N - (k + r) < unat N - k" using True r(2) by linarith
      show "512 dvd k + r" using less.prems(4) r(4) by (rule dvd_add)
      show "512 dvd position w1" using less.prems(2) r(4) unfolding r(6) by (rule dvd_add)
      show "position w1 + (unat N - (k + r)) \<le> limit" using less.prems(8) r(3,6) by linarith
    qed (use True r(5) less.prems(3,6) buf(1) in simp_all)
    moreover have "page_read (contents w) (position w) r @
        page_read (contents w) (position w + r) (unat N - (k + r)) =
        page_read (contents w) (position w) (unat N - k)"
      using page_read_append [of "contents w" "position w" r "unat N - (k + r)"] True by simp
    ultimately show ?thesis using step True buf(2) r(6,7) by auto
  next
    case False
    then have "r = unat N - k" using r(3) by linarith
    then show ?thesis using step False r(5,7) buf less.prems(5) by auto
  qed
qed

end

context block_file
begin

lemma write_image:
  assumes "file_ok w" "512 dvd position w" "512 dvd unat N" "512 dvd k" "k < unat N" "unat N < 2 ^ 32"
    "length buf = unat N" "position w + (unat N - k) \<le> limit"
  shows "\<exists>w'. snapshot_write_loop OS fd N (word_of_nat k) buf w = Some w' \<and> file_ok w' \<and>
    contents w' = page_write (contents w) (position w) (drop k buf)"
  using assms
proof (induction "unat N - k" arbitrary: k w rule: less_induct)
  case less
  have k32: "k < 2 ^ 32" using less.prems(5,6) by linarith
  have div: "512 dvd unat N - k" using less.prems(3,4) by (rule dvd_diff_nat)
  obtain r w1 where r: "os_write OS fd (Some (drop k buf)) (unat N - k) w = (int r, w1)"
    "0 < r" "r \<le> unat N - k" "512 dvd r" "file_ok w1" "position w1 = position w + r"
    "contents w1 = page_write (contents w) (position w) (take r (drop k buf))"
  proof -
    have "0 < unat N - k" "unat N - k = length (drop k buf)" using less.prems(5,7) by simp_all
    from write_some [OF less.prems(1) this div less.prems(2,8)] show thesis using that by blast
  qed
  have "k + r \<le> unat N" using r(3) less.prems(5) by linarith
  then have kr32: "k + r < 2 ^ 32" using less.prems(6) by linarith
  have step: "snapshot_write_loop OS fd N (word_of_nat k) buf w =
      (if k + r < unat N then snapshot_write_loop OS fd N (word_of_nat (k + r)) buf w1 else Some w1)"
    using less.prems(5)
    by (subst snapshot_write_loop.simps)
      (simp add: counter_left [OF _ k32] r(1) unat_counter [OF k32] counter_below [OF kr32, simplified])
  show ?case
  proof (cases "k + r < unat N")
    case True
    have "\<exists>w'. snapshot_write_loop OS fd N (word_of_nat (k + r)) buf w1 = Some w' \<and> file_ok w' \<and>
        contents w' = page_write (contents w1) (position w1) (drop (k + r) buf)"
    proof (rule less.hyps)
      show "unat N - (k + r) < unat N - k" using True r(2) by linarith
      show "512 dvd k + r" using less.prems(4) r(4) by (rule dvd_add)
      show "512 dvd position w1" using less.prems(2) r(4) unfolding r(6) by (rule dvd_add)
      show "position w1 + (unat N - (k + r)) \<le> limit" using less.prems(8) r(3,6) by linarith
    qed (use True r(5) less.prems(3,6,7) in simp_all)
    moreover have "page_write (contents w1) (position w1) (drop (k + r) buf) =
        page_write (contents w) (position w) (drop k buf)"
      using page_write_append [of "contents w" "position w" "take r (drop k buf)" "drop (k + r) buf"] r(3,6,7)
        append_take_drop_id [of r "drop k buf"] less.prems(7) by (simp add: min_absorb2 add.commute)
    ultimately show ?thesis using step True by auto
  next
    case False
    then have "r = unat N - k" using r(3) by linarith
    then show ?thesis using step False r(5,7) less.prems(7) by auto
  qed
qed

end

section \<open>The RAM disk as an image file\<close>

text \<open>
  A descriptor on a base disk: besides what \<open>Tester_Replay\<close> gives it, it can be opened, read (one
  request, of at most the rest of a page) and take ioctls.
\<close>

definition brd_read :: "req_flags \<Rightarrow> kernel_api \<Rightarrow> nat \<Rightarrow> brd_file \<Rightarrow> int \<times> byte list \<times> brd_file" where
  "brd_read R K n w =
     (if n = 0 then (0, [], w)
      else
        (let a = file_pos w; r = min n (PAGE_SIZE - a mod PAGE_SIZE) in
         if a mod 512 \<noteq> 0 \<or> r mod 512 \<noteq> 0 then (- 1, [], w)
         else
           (case brd_make_request R K None [] (file_dev w)
                   \<lparr>bio_sector = a div 512, bio_flags = READ K, bio_size = r, bio_segs = [replicate r 0]\<rparr> of
              Some (None, dev, b) \<Rightarrow> (int r, concat (bio_segs b), \<lparr>file_pos = a + r, file_dev = dev\<rparr>)
            | _ \<Rightarrow> (- 1, [], w))))"

definition brd_disk_os :: "req_flags \<Rightarrow> kernel_api \<Rightarrow> brd_file os" where
  "brd_disk_os R K = (brd_file_os R K None)
     \<lparr>os_open := (\<lambda>_ _ w. (7, w\<lparr>file_pos := 0\<rparr>)),
      os_read := (\<lambda>fd n w. brd_read R K n w),
      os_ioctl := (\<lambda>fd cmd w. (case brd_ioctl (file_dev w) cmd of
        (e, dev) \<Rightarrow> (if e = None then 0 else - 1, w\<lparr>file_dev := dev\<rparr>)))\<rparr>"

definition read_api :: "req_flags \<Rightarrow> kernel_api \<Rightarrow> bool" where
  "read_api R K \<longleftrightarrow> \<not> has_mask (READ K) (REQ_DISCARD R) \<and> \<not> has_mask (READ K) (WRITE K) \<and>
     bio_rw K (READ K) = READ K"

lemma brd_disk_os_simps [simp]:
  "os_open (brd_disk_os R K) p m w = (7, w\<lparr>file_pos := 0\<rparr>)" "os_read (brd_disk_os R K) fd n w = brd_read R K n w"
  "os_write (brd_disk_os R K) fd buf n w = brd_write R K None buf n w"
  "os_lseek (brd_disk_os R K) fd off w = (if off < 0 then (- 1, w) else (off, w\<lparr>file_pos := nat off\<rparr>))"
  "os_sync (brd_disk_os R K) w = w" "os_close (brd_disk_os R K) fd w = w"
  "os_ioctl (brd_disk_os R K) fd cmd w = (case brd_ioctl (file_dev w) cmd of
     (e, dev) \<Rightarrow> (if e = None then 0 else - 1, w\<lparr>file_dev := dev\<rparr>))"
  by (simp_all add: brd_disk_os_def brd_file_os_def no_os_def)

definition base_file_ok :: "req_flags \<Rightarrow> kernel_api \<Rightarrow> nat \<Rightarrow> brd_file \<Rightarrow> bool" where
  "base_file_ok R K sectors w \<longleftrightarrow> brd_file_ok R K sectors w \<and> \<not> is_snapshot (file_dev w)"

interpretation brd_disk: block_file "brd_disk_os R K" fd
  "base_file_ok R K sectors" "brd_file_bytes None" file_pos
  "min (512 * sectors) (2 ^ 63 - 1)" for R K fd sectors
proof unfold_locales
  fix w :: brd_file and n :: nat and d :: "byte list"
  assume a: "base_file_ok R K sectors w" "0 < n" "n = length d" "512 dvd n" "512 dvd file_pos w"
    "file_pos w + n \<le> min (512 * sectors) (2 ^ 63 - 1)"
  then have "brd_file_ok R K sectors w" "file_pos w + n \<le> 512 * sectors" by (simp_all add: base_file_ok_def)
  from brd_write_page [OF this(1) a(2-5) this(2), of None]
  show "\<exists>r w'. os_write (brd_disk_os R K) fd (Some d) n w = (int r, w') \<and> 0 < r \<and> r \<le> n \<and> 512 dvd r \<and>
      base_file_ok R K sectors w' \<and> file_pos w' = file_pos w + r \<and>
      brd_file_bytes None w' = page_write (brd_file_bytes None w) (file_pos w) (take r d)"
    using a(1) brd_write_snapshot [of R K None "Some d" n w] by (auto simp: base_file_ok_def)
qed (auto simp: base_file_ok_def brd_file_ok_def brd_file_bytes_def brd_write_def)

definition brd_readable :: "req_flags \<Rightarrow> kernel_api \<Rightarrow> nat \<Rightarrow> brd_file \<Rightarrow> bool" where
  "brd_readable R K sectors w \<longleftrightarrow> read_api R K \<and> capacity (file_dev w) = sectors"

lemma brd_read_page:
  assumes ok: "brd_readable R K sectors w" and d: "0 < n" "512 dvd n" "512 dvd file_pos w"
    "file_pos w + n \<le> 512 * sectors"
  shows "\<exists>r w'. brd_read R K n w = (int r, page_read (brd_file_bytes None w) (file_pos w) r, w') \<and>
    0 < r \<and> r \<le> n \<and> 512 dvd r \<and> brd_readable R K sectors w' \<and> file_pos w' = file_pos w + r \<and>
    brd_file_bytes None w' = brd_file_bytes None w"
proof -
  define a where "a = file_pos w"
  define r where "r = min n (PAGE_SIZE - a mod PAGE_SIZE)"
  define b where "b = \<lparr>bio_sector = a div 512, bio_flags = READ K, bio_size = r, bio_segs = [replicate r (0 :: byte)]\<rparr>"
  have "(512 :: nat) dvd 4096" by simp
  then have r512: "512 dvd r" using d(2,3) by (auto simp: r_def a_def dvd_mod min_def)
  have r: "0 < r" "r \<le> n" "a mod 4096 + r \<le> 4096" "r \<le> 4096" using d(1) by (auto simp: r_def)
  have sec: "512 * (a div 512) = a" using d(3) by (simp add: a_def)
  have off: "page_offset (a div 512) = a mod 4096" by (simp add: page_offset_mod' sec)
  have e: "bio_end_sector b \<le> sectors"
  proof -
    have "a + r \<le> 512 * sectors" using d(4) r(2) by (simp add: a_def)
    then have "(a + r) div 512 \<le> sectors" using div_le_mono [of "a + r" "512 * sectors" 512] by simp
    moreover have "(a + r) div 512 = a div 512 + r div 512"
      using d(3) by (simp add: a_def div_plus_div_distrib_dvd_left)
    ultimately show ?thesis by (simp add: b_def bio_end_sector_def drop_bit_eq_div)
  qed
  have "read_request R K (file_dev w) b" "bio_segs b \<noteq> []"
    "reads_fit None (brd_pages (file_dev w)) (bio_sector b) (bio_segs b)"
    using ok e r r512 off
    by (auto simp: read_request_def brd_readable_def read_api_def b_def read_fits_def)
  from read_request_content [OF this, of "[]"] obtain segs' where
    q: "brd_make_request R K None [] (file_dev w) b = Some (None, file_dev w, b\<lparr>bio_segs := segs'\<rparr>)"
      "concat segs' = page_read (disk_byte None (brd_pages (file_dev w))) a r"
    by (auto simp: b_def sec)
  have "brd_read R K n w = (int r, concat segs', \<lparr>file_pos = a + r, file_dev = file_dev w\<rparr>)"
  proof -
    have "a mod 512 = 0" "r mod 512 = 0" "n \<noteq> 0" using d(1,3) r512 by (simp_all add: a_def)
    then show ?thesis
      unfolding brd_read_def Let_def a_def [symmetric] r_def [symmetric] b_def [symmetric] option.case q(1)
      by simp
  qed
  then show ?thesis
    using ok r r512 q(2) by (auto simp: brd_readable_def brd_file_bytes_def a_def)
qed

interpretation brd_disk: readable_file "brd_disk_os R K" fd
  "brd_readable R K sectors" "brd_file_bytes None" file_pos "512 * sectors" for R K fd sectors
  by unfold_locales (use brd_read_page in simp)

section \<open>What the image keeps\<close>

text \<open>
  The module is loaded with \<open>disk_size=device_size\<close>, in kilobytes, so the disk has
  \<open>2 * device_size\<close> sectors (\<open>brd_alloc\<close>); the image has \<open>device_size\<close> bytes.
\<close>

lemma save_image:
  assumes "read_api R K" "capacity d = 2 * unat (device_size T)" "0 < device_size T"
    "device_size T < 2 ^ 32" "512 dvd unat (device_size T)"
  shows "\<exists>w. log_snapshot_save (brd_disk_os R K) junk True T \<lparr>file_pos = 0, file_dev = d\<rparr> =
    Some (SUCCESS, Some (page_read (disk_byte None (brd_pages d)) 0 (unat (device_size T))), w)"
proof -
  have n: "0 < unat (device_size T)" "unat (device_size T) < 2 ^ 32"
    using assms(3,4) by (simp_all add: word_less_nat_alt)
  have "\<exists>w'. snapshot_read_loop (brd_disk_os R K) (cow_brd_fd T) (device_size T) (word_of_nat 0)
      (map junk [0..<unat (device_size T)]) \<lparr>file_pos = 0, file_dev = d\<rparr> =
      Some (take 0 (map junk [0..<unat (device_size T)]) @
        page_read (brd_file_bytes None \<lparr>file_pos = 0, file_dev = d\<rparr>) (file_pos \<lparr>file_pos = 0, file_dev = d\<rparr>)
          (unat (device_size T) - 0), w') \<and>
      brd_readable R K (capacity d) w' \<and>
      brd_file_bytes None w' = brd_file_bytes None \<lparr>file_pos = 0, file_dev = d\<rparr>"
    by (rule brd_disk.read_image) (use assms n in \<open>auto simp: brd_readable_def\<close>)
  then show ?thesis
    by (auto simp: log_snapshot_save_def brd_file_bytes_def)
qed

lemma load_image:
  assumes "write_api R K" "capacity e = 2 * unat (device_size T)" "0 < device_size T"
    "device_size T < 2 ^ 32" "512 dvd unat (device_size T)" "is_writable e" "\<not> is_snapshot e"
    "length img = unat (device_size T)"
  shows "\<exists>w. log_snapshot_load (brd_disk_os R K) (Some img) T \<lparr>file_pos = p, file_dev = e\<rparr> =
      Some (SUCCESS, w) \<and> \<not> is_writable (file_dev w) \<and>
    disk_byte None (brd_pages (file_dev w)) = page_write (disk_byte None fmempty) 0 img"
proof -
  let ?w = "\<lparr>file_pos = 0, file_dev = e\<lparr>brd_pages := fmempty\<rparr>\<rparr>"
  have n: "0 < unat (device_size T)" "unat (device_size T) < 2 ^ 32"
    using assms(3,4) by (simp_all add: word_less_nat_alt)
  have "\<exists>w'. snapshot_write_loop (brd_disk_os R K) 7 (device_size T) (word_of_nat 0) img ?w = Some w' \<and>
      base_file_ok R K (capacity e) w' \<and>
      brd_file_bytes None w' = page_write (brd_file_bytes None ?w) (file_pos ?w) (drop 0 img)"
    by (rule brd_disk.write_image) (use assms n in \<open>auto simp: base_file_ok_def brd_file_ok_def\<close>)
  then obtain w' where w': "snapshot_write_loop (brd_disk_os R K) 7 (device_size T) 0 img ?w = Some w'"
    "disk_byte None (brd_pages (file_dev w')) = page_write (disk_byte None fmempty) 0 img"
    "\<not> is_snapshot (file_dev w')"
    by (auto simp: brd_file_bytes_def base_file_ok_def)
  show ?thesis
    using assms(7,8) w' by (auto simp: log_snapshot_load_def brd_ioctl_cases)
qed


definition small_brd :: brd_device where
  "small_brd = (sample_brd False)\<lparr>capacity := 1024, brd_pages := fmupd 1 (\<lambda>_. 7) fmempty\<rparr>"


end
