(* ===== verification/Interleaving.thy ===== *)
theory Interleaving
  imports Main
begin

text \<open>
  Several threads of kernel code on one shared state.  Each thread is at some point of its code;
  a step takes one thread, gives it an answer \<open>c\<close> of the environment (an allocation that succeeds or
  fails), and runs its code up to the next access to the shared state.  \<open>None\<close> is a fault.  The
  predicate \<open>ok\<close> says which threads have something left to do and which answers are allowed.
  The locale turns an invariant kept by the steps of each thread into facts on every interleaving.
\<close>

inductive interleaves :: "('c \<Rightarrow> 'l \<Rightarrow> 's \<Rightarrow> ('l \<times> 's) option) \<Rightarrow> ('c \<Rightarrow> 'l \<Rightarrow> 's \<Rightarrow> bool)
    \<Rightarrow> 'l list \<times> 's \<Rightarrow> 'l list \<times> 's \<Rightarrow> bool" for step ok where
  idle: "interleaves step ok S S"
| move: "interleaves step ok S (ls, s) \<Longrightarrow> i < length ls \<Longrightarrow> ok c (ls ! i) s \<Longrightarrow>
    step c (ls ! i) s = Some (l, s') \<Longrightarrow> interleaves step ok S (ls[i := l], s')"

lemmas interleaves_induct = interleaves.induct [split_format (complete)]

text \<open>An interleaving read from its start, which suits a given schedule.\<close>

lemma first_move:
  assumes "i < length ls" "ok c (ls ! i) s" "step c (ls ! i) s = Some (l, s')"
    and "interleaves step ok (ls[i := l], s') T"
  shows "interleaves step ok (ls, s) T"
  using assms(4)
proof (induction "(ls[i := l], s')" T rule: interleaves.induct)
  case idle
  show ?case by (rule interleaves.move [of step ok "(ls, s)" ls s, OF interleaves.idle assms(1-3)])
next
  case (move ls1 s1 j d k s2)
  show ?case by (rule interleaves.move [OF move(2-5)])
qed

lemma interleaves_trans:
  assumes "interleaves step ok T U" "interleaves step ok S T"
  shows "interleaves step ok S U"
  using assms
proof (induction rule: interleaves.induct)
  case (move T ls s i c l s')
  then show ?case by (blast intro: interleaves.move)
qed

lemma interleaves_length:
  "interleaves step ok S T \<Longrightarrow> length (fst T) = length (fst S)"
  by (induction rule: interleaves.induct) auto

locale interleaving =
  fixes step :: "'c \<Rightarrow> 'l \<Rightarrow> 's \<Rightarrow> ('l \<times> 's) option" and ok :: "'c \<Rightarrow> 'l \<Rightarrow> 's \<Rightarrow> bool"
    and inv :: "'l list \<Rightarrow> 's \<Rightarrow> bool" and work :: "'l \<Rightarrow> nat"
  assumes safe: "inv ls s \<Longrightarrow> i < length ls \<Longrightarrow> ok c (ls ! i) s \<Longrightarrow>
      \<exists>l s'. step c (ls ! i) s = Some (l, s') \<and> inv (ls[i := l]) s' \<and> work l < work (ls ! i)"
    and served: "inv ls s \<Longrightarrow> i < length ls \<Longrightarrow> 0 < work (ls ! i) \<Longrightarrow> \<exists>c. ok c (ls ! i) s"
begin

lemma reachable_inv:
  assumes "interleaves step ok S T" "inv (fst S) (snd S)"
  shows "inv (fst T) (snd T)"
  using assms
proof (induction rule: interleaves.induct)
  case (move S ls s i c l s')
  then show ?case using safe [of ls s i c] by auto
qed

lemma never_faults:
  assumes "interleaves step ok (ls, s) (ls', s')" "inv ls s" "i < length ls'" "ok c (ls' ! i) s'"
  shows "step c (ls' ! i) s' \<noteq> None"
  using reachable_inv [OF assms(1)] safe [of ls' s' i c] assms(2-4) by auto

text \<open>Every step leaves less work, so the threads can always be run to their end.\<close>

lemma finishes:
  "inv ls s \<Longrightarrow> \<exists>ls' s'. interleaves step ok (ls, s) (ls', s') \<and> (\<forall>l\<in>set ls'. work l = 0)"
proof (induction "sum_list (map work ls)" arbitrary: ls s rule: less_induct)
  case less
  show ?case
  proof (cases "\<forall>l\<in>set ls. work l = 0")
    case True
    then show ?thesis by (blast intro: interleaves.idle)
  next
    case False
    then obtain i where i: "i < length ls" "0 < work (ls ! i)" by (auto simp: in_set_conv_nth)
    obtain c where c: "ok c (ls ! i) s" using served [OF less.prems i] by blast
    obtain l s' where l: "step c (ls ! i) s = Some (l, s')" "inv (ls[i := l]) s'" "work l < work (ls ! i)"
      using safe [OF less.prems i(1) c] by blast
    have "sum_list (map work (ls[i := l])) + work (ls ! i) = sum_list (map work ls) + work l"
      using i(1) member_le_sum_list [of "work (ls ! i)" "map work ls"]
      by (simp add: map_update sum_list_update)
    then have "sum_list (map work (ls[i := l])) < sum_list (map work ls)" using l(3) by linarith
    then show ?thesis
      using less.hyps [OF _ l(2)] first_move [of i ls ok c s step l s', OF i(1) c l(1)] by blast
  qed
qed

end

end
