(* ===== verification/Cow_Brd_Race.thy ===== *)
theory Cow_Brd_Race
  imports Cow_Brd_Store Interleaving
begin

text \<open>
  Several writers in \<open>cow_brd.c\<close> at once.  The kernel calls \<open>brd_make_request\<close> in whatever thread
  submits a request, so two writes to one page may be in \<open>copy_to_brd_setup\<close> and \<open>copy_to_brd\<close> at the
  same time.  \<open>brd_insert_page\<close> takes the lock \<open>brd_lock\<close> for the insertion into the radix tree, and
  only for that: looking the page up, copying the page of the parent and copying the data are steps
  of their own here.  A \<open>memcpy\<close> is one step.

  A device without parent pages under the writes is safe: whatever the interleaving, the finished
  writes are on the disk.  A snapshot is not: the copy of the parent's page comes after the lock is
  released, and a late copy undoes a write that has finished.
\<close>

section \<open>One writer\<close>

text \<open>
  Where a writer is: before the lookup of \<open>brd_insert_page\<close> for the first of some sectors, before
  the locked insertion (the page found missing, memory allocated), before the copy of the parent's
  page, before the two copies of \<open>copy_to_brd\<close>, or at its end.
\<close>

datatype brd_stage =
  Look_up "nat list" | Insert_locked nat "nat list" | Copy_parent nat "nat list" |
  Copy_first | Copy_rest | Written | No_memory

record brd_writer =
  wr_sector :: nat
  wr_data :: "byte list"
  wr_stage :: brd_stage

definition first_copy :: "nat \<Rightarrow> byte list \<Rightarrow> nat" where
  "first_copy s d = min (length d) (PAGE_SIZE - page_offset s)"

text \<open>The sectors \<open>copy_to_brd_setup\<close> inserts pages for.\<close>

definition setup_sectors :: "nat \<Rightarrow> byte list \<Rightarrow> nat list" where
  "setup_sectors s d =
     s # (if first_copy s d < length d then [s + drop_bit SECTOR_SHIFT (first_copy s d)] else [])"

definition prepared :: "nat list \<Rightarrow> brd_stage" where
  "prepared xs = (if xs = [] then Copy_first else Look_up xs)"

definition new_writer :: "nat \<Rightarrow> byte list \<Rightarrow> brd_writer" where
  "new_writer s d = \<lparr>wr_sector = s, wr_data = d, wr_stage = Look_up (setup_sectors s d)\<rparr>"

text \<open>
  The steps of \<open>brd_insert_page\<close>; \<open>mem\<close> says whether there is memory for a page and for the
  preloading.
\<close>

fun insert_step :: "page_tree option \<Rightarrow> bool \<Rightarrow> brd_stage \<Rightarrow> page_tree \<Rightarrow> (brd_stage \<times> page_tree) option" where
  "insert_step pp mem (Look_up (x # xs)) t =
     (case brd_lookup_page t x of
        Some _ \<Rightarrow> Some (prepared xs, t)
      | None \<Rightarrow> Some (if mem then Insert_locked x xs else No_memory, t))"
| "insert_step pp mem (Insert_locked x xs) t =
     Some (Copy_parent x xs,
       case brd_lookup_page t x of
         None \<Rightarrow> fmupd (page_index x) zero_page t
       | Some _ \<Rightarrow> t)"
| "insert_step pp mem (Copy_parent x xs) t =
     Some (prepared xs,
       case Option.bind pp (\<lambda>q. brd_lookup_page q x) of
         None \<Rightarrow> t
       | Some parent_page \<Rightarrow> fmupd (page_index x) parent_page t)"
| "insert_step pp mem _ t = None"

text \<open>
  The steps of \<open>copy_to_brd\<close>.  \<open>None\<close> is a \<open>BUG_ON\<close> that fires or a copy past the end of a page.
\<close>

fun copy_step :: "page_tree option \<Rightarrow> nat \<Rightarrow> byte list \<Rightarrow> brd_stage \<Rightarrow> page_tree \<Rightarrow> (brd_stage \<times> page_tree) option" where
  "copy_step pp s d Copy_first t =
     (case brd_lookup_page t s of
        None \<Rightarrow> None
      | Some page \<Rightarrow>
          Some (if first_copy s d < length d then Copy_rest else Written,
            fmupd (page_index s) (page_write page (page_offset s) (take (first_copy s d) d)) t))"
| "copy_step pp s d Copy_rest t =
     (let copy = first_copy s d;
          sector2 = s + drop_bit SECTOR_SHIFT copy;
          copy2 = length d - copy
      in case brd_lookup_page t sector2 of
           None \<Rightarrow> None
         | Some page2 \<Rightarrow>
             if copy2 > PAGE_SIZE then None
             else
               (let dst =
                  (case Option.bind pp (\<lambda>q. brd_lookup_page q sector2) of
                     None \<Rightarrow> page2
                   | Some parent_page \<Rightarrow>
                       page_write page2 copy2 (page_read parent_page copy2 (PAGE_SIZE - copy2)))
                in Some (Written, fmupd (page_index sector2) (page_write dst 0 (drop copy d)) t)))"
| "copy_step pp s d _ t = None"

definition stage_step :: "page_tree option \<Rightarrow> bool \<Rightarrow> nat \<Rightarrow> byte list \<Rightarrow> brd_stage \<Rightarrow> page_tree
    \<Rightarrow> (brd_stage \<times> page_tree) option" where
  "stage_step pp mem s d st t =
     (if st = Copy_first \<or> st = Copy_rest then copy_step pp s d st t else insert_step pp mem st t)"

lemma stage_step_simps [simp]:
  "stage_step pp mem s d (Look_up xs) t = insert_step pp mem (Look_up xs) t"
  "stage_step pp mem s d (Insert_locked x xs) t = insert_step pp mem (Insert_locked x xs) t"
  "stage_step pp mem s d (Copy_parent x xs) t = insert_step pp mem (Copy_parent x xs) t"
  "stage_step pp mem s d Copy_first t = copy_step pp s d Copy_first t"
  "stage_step pp mem s d Copy_rest t = copy_step pp s d Copy_rest t"
  by (simp_all add: stage_step_def)

definition brd_step :: "page_tree option \<Rightarrow> bool \<Rightarrow> brd_writer \<Rightarrow> page_tree
    \<Rightarrow> (brd_writer \<times> page_tree) option" where
  "brd_step pp mem w t =
     map_option (\<lambda>(st, t'). (w\<lparr>wr_stage := st\<rparr>, t'))
       (stage_step pp mem (wr_sector w) (wr_data w) (wr_stage w) t)"

text \<open>The number of steps a writer has ahead of it at most; one that has ended has none.\<close>

fun stage_work :: "brd_stage \<Rightarrow> nat" where
  "stage_work (Look_up xs) = 3 * length xs + 2"
| "stage_work (Insert_locked x xs) = 3 * length xs + 4"
| "stage_work (Copy_parent x xs) = 3 * length xs + 3"
| "stage_work Copy_first = 2"
| "stage_work Copy_rest = 1"
| "stage_work Written = 0"
| "stage_work No_memory = 0"

definition brd_ok :: "bool \<Rightarrow> brd_writer \<Rightarrow> page_tree \<Rightarrow> bool" where
  "brd_ok mem w t \<longleftrightarrow> 0 < stage_work (wr_stage w)"


section \<open>A writer that runs alone\<close>

lemma brd_lookup_upd [simp]: "brd_lookup_page (fmupd (page_index x) p t) x = Some p"
  by (simp add: brd_lookup_page_def)

lemma stage_move:
  assumes "stage_step pp mem s d st t = Some (st', t')" "0 < stage_work st"
    and "i < length ws" "ws ! i = \<lparr>wr_sector = s, wr_data = d, wr_stage = st\<rparr>"
    and "interleaves (brd_step pp) brd_ok (ws[i := \<lparr>wr_sector = s, wr_data = d, wr_stage = st'\<rparr>], t') T"
  shows "interleaves (brd_step pp) brd_ok (ws, t) T"
  by (rule first_move [where c = mem, OF assms(3) _ _ assms(5)])
    (use assms(1,2,4) in \<open>simp_all add: brd_ok_def brd_step_def\<close>)

text \<open>Its steps are \<open>copy_to_brd_setup\<close> and \<open>copy_to_brd\<close>.\<close>

lemma alone_insert:
  assumes ins: "brd_insert_page pp [] t x = (ok, t1, ms)"
    and rest: "interleaves (brd_step pp) brd_ok ([\<lparr>wr_sector = s, wr_data = d, wr_stage = prepared xs\<rparr>], t1) T"
  shows "interleaves (brd_step pp) brd_ok
    ([\<lparr>wr_sector = s, wr_data = d, wr_stage = Look_up (x # xs)\<rparr>], t) T"
proof (cases "brd_lookup_page t x")
  case (Some p)
  then have "stage_step pp True s d (Look_up (x # xs)) t = Some (prepared xs, t1)"
    using ins by (simp add: brd_insert_page_def)
  then show ?thesis by (rule stage_move [where i = 0]) (simp_all add: rest)
next
  case None
  let ?z = "fmupd (page_index x) zero_page t" and ?w = "\<lambda>st. [\<lparr>wr_sector = s, wr_data = d, wr_stage = st\<rparr>]"
  have "stage_step pp True s d (Copy_parent x xs) ?z = Some (prepared xs, t1)"
    using ins None by (auto simp: brd_insert_page_def Let_def split: option.splits)
  then have "interleaves (brd_step pp) brd_ok (?w (Copy_parent x xs), ?z) T"
    by (rule stage_move [where i = 0]) (simp_all add: rest)
  then have "interleaves (brd_step pp) brd_ok (?w (Insert_locked x xs), t) T"
    using stage_move [of pp True s d "Insert_locked x xs" t "Copy_parent x xs" ?z 0 "?w (Insert_locked x xs)"]
      None by simp
  then show ?thesis
    using stage_move [of pp True s d "Look_up (x # xs)" t "Insert_locked x xs" t 0 "?w (Look_up (x # xs))"]
      None by simp
qed

lemma copy_to_brd_stages:
  "copy_to_brd pp t d s =
     (case stage_step pp mem s d Copy_first t of
        None \<Rightarrow> None
      | Some (st, t1) \<Rightarrow>
          if first_copy s d < length d then map_option snd (stage_step pp mem s d Copy_rest t1) else Some t1)"
proof -
  have bind: "(case Option.bind pp f of None \<Rightarrow> a | Some p \<Rightarrow> g p) =
      (case pp of None \<Rightarrow> a | Some q \<Rightarrow> (case f q of None \<Rightarrow> a | Some p \<Rightarrow> g p))"
    for f :: "page_tree \<Rightarrow> page option" and a :: page and g
    by (cases pp) simp_all
  show ?thesis
    unfolding copy_to_brd_def Let_def first_copy_def [symmetric]
    by (cases "first_copy s d < length d")
      (simp_all add: bind Let_def del: page_consts split: option.split)
qed

lemma alone_copy:
  assumes "copy_to_brd pp t d s = Some t1"
  shows "interleaves (brd_step pp) brd_ok
    ([\<lparr>wr_sector = s, wr_data = d, wr_stage = Copy_first\<rparr>], t)
    ([\<lparr>wr_sector = s, wr_data = d, wr_stage = Written\<rparr>], t1)"
proof -
  let ?w = "\<lambda>st. [\<lparr>wr_sector = s, wr_data = d, wr_stage = st\<rparr>]"
  from assms obtain st t' where one: "stage_step pp True s d Copy_first t = Some (st, t')"
    unfolding copy_to_brd_stages [of pp t d s True] by (auto split: option.splits)
  have st: "st = (if first_copy s d < length d then Copy_rest else Written)"
    using one by (auto split: option.splits)
  have "interleaves (brd_step pp) brd_ok (?w st, t') (?w Written, t1)"
  proof (cases "first_copy s d < length d")
    case False
    then show ?thesis
      using assms one st by (simp add: copy_to_brd_stages [of pp t d s True] interleaves.idle del: copy_step.simps)
  next
    case True
    have "\<exists>t2. stage_step pp True s d Copy_rest t' = Some (Written, t2) \<and> t1 = t2"
      using assms one True unfolding copy_to_brd_stages [of pp t d s True]
      by (auto simp: Let_def split: option.splits if_splits)
    then show ?thesis
      using True st stage_move [of pp True s d Copy_rest t' Written t1 0 "?w st"]
      by (auto simp: interleaves.idle simp del: copy_step.simps)
  qed
  then show ?thesis
    using stage_move [OF one, of 0 "?w Copy_first"] by simp
qed



section \<open>What keeps concurrent writes apart\<close>

text \<open>The bytes a writer has put on the disk so far, and their values.\<close>

fun copied :: "nat \<Rightarrow> byte list \<Rightarrow> brd_stage \<Rightarrow> nat" where
  "copied s d Written = length d"
| "copied s d Copy_rest = first_copy s d"
| "copied s d _ = 0"

definition wrote :: "brd_writer \<Rightarrow> nat \<Rightarrow> bool" where
  "wrote w a \<longleftrightarrow> 512 * wr_sector w \<le> a \<and>
     a < 512 * wr_sector w + copied (wr_sector w) (wr_data w) (wr_stage w)"

definition byte_at :: "brd_writer \<Rightarrow> nat \<Rightarrow> byte" where
  "byte_at w a = wr_data w ! (a - 512 * wr_sector w)"

text \<open>
  No page of the parent is copied for the write: the parent has none there, or the write stays
  inside a page the device has already.
\<close>

definition no_parent_copy :: "page_tree option \<Rightarrow> page_tree \<Rightarrow> nat \<Rightarrow> byte list \<Rightarrow> bool" where
  "no_parent_copy pp t s d \<longleftrightarrow>
     list_all (\<lambda>x. Option.bind pp (\<lambda>q. brd_lookup_page q x) = None) (setup_sectors s d) \<or>
     page_offset s + length d \<le> PAGE_SIZE \<and> brd_lookup_page t s \<noteq> None"

fun to_prepare :: "brd_stage \<Rightarrow> nat list" where
  "to_prepare (Look_up xs) = xs"
| "to_prepare (Insert_locked x xs) = x # xs"
| "to_prepare (Copy_parent x xs) = xs"
| "to_prepare _ = []"

definition stage_inv :: "page_tree option \<Rightarrow> page_tree \<Rightarrow> page_tree \<Rightarrow> nat \<Rightarrow> byte list \<Rightarrow> brd_stage \<Rightarrow> bool" where
  "stage_inv pp t0 t s d st \<longleftrightarrow>
     length d \<le> PAGE_SIZE \<and> no_parent_copy pp t0 s d \<and>
     (st = No_memory \<or>
      (\<exists>ys. setup_sectors s d = ys @ to_prepare st \<and> page_index ` set ys \<subseteq> fmdom' t)) \<and>
     (case st of
        Look_up xs \<Rightarrow> xs \<noteq> []
      | Insert_locked x _ \<Rightarrow> Option.bind pp (\<lambda>q. brd_lookup_page q x) = None
      | Copy_parent x _ \<Rightarrow> Option.bind pp (\<lambda>q. brd_lookup_page q x) = None
      | Copy_rest \<Rightarrow> first_copy s d < length d
      | _ \<Rightarrow> True)"

lemma stage_inv_mono: "stage_inv pp t0 t s d st \<Longrightarrow> fmdom' t \<subseteq> fmdom' t' \<Longrightarrow> stage_inv pp t0 t' s d st"
  by (fastforce simp: stage_inv_def)

lemma setup_sectors_simps:
  "first_copy s d = length d \<or> first_copy s d = PAGE_SIZE - page_offset s \<and> PAGE_SIZE - page_offset s < length d"
  "page_offset s + length d \<le> PAGE_SIZE \<Longrightarrow> setup_sectors s d = [s]"
  "first_copy s d \<le> length d"
  by (auto simp: setup_sectors_def first_copy_def min_def)

lemma page_of_zero:
  "brd_lookup_page t x = None \<Longrightarrow> Option.bind pp (\<lambda>q. brd_lookup_page q x) = None \<Longrightarrow>
    page_of pp (fmupd (page_index x) zero_page t) = page_of pp t"
  by (rule ext) (auto simp: page_of_def brd_lookup_page_def)

lemma missing_no_parent:
  assumes "no_parent_copy pp t0 s d" "x \<in> set (setup_sectors s d)" "brd_lookup_page t x = None"
    and "fmdom' t0 \<subseteq> fmdom' t"
  shows "Option.bind pp (\<lambda>q. brd_lookup_page q x) = None"
  using assms setup_sectors_simps(2) [of s d]
  by (auto simp: no_parent_copy_def list_all_iff brd_lookup_page_def fmlookup_dom'_iff subset_iff)

lemma stage_inv_prepared:
  assumes "length d \<le> PAGE_SIZE" "no_parent_copy pp t0 s d" "setup_sectors s d = ys @ xs"
    "page_index ` set ys \<subseteq> fmdom' t"
  shows "stage_inv pp t0 t s d (prepared xs)"
  using assms by (auto simp: stage_inv_def prepared_def)

text \<open>
  A step of one writer succeeds, keeps what was said of it, and writes the next bytes of its data
  (none, unless it is a copy of data).
\<close>

definition lands :: "page_tree option \<Rightarrow> page_tree \<Rightarrow> nat \<Rightarrow> byte list \<Rightarrow> brd_stage
    \<Rightarrow> (brd_stage \<times> page_tree) option \<Rightarrow> page_tree \<Rightarrow> bool" where
  "lands pp t0 s d st r t \<longleftrightarrow>
     (case r of
        None \<Rightarrow> False
      | Some (st', t') \<Rightarrow>
          stage_inv pp t0 t' s d st' \<and> fmdom' t \<subseteq> fmdom' t' \<and> stage_work st' < stage_work st \<and>
          copied s d st \<le> copied s d st' \<and> copied s d st' \<le> length d \<and>
          disk_byte pp t' = page_write (disk_byte pp t) (512 * s + copied s d st)
            (drop (copied s d st) (take (copied s d st') d)))"

lemma lookup_in_dom: "brd_lookup_page t x = Some p \<Longrightarrow> page_index x \<in> fmdom' t"
  by (simp add: brd_lookup_page_def fmdom'I)

lemma disk_byte_page_of: "page_of pp t' = page_of pp t \<Longrightarrow> disk_byte pp t' = disk_byte pp t"
  by (rule ext) (simp add: disk_byte_def)

lemma copied_prepared [simp]: "copied s d (prepared xs) = 0" "stage_work (prepared xs) = 3 * length xs + 2"
  by (simp_all add: prepared_def)

lemma look_up_lands:
  assumes inv: "stage_inv pp t0 t s d (Look_up xs)" and dom: "fmdom' t0 \<subseteq> fmdom' t"
  shows "lands pp t0 s d (Look_up xs) (stage_step pp mem s d (Look_up xs) t) t"
proof -
  from inv obtain x xs' ys where xs: "xs = x # xs'" "setup_sectors s d = ys @ x # xs'"
    "page_index ` set ys \<subseteq> fmdom' t" "length d \<le> PAGE_SIZE" "no_parent_copy pp t0 s d"
    by (cases xs) (auto simp: stage_inv_def)
  show ?thesis
  proof (cases "brd_lookup_page t x")
    case (Some p)
    have "stage_inv pp t0 t s d (prepared xs')"
      by (rule stage_inv_prepared [OF xs(4,5), of "ys @ [x]"]) (use xs(2,3) lookup_in_dom [OF Some] in auto)
    then show ?thesis using Some xs(1) by (simp add: lands_def)
  next
    case None
    have "Option.bind pp (\<lambda>q. brd_lookup_page q x) = None"
      by (rule missing_no_parent [OF xs(5) _ None dom]) (simp add: xs(2))
    then have "stage_inv pp t0 t s d (if mem then Insert_locked x xs' else No_memory)"
      using xs by (auto simp: stage_inv_def)
    then show ?thesis using None xs(1) by (simp add: lands_def)
  qed
qed

lemma insert_lands:
  assumes inv: "stage_inv pp t0 t s d (Insert_locked x xs)"
  shows "lands pp t0 s d (Insert_locked x xs) (stage_step pp mem s d (Insert_locked x xs) t) t"
proof -
  define u where "u = (case brd_lookup_page t x of
    None \<Rightarrow> fmupd (page_index x) zero_page t | Some _ \<Rightarrow> t)"
  have step: "stage_step pp mem s d (Insert_locked x xs) t = Some (Copy_parent x xs, u)"
    by (simp add: u_def)
  have none: "Option.bind pp (\<lambda>q. brd_lookup_page q x) = None" using inv by (simp add: stage_inv_def)
  have dom: "fmdom' u = insert (page_index x) (fmdom' t)"
    using lookup_in_dom [of t x] by (auto simp: u_def split: option.split)
  have "disk_byte pp u = disk_byte pp t"
    by (rule disk_byte_page_of) (simp add: u_def page_of_zero [OF _ none] split: option.split)
  moreover have "stage_inv pp t0 u s d (Copy_parent x xs)"
  proof -
    from inv obtain ys where "setup_sectors s d = ys @ x # xs" "page_index ` set ys \<subseteq> fmdom' t"
      by (auto simp: stage_inv_def)
    then have "\<exists>ys. setup_sectors s d = ys @ xs \<and> page_index ` set ys \<subseteq> fmdom' u"
      unfolding dom by (intro exI [of _ "ys @ [x]"]) auto
    then show ?thesis using inv none unfolding stage_inv_def by simp
  qed
  ultimately show ?thesis unfolding step using dom by (auto simp: lands_def)
qed

lemma parent_lands:
  assumes inv: "stage_inv pp t0 t s d (Copy_parent x xs)"
  shows "lands pp t0 s d (Copy_parent x xs) (stage_step pp mem s d (Copy_parent x xs) t) t"
proof -
  from inv obtain ys where "setup_sectors s d = ys @ xs" "page_index ` set ys \<subseteq> fmdom' t"
    "length d \<le> PAGE_SIZE" "no_parent_copy pp t0 s d"
    and none: "Option.bind pp (\<lambda>q. brd_lookup_page q x) = None" by (auto simp: stage_inv_def)
  then have "stage_inv pp t0 t s d (prepared xs)" by (blast intro: stage_inv_prepared)
  then show ?thesis using none by (simp add: lands_def)
qed

lemma written_inv:
  assumes "stage_inv pp t0 t s d st" "to_prepare st = []" "st \<noteq> No_memory" "fmdom' t \<subseteq> fmdom' t'"
  shows "stage_inv pp t0 t' s d Written"
  using assms by (fastforce simp: stage_inv_def)

lemma first_lands:
  assumes inv: "stage_inv pp t0 t s d Copy_first"
  shows "lands pp t0 s d Copy_first (stage_step pp mem s d Copy_first t) t"
proof -
  let ?n = "first_copy s d"
  from inv obtain p where p: "brd_lookup_page t s = Some p"
    by (auto simp: stage_inv_def setup_sectors_def brd_lookup_page_def fmlookup_dom'_iff)
  let ?t = "fmupd (page_index s) (page_write p (page_offset s) (take ?n d)) t"
  have dom: "fmdom' t \<subseteq> fmdom' ?t" by auto
  have "page_offset s + length (take ?n d) \<le> 4096"
    using page_offset_le [of s] by (simp add: first_copy_def)
  from page_write_at [OF this, of pp "page_index s" t]
  have disk: "disk_byte pp ?t = page_write (disk_byte pp t) (512 * s) (take ?n d)"
    using p by (simp add: page_of_lookup brd_lookup_page_def sector_addr)
  show ?thesis
  proof (cases "?n < length d")
    case True
    then have "stage_inv pp t0 ?t s d Copy_rest"
      using inv stage_inv_mono [OF inv dom] by (simp add: stage_inv_def)
    then show ?thesis using p True disk dom by (simp add: lands_def)
  next
    case False
    then have "?n = length d" using setup_sectors_simps(3) [of s d] by simp
    then show ?thesis
      using p disk dom written_inv [OF inv _ _ dom] by (simp add: lands_def)
  qed
qed

lemma rest_lands:
  assumes inv: "stage_inv pp t0 t s d Copy_rest"
  shows "lands pp t0 s d Copy_rest (stage_step pp mem s d Copy_rest t) t"
proof -
  let ?n = "first_copy s d" and ?x = "s + drop_bit SECTOR_SHIFT (first_copy s d)"
  have two: "?n < length d" "length d \<le> PAGE_SIZE" using inv by (simp_all add: stage_inv_def)
  then have n: "?n = PAGE_SIZE - page_offset s" using setup_sectors_simps(1) [of s d] by auto
  have x: "?x \<in> set (setup_sectors s d)" using two(1) by (simp add: setup_sectors_def)
  from inv x obtain q where q: "brd_lookup_page t ?x = Some q"
    by (auto simp: stage_inv_def brd_lookup_page_def fmlookup_dom'_iff image_subset_iff)
  have none: "Option.bind pp (\<lambda>u. brd_lookup_page u ?x) = None"
    using inv two x n by (auto simp: stage_inv_def no_parent_copy_def list_all_iff)
  let ?t = "fmupd (page_index ?x) (page_write q 0 (drop ?n d)) t"
  have dom: "fmdom' t \<subseteq> fmdom' ?t" by auto
  have "4096 * page_index ?x = 512 * s + ?n"
    using second_page(1) [of s] sector_addr [of s] page_offset_le [of s] by (simp add: n)
  then have disk: "disk_byte pp ?t = page_write (disk_byte pp t) (512 * s + ?n) (drop ?n d)"
    using page_write_at [of 0 "drop ?n d" pp "page_index ?x" t] two q
    by (simp add: page_of_lookup brd_lookup_page_def)
  have "stage_step pp mem s d Copy_rest t = Some (Written, ?t)"
    using q none two by (simp add: Let_def)
  then show ?thesis
    using disk dom two written_inv [OF inv _ _ dom] by (simp add: lands_def)
qed

lemma stage_lands:
  assumes "stage_inv pp t0 t s d st" "fmdom' t0 \<subseteq> fmdom' t" "0 < stage_work st"
  shows "lands pp t0 s d st (stage_step pp mem s d st t) t"
  using assms
  by (cases st) (simp_all only: look_up_lands insert_lands parent_lands first_lands rest_lands stage_work.simps)

section \<open>Any interleaving of writes without parent pages\<close>

definition wr_inv :: "page_tree option \<Rightarrow> page_tree \<Rightarrow> page_tree \<Rightarrow> brd_writer \<Rightarrow> bool" where
  "wr_inv pp t0 t w \<longleftrightarrow> stage_inv pp t0 t (wr_sector w) (wr_data w) (wr_stage w) \<and>
     copied (wr_sector w) (wr_data w) (wr_stage w) \<le> length (wr_data w)"

text \<open>
  Where no writer has written, the disk is the old one; elsewhere it has what one of them wrote.
\<close>

definition bytes_ok :: "page_tree option \<Rightarrow> page_tree \<Rightarrow> brd_writer list \<Rightarrow> page_tree \<Rightarrow> bool" where
  "bytes_ok pp t0 ws t \<longleftrightarrow>
     (\<forall>a. if \<exists>w\<in>set ws. wrote w a then \<exists>w\<in>set ws. wrote w a \<and> disk_byte pp t a = byte_at w a
          else disk_byte pp t a = disk_byte pp t0 a)"

definition race_inv :: "page_tree option \<Rightarrow> page_tree \<Rightarrow> (nat \<times> byte list) list \<Rightarrow> brd_writer list
    \<Rightarrow> page_tree \<Rightarrow> bool" where
  "race_inv pp t0 ks ws t \<longleftrightarrow>
     map (\<lambda>w. (wr_sector w, wr_data w)) ws = ks \<and> fmdom' t0 \<subseteq> fmdom' t \<and>
     (\<forall>w\<in>set ws. wr_inv pp t0 t w) \<and> bytes_ok pp t0 ws t"

lemma wr_inv_mono: "wr_inv pp t0 t w \<Longrightarrow> fmdom' t \<subseteq> fmdom' t' \<Longrightarrow> wr_inv pp t0 t' w"
  by (auto simp: wr_inv_def intro: stage_inv_mono)

lemma writer_step:
  assumes "wr_inv pp t0 t w" "fmdom' t0 \<subseteq> fmdom' t" "brd_ok mem w t"
  obtains w' t' where "brd_step pp mem w t = Some (w', t')" "wr_inv pp t0 t' w'"
    "wr_sector w' = wr_sector w" "wr_data w' = wr_data w" "fmdom' t \<subseteq> fmdom' t'"
    "stage_work (wr_stage w') < stage_work (wr_stage w)" "\<And>a. wrote w a \<Longrightarrow> wrote w' a"
    "\<And>a. disk_byte pp t' a = (if wrote w' a \<and> \<not> wrote w a then byte_at w' a else disk_byte pp t a)"
proof -
  let ?s = "wr_sector w" and ?d = "wr_data w"
  have "lands pp t0 ?s ?d (wr_stage w) (stage_step pp mem ?s ?d (wr_stage w) t) t"
    using assms by (intro stage_lands) (simp_all add: wr_inv_def brd_ok_def)
  then obtain st t' where step: "stage_step pp mem ?s ?d (wr_stage w) t = Some (st, t')"
    and l: "stage_inv pp t0 t' ?s ?d st" "fmdom' t \<subseteq> fmdom' t'" "stage_work st < stage_work (wr_stage w)"
      "copied ?s ?d (wr_stage w) \<le> copied ?s ?d st" "copied ?s ?d st \<le> length ?d"
      "disk_byte pp t' = page_write (disk_byte pp t) (512 * ?s + copied ?s ?d (wr_stage w))
         (drop (copied ?s ?d (wr_stage w)) (take (copied ?s ?d st) ?d))"
    by (auto simp: lands_def split: option.splits)
  show thesis
  proof (rule that [of "w\<lparr>wr_stage := st\<rparr>" t'])
    show "brd_step pp mem w t = Some (w\<lparr>wr_stage := st\<rparr>, t')" by (simp add: brd_step_def step)
  qed (use l in \<open>auto simp: wr_inv_def wrote_def byte_at_def page_write_def\<close>)
qed

lemma bytes_ok_step:
  assumes "bytes_ok pp t0 ws t" "i < length ws" "\<And>a. wrote (ws ! i) a \<Longrightarrow> wrote w' a"
    and same: "wr_sector w' = wr_sector (ws ! i)" "wr_data w' = wr_data (ws ! i)"
    and disk: "\<And>a. disk_byte pp t' a =
      (if wrote w' a \<and> \<not> wrote (ws ! i) a then byte_at w' a else disk_byte pp t a)"
  shows "bytes_ok pp t0 (ws[i := w']) t'"
  unfolding bytes_ok_def
proof
  fix a
  have mem: "w' \<in> set (ws[i := w'])" by (rule set_update_memI [OF assms(2)])
  have old: "\<exists>v\<in>set (ws[i := w']). wrote v a \<and> byte_at v a = byte_at w a"
    if w: "w \<in> set ws" "wrote w a" for w
  proof -
    from w(1) obtain j where "j < length ws" "w = ws ! j" by (auto simp: in_set_conv_nth)
    then show ?thesis
      using w(2) assms(2,3) same mem by (cases "j = i") (auto simp: byte_at_def set_conv_nth)
  qed
  have new: "v = w' \<or> v \<in> set ws" if "v \<in> set (ws[i := w'])" for v
    using that set_update_subset_insert [of ws i w'] by blast
  have cur: "ws ! i \<in> set ws" using assms(2) by simp
  show "if \<exists>w\<in>set (ws[i := w']). wrote w a
      then \<exists>w\<in>set (ws[i := w']). wrote w a \<and> disk_byte pp t' a = byte_at w a
      else disk_byte pp t' a = disk_byte pp t0 a"
  proof (cases "wrote w' a \<and> \<not> wrote (ws ! i) a")
    case True
    then show ?thesis using mem disk [of a] by auto
  next
    case False
    then have d: "disk_byte pp t' a = disk_byte pp t a" unfolding disk by (rule if_not_P)
    show ?thesis
    proof (cases "\<exists>w\<in>set ws. wrote w a")
      case True
      then obtain w where "w \<in> set ws" "wrote w a" "disk_byte pp t a = byte_at w a"
        using assms(1) by (auto simp: bytes_ok_def split: if_splits)
      then show ?thesis using old d by fastforce
    next
      case none: False
      then have "\<not> (\<exists>w\<in>set (ws[i := w']). wrote w a)" using new False cur by blast
      then show ?thesis using assms(1) none d by (simp add: bytes_ok_def)
    qed
  qed
qed

interpretation brd_race: interleaving "brd_step pp" brd_ok "race_inv pp t0 ks"
  "\<lambda>w. stage_work (wr_stage w)" for pp t0 ks
proof unfold_locales
  fix ws t i mem
  assume inv: "race_inv pp t0 ks ws t" and i: "i < length ws" and ok: "brd_ok mem (ws ! i) t"
  have w: "wr_inv pp t0 t (ws ! i)" "fmdom' t0 \<subseteq> fmdom' t" "bytes_ok pp t0 ws t"
    using inv i by (simp_all add: race_inv_def)
  obtain w' t' where w': "brd_step pp mem (ws ! i) t = Some (w', t')" "wr_inv pp t0 t' w'"
    "wr_sector w' = wr_sector (ws ! i)" "wr_data w' = wr_data (ws ! i)" "fmdom' t \<subseteq> fmdom' t'"
    "stage_work (wr_stage w') < stage_work (wr_stage (ws ! i))" "\<And>a. wrote (ws ! i) a \<Longrightarrow> wrote w' a"
    "\<And>a. disk_byte pp t' a = (if wrote w' a \<and> \<not> wrote (ws ! i) a then byte_at w' a else disk_byte pp t a)"
    by (rule writer_step [OF w(1,2) ok]) blast
  have keys: "map (\<lambda>w. (wr_sector w, wr_data w)) (ws[i := w']) = ks"
    using inv w'(3,4) i by (auto simp: race_inv_def map_update intro!: list_update_same_conv [THEN iffD2])
  have all: "\<forall>v\<in>set (ws[i := w']). wr_inv pp t0 t' v"
  proof
    fix v assume "v \<in> set (ws[i := w'])"
    then consider "v = w'" | "v \<in> set ws" using set_update_subset_insert [of ws i w'] by blast
    then show "wr_inv pp t0 t' v" using w'(2) wr_inv_mono [OF _ w'(5)] inv by cases (auto simp: race_inv_def)
  qed
  have "race_inv pp t0 ks (ws[i := w']) t'"
    using keys all w(2) w'(5) bytes_ok_step [OF w(3) i w'(7,3,4,8)] by (simp add: race_inv_def)
  then show "\<exists>l s'. brd_step pp mem (ws ! i) t = Some (l, s') \<and> race_inv pp t0 ks (ws[i := l]) s' \<and>
      stage_work (wr_stage l) < stage_work (wr_stage (ws ! i))"
    using w'(1,6) by blast
qed (simp add: brd_ok_def)

text \<open>Writes to places that do not overlap, applied one after the other.\<close>

definition apart :: "nat \<times> byte list \<Rightarrow> nat \<times> byte list \<Rightarrow> bool" where
  "apart k k' \<longleftrightarrow>
     512 * fst k + length (snd k) \<le> 512 * fst k' \<or> 512 * fst k' + length (snd k') \<le> 512 * fst k"

fun write_each :: "(nat \<times> byte list) list \<Rightarrow> (nat \<Rightarrow> byte) \<Rightarrow> nat \<Rightarrow> byte" where
  "write_each [] m = m"
| "write_each ((s, d) # ks) m = write_each ks (page_write m (512 * s) d)"

abbreviation covers :: "nat \<times> byte list \<Rightarrow> nat \<Rightarrow> bool" where
  "covers k a \<equiv> 512 * fst k \<le> a \<and> a < 512 * fst k + length (snd k)"

lemma write_each_other: "(\<And>k. k \<in> set ks \<Longrightarrow> \<not> covers k a) \<Longrightarrow> write_each ks m a = m a"
  by (induction ks m rule: write_each.induct) (auto simp: page_write_def)

lemma write_each_at:
  "sorted_wrt apart ks \<Longrightarrow> k \<in> set ks \<Longrightarrow> covers k a \<Longrightarrow> write_each ks m a = snd k ! (a - 512 * fst k)"
proof (induction ks m rule: write_each.induct)
  case (2 s d ks m)
  show ?case
  proof (cases "covers (s, d) a")
    case True
    then have "\<not> covers k' a" if "k' \<in> set ks" for k' using 2(2) that by (fastforce simp: apart_def)
    then have "write_each ks (page_write m (512 * s) d) a = d ! (a - 512 * s)"
      using True by (simp add: write_each_other page_write_def)
    moreover have "k = (s, d)" using True 2(2-4) by (fastforce simp: apart_def)
    ultimately show ?thesis by simp
  next
    case False
    then have "k \<in> set ks" using 2(3,4) by auto
    then show ?thesis using 2(1) [of] 2(2,4) by simp
  qed
qed simp

definition ended :: "brd_writer \<Rightarrow> bool" where
  "ended w \<longleftrightarrow> stage_work (wr_stage w) = 0"

definition landed :: "brd_writer list \<Rightarrow> (nat \<times> byte list) list" where
  "landed ws = map (\<lambda>w. (wr_sector w, wr_data w)) (filter (\<lambda>w. wr_stage w = Written) ws)"

lemma ended_cases: "ended w \<longleftrightarrow> wr_stage w = Written \<or> wr_stage w = No_memory"
  by (cases "wr_stage w") (simp_all add: ended_def)

lemma wrote_ended: "ended w \<Longrightarrow> wrote w a \<longleftrightarrow> wr_stage w = Written \<and> covers (wr_sector w, wr_data w) a"
  by (auto simp: ended_cases wrote_def)

lemma race_start:
  assumes "\<And>s d. (s, d) \<in> set ks \<Longrightarrow> length d \<le> PAGE_SIZE \<and> no_parent_copy pp t0 s d"
  shows "race_inv pp t0 ks (map (\<lambda>(s, d). new_writer s d) ks) t0"
proof -
  have "map ((\<lambda>w. (wr_sector w, wr_data w)) \<circ> (\<lambda>(s, d). new_writer s d)) ks = ks"
    by (rule map_idI) (auto simp: new_writer_def)
  then show ?thesis
    using assms
    by (auto simp: race_inv_def wr_inv_def stage_inv_def bytes_ok_def new_writer_def wrote_def
        setup_sectors_def split: if_splits)
qed

lemma race_result:
  assumes inv: "race_inv pp t0 ks ws t" and apart: "sorted_wrt apart ks" and fin: "list_all ended ws"
  shows "disk_byte pp t = write_each (landed ws) (disk_byte pp t0)"
proof
  fix a
  have "sorted_wrt apart (map (\<lambda>w. (wr_sector w, wr_data w)) ws)" using inv apart by (simp add: race_inv_def)
  then have srt: "sorted_wrt apart (landed ws)"
    unfolding landed_def sorted_wrt_map by (rule sorted_wrt_filter)
  have ok: "bytes_ok pp t0 ws t" using inv by (simp add: race_inv_def)
  have wrote: "wrote w a \<longleftrightarrow> wr_stage w = Written \<and> covers (wr_sector w, wr_data w) a" if "w \<in> set ws" for w
    using fin that by (simp add: wrote_ended list_all_iff)
  show "disk_byte pp t a = write_each (landed ws) (disk_byte pp t0) a"
  proof (cases "\<exists>w\<in>set ws. wrote w a")
    case True
    then obtain w where w: "w \<in> set ws" "wrote w a" "disk_byte pp t a = byte_at w a"
      using ok by (auto simp: bytes_ok_def split: if_splits)
    then have "(wr_sector w, wr_data w) \<in> set (landed ws)" using wrote by (auto simp: landed_def)
    from write_each_at [OF srt this, of a] show ?thesis using w wrote by (simp add: byte_at_def)
  next
    case False
    then have "\<not> covers k a" if "k \<in> set (landed ws)" for k using that wrote by (auto simp: landed_def)
    then show ?thesis using False ok write_each_other [of "landed ws" a] by (simp add: bytes_ok_def)
  qed
qed

text \<open>
  C7: on a device whose parent has no page under the writes (the base disk, or a snapshot over
  sectors never written), and for writes into pages a snapshot has already, concurrent writes to
  places that do not overlap are safe: in every interleaving no \<open>BUG_ON\<close> fires and no copy leaves a page,
  the writers can be run to their end, and when they are there the disk is as if the writes that found
  memory had been made one after the other.
\<close>

theorem concurrent_writes_land:
  assumes "\<And>s d. (s, d) \<in> set ks \<Longrightarrow> length d \<le> PAGE_SIZE \<and> no_parent_copy pp t0 s d"
    and "sorted_wrt apart ks"
    and "interleaves (brd_step pp) brd_ok (map (\<lambda>(s, d). new_writer s d) ks, t0) (ws, t)"
  shows "(\<forall>i mem. i < length ws \<and> \<not> ended (ws ! i) \<longrightarrow> brd_step pp mem (ws ! i) t \<noteq> None) \<and>
    (\<exists>ws' t'. interleaves (brd_step pp) brd_ok (ws, t) (ws', t') \<and> list_all ended ws') \<and>
    (list_all ended ws \<longrightarrow> disk_byte pp t = write_each (landed ws) (disk_byte pp t0))"
proof -
  have start: "race_inv pp t0 ks (map (\<lambda>(s, d). new_writer s d) ks) t0" by (rule race_start [OF assms(1)])
  have inv: "race_inv pp t0 ks ws t" using brd_race.reachable_inv [OF assms(3)] start by simp
  have "brd_step pp mem (ws ! i) t \<noteq> None" if "i < length ws" "\<not> ended (ws ! i)" for i mem
    by (rule brd_race.never_faults [OF assms(3) start that(1)])
      (use that(2) in \<open>simp add: brd_ok_def ended_def\<close>)
  moreover have "\<exists>ws' t'. interleaves (brd_step pp) brd_ok (ws, t) (ws', t') \<and> list_all ended ws'"
    using brd_race.finishes [OF inv] by (simp add: list_all_iff ended_def)
  ultimately show ?thesis using race_result [OF inv assms(2)] by blast
qed

lemma move_first:
  "stage_step pp mem s d st t = Some (st', t') \<Longrightarrow> 0 < stage_work st \<Longrightarrow>
    interleaves (brd_step pp) brd_ok (\<lparr>wr_sector = s, wr_data = d, wr_stage = st'\<rparr> # ws, t') T \<Longrightarrow>
    interleaves (brd_step pp) brd_ok (\<lparr>wr_sector = s, wr_data = d, wr_stage = st\<rparr> # ws, t) T"
  by (rule stage_move [where i = 0]) simp_all

lemma move_second:
  "stage_step pp mem s d st t = Some (st', t') \<Longrightarrow> 0 < stage_work st \<Longrightarrow>
    interleaves (brd_step pp) brd_ok (w # \<lparr>wr_sector = s, wr_data = d, wr_stage = st'\<rparr> # ws, t') T \<Longrightarrow>
    interleaves (brd_step pp) brd_ok (w # \<lparr>wr_sector = s, wr_data = d, wr_stage = st\<rparr> # ws, t) T"
  by (rule stage_move [where i = 1]) simp_all

text \<open>Two writers to one page of a base disk; the second finds the page inserted when it holds the lock.\<close>

lemma race_on_base:
  "interleaves (brd_step None) brd_ok ([new_writer 0 [1], new_writer 1 [2]], fmempty)
    ([(new_writer 0 [1])\<lparr>wr_stage := Written\<rparr>, (new_writer 1 [2])\<lparr>wr_stage := Written\<rparr>],
     fmupd 0 (page_write (page_write zero_page 0 [1]) 512 [2]) fmempty)"
proof -
  let ?run = "interleaves (brd_step None) brd_ok"
  let ?w = "\<lambda>s d st. \<lparr>wr_sector = s, wr_data = d, wr_stage = st\<rparr>"
  note c = page_index_div page_offset_mod
  have n: "first_copy 0 [1] = Suc 0" "first_copy (Suc 0) [2] = Suc 0"
    "new_writer 0 [1] = ?w 0 [1] (Look_up [0])" "new_writer 1 [2] = ?w 1 [2] (Look_up [1])"
    by (simp_all add: first_copy_def c new_writer_def setup_sectors_def)
  let ?U = "fmupd 0 (page_write (page_write zero_page 0 [1]) 512 [2]) fmempty"
  let ?T = "([?w 0 [1] Written, ?w 1 [2] Written], ?U)"
  note run = move_first [where mem = True, rotated 2] move_second [where mem = True, rotated 2]
  have "?run ([?w 0 [1] Written, ?w 1 [2] Written], ?U) ?T" by (rule interleaves.idle)
  then have "?run ([?w 0 [1] Written, ?w 1 [2] Copy_first], fmupd 0 (page_write zero_page 0 [1]) fmempty) ?T"
    by (rule run(2)) (simp_all add: n c brd_lookup_page_def)
  then have "?run ([?w 0 [1] Written, ?w 1 [2] (Copy_parent 1 [])], fmupd 0 (page_write zero_page 0 [1]) fmempty) ?T"
    by (rule run(2)) (simp_all add: prepared_def)
  then have "?run ([?w 0 [1] Written, ?w 1 [2] (Insert_locked 1 [])], fmupd 0 (page_write zero_page 0 [1]) fmempty) ?T"
    by (rule run(2)) (simp_all add: c brd_lookup_page_def)
  then have "?run ([?w 0 [1] Copy_first, ?w 1 [2] (Insert_locked 1 [])], fmupd 0 zero_page fmempty) ?T"
    by (rule run(1)) (simp_all add: n c brd_lookup_page_def)
  then have "?run ([?w 0 [1] (Copy_parent 0 []), ?w 1 [2] (Insert_locked 1 [])], fmupd 0 zero_page fmempty) ?T"
    by (rule run(1)) (simp_all add: prepared_def)
  then have "?run ([?w 0 [1] (Insert_locked 0 []), ?w 1 [2] (Insert_locked 1 [])], fmempty) ?T"
    by (rule run(1)) (simp_all add: c brd_lookup_page_def)
  then have "?run ([?w 0 [1] (Insert_locked 0 []), ?w 1 [2] (Look_up [1])], fmempty) ?T"
    by (rule run(2)) (simp_all add: brd_lookup_page_def)
  then have "?run ([?w 0 [1] (Look_up [0]), ?w 1 [2] (Look_up [1])], fmempty) ?T"
    by (rule run(1)) (simp_all add: brd_lookup_page_def)
  then show ?thesis unfolding n by simp
qed

theorem concurrent_writes_land_witness:
  "disk_byte None (fmupd 0 (page_write (page_write zero_page 0 [1]) 512 [2]) fmempty) =
    page_write (page_write (disk_byte None fmempty) 0 [1]) 512 [2]"
proof -
  have "interleaves (brd_step None) brd_ok (map (\<lambda>(s, d). new_writer s d) [(0, [1]), (1, [2])], fmempty)
    ([(new_writer 0 [1])\<lparr>wr_stage := Written\<rparr>, (new_writer 1 [2])\<lparr>wr_stage := Written\<rparr>],
     fmupd 0 (page_write (page_write zero_page 0 [1]) 512 [2]) fmempty)"
    using race_on_base by simp
  note run = this
  have small: "length d \<le> PAGE_SIZE \<and> no_parent_copy None fmempty s d"
    if "(s, d) \<in> set [(0, [1]), (1, [2])]" for s and d :: "byte list"
    using that by (auto simp: no_parent_copy_def list_all_iff)
  from concurrent_writes_land [OF small _ run, THEN conjunct2, THEN conjunct2] show ?thesis
    by (simp add: apart_def ended_cases landed_def new_writer_def)
qed

lemma wrote_covers:
  assumes "race_inv pp t0 ks ws t" "w \<in> set ws" "wrote w a"
  shows "(wr_sector w, wr_data w) \<in> set ks \<and> covers (wr_sector w, wr_data w) a"
  using assms by (force simp: race_inv_def wr_inv_def wrote_def)

text \<open>
  C8: a reader among such writers.  At every moment of every interleaving a read inside a page succeeds,
  and each byte it returns is the byte from before or the byte of one of the writes that cover it, and
  never anything else, such as the zeros of a page just inserted over data.
\<close>

theorem concurrent_read_old_or_new:
  assumes "\<And>s d. (s, d) \<in> set ks \<Longrightarrow> length d \<le> PAGE_SIZE \<and> no_parent_copy pp t0 s d"
    and "interleaves (brd_step pp) brd_ok (map (\<lambda>(s, d). new_writer s d) ks, t0) (ws, t)"
    and "page_offset x + n \<le> PAGE_SIZE"
  shows "\<exists>bs. copy_from_brd pp t x n = Some bs \<and> length bs = n \<and>
    (\<forall>i < n. bs ! i = disk_byte pp t0 (512 * x + i) \<or>
      (\<exists>(s, d) \<in> set ks. covers (s, d) (512 * x + i) \<and> bs ! i = d ! (512 * x + i - 512 * s)))"
proof -
  have inv: "race_inv pp t0 ks ws t"
    using brd_race.reachable_inv [OF assms(2)] race_start [OF assms(1)] by simp
  have byte: "disk_byte pp t a = disk_byte pp t0 a \<or>
      (\<exists>(s, d) \<in> set ks. covers (s, d) a \<and> disk_byte pp t a = d ! (a - 512 * s))" for a
  proof (cases "\<exists>w\<in>set ws. wrote w a")
    case True
    then obtain w where "w \<in> set ws" "wrote w a" "disk_byte pp t a = byte_at w a"
      using inv by (auto simp: race_inv_def bytes_ok_def split: if_splits)
    then show ?thesis using wrote_covers [OF inv] by (force simp: byte_at_def)
  next
    case False
    then show ?thesis using inv by (auto simp: race_inv_def bytes_ok_def split: if_splits)
  qed
  have "copy_from_brd pp t x n = Some (page_read (disk_byte pp t) (512 * x) n)"
    using assms(3) copy_from_brd_exact [of n pp t x] by (simp add: read_fits_def)
  then show ?thesis using byte by (auto simp: page_read_def)
qed

theorem concurrent_read_old_or_new_witness:
  "\<exists>bs. copy_from_brd None (fmupd 0 (page_write (page_write zero_page 0 [1]) 512 [2]) fmempty) 0 1024 = Some bs \<and>
    length bs = 1024 \<and> (bs ! 1 = 0) \<and> (bs ! 512 = 0 \<or> bs ! 512 = 2)"
proof -
  have run: "interleaves (brd_step None) brd_ok (map (\<lambda>(s, d). new_writer s d) [(0, [1]), (1, [2])], fmempty)
    ([(new_writer 0 [1])\<lparr>wr_stage := Written\<rparr>, (new_writer 1 [2])\<lparr>wr_stage := Written\<rparr>],
     fmupd 0 (page_write (page_write zero_page 0 [1]) 512 [2]) fmempty)"
    using race_on_base by simp
  have small: "length d \<le> PAGE_SIZE \<and> no_parent_copy None fmempty s d"
    if "(s, d) \<in> set [(0, [1]), (1, [2])]" for s and d :: "byte list"
    using that by (auto simp: no_parent_copy_def list_all_iff)
  have fits: "page_offset 0 + 1024 \<le> PAGE_SIZE" by (simp add: page_offset_mod)
  have zero: "disk_byte None fmempty a = 0" for a by (simp add: disk_byte_def page_of_def zero_page_def)
  obtain bs where bs: "copy_from_brd None (fmupd 0 (page_write (page_write zero_page 0 [1]) 512 [2]) fmempty) 0 1024 =
      Some bs" "length bs = 1024"
    "\<forall>i < 1024. bs ! i = disk_byte None fmempty (512 * 0 + i) \<or>
      (\<exists>(s, d) \<in> set [(0, [1]), (1, [2])]. covers (s, d) (512 * 0 + i) \<and> bs ! i = d ! (512 * 0 + i - 512 * s))"
    using concurrent_read_old_or_new [OF small run fits] by blast
  have "bs ! 1 = 0" "bs ! 512 = 0 \<or> bs ! 512 = 2"
    using bs(3) [THEN spec, of 1] bs(3) [THEN spec, of 512] by (simp_all add: zero)
  then show ?thesis using bs(1,2) by blast
qed

section \<open>A snapshot\<close>

text \<open>
  C34: on a snapshot the lock does not suffice.  Two writers find the same page missing; the second
  copies the parent's page after the first has finished its write.  Both writes end as if they had
  succeeded, and the disk has only the second.
\<close>

theorem late_parent_copy_undoes_write:
  assumes parent: "brd_lookup_page q s1 = Some p" and missing: "brd_lookup_page t s1 = None"
    and page: "page_index s2 = page_index s1"
    and fit: "page_offset s1 + length d1 \<le> PAGE_SIZE" "page_offset s2 + length d2 \<le> PAGE_SIZE"
  shows "\<exists>t'. interleaves (brd_step (Some q)) brd_ok ([new_writer s1 d1, new_writer s2 d2], t)
      ([(new_writer s1 d1)\<lparr>wr_stage := Written\<rparr>, (new_writer s2 d2)\<lparr>wr_stage := Written\<rparr>], t') \<and>
    disk_byte (Some q) t' = page_write (disk_byte (Some q) t) (512 * s2) d2"
proof -
  let ?i = "page_index s1"
  let ?z = "fmupd ?i zero_page t" and ?p = "fmupd ?i p t"
  let ?a = "fmupd ?i (page_write p (page_offset s1) d1) t" and ?b = "fmupd ?i (page_write p (page_offset s2) d2) t"
  have n: "first_copy s1 d1 = length d1" "first_copy s2 d2 = length d2"
    using fit by (auto simp: first_copy_def intro!: min_absorb1)
  have look: "brd_lookup_page q s2 = Some p" "brd_lookup_page t s2 = None"
    using parent missing page by (simp_all add: brd_lookup_page_def)
  have upd: "brd_lookup_page (fmupd ?i u t) s2 = Some u" for u
    using page by (simp add: brd_lookup_page_def)
  let ?w = "\<lambda>s d st. \<lparr>wr_sector = s, wr_data = d, wr_stage = st\<rparr>"
  let ?run = "interleaves (brd_step (Some q)) brd_ok"
  let ?T = "([?w s1 d1 Written, ?w s2 d2 Written], ?b)"
  have "?run ([?w s1 d1 Written, ?w s2 d2 Written], ?b) ?T" by (rule interleaves.idle)
  then have "?run ([?w s1 d1 Written, ?w s2 d2 Copy_first], ?p) ?T"
    by (rule move_second [where mem = True, rotated 2]) (simp_all add: n upd page)
  then have "?run ([?w s1 d1 Written, ?w s2 d2 (Copy_parent s2 [])], ?a) ?T"
    by (rule move_second [where mem = True, rotated 2]) (simp_all add: look page prepared_def)
  then have "?run ([?w s1 d1 Written, ?w s2 d2 (Insert_locked s2 [])], ?a) ?T"
    by (rule move_second [where mem = True, rotated 2]) (simp_all add: upd)
  then have "?run ([?w s1 d1 Copy_first, ?w s2 d2 (Insert_locked s2 [])], ?p) ?T"
    by (rule move_first [where mem = True, rotated 2]) (simp_all add: n)
  then have "?run ([?w s1 d1 (Copy_parent s1 []), ?w s2 d2 (Insert_locked s2 [])], ?z) ?T"
    by (rule move_first [where mem = True, rotated 2]) (simp_all add: parent prepared_def)
  then have "?run ([?w s1 d1 (Insert_locked s1 []), ?w s2 d2 (Insert_locked s2 [])], t) ?T"
    by (rule move_first [where mem = True, rotated 2]) (simp_all add: missing)
  then have "?run ([?w s1 d1 (Insert_locked s1 []), ?w s2 d2 (Look_up [s2])], t) ?T"
    by (rule move_second [where mem = True, rotated 2]) (simp_all add: look)
  then have "?run ([?w s1 d1 (Look_up [s1]), ?w s2 d2 (Look_up [s2])], t) ?T"
    by (rule move_first [where mem = True, rotated 2]) (simp_all add: missing)
  moreover have "page_of (Some q) t ?i = p"
    using parent missing by (simp add: page_of_def brd_lookup_page_def)
  then have "disk_byte (Some q) ?b = page_write (disk_byte (Some q) t) (512 * s2) d2"
    using page_write_at [of "page_offset s2" d2 "Some q" ?i t] fit(2) sector_addr [of s2] page by simp
  ultimately show ?thesis
    using setup_sectors_simps(2) [OF fit(1)] setup_sectors_simps(2) [OF fit(2)] by (auto simp: new_writer_def)
qed

theorem late_parent_copy_undoes_write_witness:
  "\<exists>t'. interleaves (brd_step (Some (fmupd 0 zero_page fmempty))) brd_ok
      ([new_writer 0 [1], new_writer 1 [2]], fmempty)
      ([(new_writer 0 [1])\<lparr>wr_stage := Written\<rparr>, (new_writer 1 [2])\<lparr>wr_stage := Written\<rparr>], t') \<and>
    disk_byte (Some (fmupd 0 zero_page fmempty)) t' =
      page_write (disk_byte (Some (fmupd 0 zero_page fmempty)) fmempty) 512 [2]"
  using late_parent_copy_undoes_write [of "fmupd 0 zero_page fmempty" 0 zero_page fmempty 1 "[1]" "[2]"]
  by (simp add: brd_lookup_page_def page_index_div page_offset_mod)

text \<open>
  Between the insertion and the copy of the parent's page a reader of any sector of the page gets
  zeros, though nobody has written there.
\<close>

theorem inserted_page_reads_zero:
  assumes "brd_lookup_page t s = None" "page_index x = page_index s" "page_offset x + n \<le> PAGE_SIZE"
  shows "\<exists>w t'. interleaves (brd_step pp) brd_ok ([new_writer s d], t) ([w], t') \<and> \<not> ended w \<and>
    copy_from_brd pp t' x n = Some (replicate n 0)"
proof -
  let ?w = "\<lambda>st. \<lparr>wr_sector = s, wr_data = d, wr_stage = st\<rparr>" and ?t = "fmupd (page_index s) zero_page t"
  obtain xs where xs: "new_writer s d = ?w (Look_up (s # xs))" by (simp add: new_writer_def setup_sectors_def)
  have "interleaves (brd_step pp) brd_ok ([?w (Copy_parent s xs)], ?t) ([?w (Copy_parent s xs)], ?t)"
    by (rule interleaves.idle)
  then have "interleaves (brd_step pp) brd_ok ([?w (Insert_locked s xs)], t) ([?w (Copy_parent s xs)], ?t)"
    by (rule move_first [where mem = True, rotated 2]) (simp_all add: assms(1))
  then have "interleaves (brd_step pp) brd_ok ([new_writer s d], t) ([?w (Copy_parent s xs)], ?t)"
    unfolding xs by (rule move_first [where mem = True, rotated 2]) (simp_all add: assms(1))
  moreover have "copy_from_brd pp ?t x n = Some (replicate n 0)"
    using assms(2,3) by (simp add: copy_from_brd_def brd_lookup_page_def page_read_def zero_page_def
        min_absorb1 map_replicate_const Let_def)
  ultimately show ?thesis by (fastforce simp: ended_cases)
qed

end
