(* ===== verification/Disk_Wrapper_Race.thy ===== *)
theory Disk_Wrapper_Race
  imports Disk_Wrapper_Log Interleaving "HOL-Library.Sublist"
begin

text \<open>
  Several requests in \<open>disk_wrapper.c\<close> at once.  The driver declares a lock and never takes it; a
  comment at \<open>disk_wrapper_bio\<close> says that it is not thread safe.  Here the function is cut into its
  accesses to the shared device: each read and each write of \<open>current_write\<close>, \<open>writes\<close>,
  \<open>current_log_write\<close> and of the successor of a node is a step.

  Whatever the interleaving, the list in memory stays a list: no dangling pointer, no cycle, and
  the entries logged before the race stay at its start.  Entries of the race may be lost.
\<close>

section \<open>One request\<close>

datatype bio_stage =
  Begin | Test_tail nat | Set_writes nat | Set_cursor nat | Load_tail nat | Store_next nat nat |
  Publish nat | Fill nat | Passed_on

record bio_thread =
  bt_bio :: wrapped_bio
  bt_stage :: bio_stage

text \<open>
  \<open>node\<close> and \<open>junk\<close> are what \<open>kzalloc\<close> and \<open>kmalloc\<close> return.  The successor of the tail is set in two
  steps, the load of \<open>Device.current_write\<close> (again, after the test) and the store.
\<close>

fun bio_stage_step :: "req_flags \<Rightarrow> nat option \<Rightarrow> (nat \<Rightarrow> byte) option \<Rightarrow> wrapped_bio \<Rightarrow> bio_stage
    \<Rightarrow> hwm_device \<Rightarrow> (bio_stage \<times> hwm_device) option" where
  "bio_stage_step R node junk b Begin D =
     (if log_on D \<and> is_logged R b then
        (case node of
           None \<Rightarrow> Some (Passed_on, D)
         | Some w \<Rightarrow>
             Some (Test_tail w, D\<lparr>heap :=
               fmupd w \<lparr>node_meta = bio_meta b, node_data = None, node_next = None\<rparr> (heap D)\<rparr>))
      else Some (Passed_on, D))"
| "bio_stage_step R node junk b (Test_tail w) D =
     Some (if current_write D = None then Set_writes w else Load_tail w, D)"
| "bio_stage_step R node junk b (Set_writes w) D = Some (Set_cursor w, D\<lparr>writes := Some w\<rparr>)"
| "bio_stage_step R node junk b (Set_cursor w) D = Some (Publish w, D\<lparr>current_log_write := Some w\<rparr>)"
| "bio_stage_step R node junk b (Load_tail w) D =
     (case current_write D of
        None \<Rightarrow> None
      | Some c \<Rightarrow> Some (Store_next w c, D))"
| "bio_stage_step R node junk b (Store_next w c) D =
     (case fmlookup (heap D) c of
        None \<Rightarrow> None
      | Some n \<Rightarrow> Some (Publish w, D\<lparr>heap := fmupd c (n\<lparr>node_next := Some w\<rparr>) (heap D)\<rparr>))"
| "bio_stage_step R node junk b (Publish w) D = Some (Fill w, D\<lparr>current_write := Some w\<rparr>)"
| "bio_stage_step R node junk b (Fill w) D =
     (case junk of
        None \<Rightarrow> Some (Passed_on, D\<lparr>heap := fmdrop w (heap D)\<rparr>)
      | Some j \<Rightarrow>
          Option.bind (copy_segments (map j [0..<unat (wb_size b)]) 0 (wb_segs b))
            (\<lambda>d. map_option (\<lambda>n. (Passed_on, D\<lparr>heap := fmupd w (n\<lparr>node_data := Some d\<rparr>) (heap D)\<rparr>))
                   (fmlookup (heap D) w)))"
| "bio_stage_step R node junk b Passed_on D = None"

definition bio_step :: "req_flags \<Rightarrow> nat option \<times> (nat \<Rightarrow> byte) option \<Rightarrow> bio_thread \<Rightarrow> hwm_device
    \<Rightarrow> (bio_thread \<times> hwm_device) option" where
  "bio_step R c th D =
     map_option (\<lambda>(st, D'). (th\<lparr>bt_stage := st\<rparr>, D'))
       (bio_stage_step R (fst c) (snd c) (bt_bio th) (bt_stage th) D)"

fun bio_work :: "bio_stage \<Rightarrow> nat" where
  "bio_work Begin = 7"
| "bio_work (Test_tail w) = 6"
| "bio_work (Set_writes w) = 5"
| "bio_work (Set_cursor w) = 4"
| "bio_work (Load_tail w) = 5"
| "bio_work (Store_next w c) = 4"
| "bio_work (Publish w) = 3"
| "bio_work (Fill w) = 2"
| "bio_work Passed_on = 0"

text \<open>
  The allocator returns memory that is not in use, if any; and there is memory for the data of every
  request there is a node for.
\<close>

definition bio_ok :: "nat option \<times> (nat \<Rightarrow> byte) option \<Rightarrow> bio_thread \<Rightarrow> hwm_device \<Rightarrow> bool" where
  "bio_ok c th D \<longleftrightarrow> bt_stage th \<noteq> Passed_on \<and> snd c \<noteq> None \<and>
     (case fst c of None \<Rightarrow> True | Some w \<Rightarrow> bt_stage th = Begin \<longrightarrow> fmlookup (heap D) w = None)"

definition new_request :: "wrapped_bio \<Rightarrow> bio_thread" where
  "new_request b = \<lparr>bt_bio = b, bt_stage = Begin\<rparr>"

definition fits :: "wrapped_bio \<Rightarrow> bool" where
  "fits b \<longleftrightarrow> length (concat (wb_segs b)) \<le> unat (wb_size b)"

section \<open>The graph of the nodes\<close>

text \<open>
  \<open>pub\<close> are the nodes that have been the tail of the list, \<open>new\<close> those still to become it.  Links go
  from published nodes, and among these upwards in the rank \<open>r\<close>, the order of publication.
\<close>

definition links_ok :: "nat set \<Rightarrow> nat set \<Rightarrow> (nat \<Rightarrow> nat) \<Rightarrow> nat \<Rightarrow> heap \<Rightarrow> bool" where
  "links_ok pub new r k h \<longleftrightarrow>
     fmdom' h = pub \<union> new \<and> pub \<inter> new = {} \<and> (\<forall>a\<in>pub. r a < k) \<and>
     (\<forall>a n c. fmlookup h a = Some n \<and> node_next n = Some c \<longrightarrow>
        a \<in> pub \<and> c \<in> pub \<union> new \<and> (c \<in> pub \<longrightarrow> r a < r c))"

lemma links_alloc:
  "links_ok pub new r k h \<Longrightarrow> fmlookup h w = None \<Longrightarrow> node_next n = None \<Longrightarrow>
    links_ok pub (insert w new) r k (fmupd w n h)"
  using fmdom'_notI [of h w] unfolding links_ok_def by (auto split: if_splits)

lemma links_store:
  "links_ok pub new r k h \<Longrightarrow> fmlookup h c = Some n \<Longrightarrow> c \<in> pub \<Longrightarrow> w \<in> new \<Longrightarrow>
    links_ok pub new r k (fmupd c (n\<lparr>node_next := Some w\<rparr>) h)"
  unfolding links_ok_def by (auto dest: fmdom'I split: if_splits)

lemma links_publish:
  assumes "links_ok pub new r k h" "w \<in> new"
  shows "links_ok (insert w pub) (new - {w}) (r(w := k)) (Suc k) h"
proof -
  have "w \<notin> pub" using assms by (auto simp: links_ok_def)
  moreover have "node_next n = None" if "fmlookup h w = Some n" for n
    using assms \<open>w \<notin> pub\<close> that by (cases "node_next n") (auto simp: links_ok_def)
  ultimately show ?thesis using assms by (auto simp: links_ok_def less_Suc_eq)
qed

lemma links_fill:
  "links_ok pub new r k h \<Longrightarrow> fmlookup h w = Some n \<Longrightarrow> node_next n' = node_next n \<Longrightarrow>
    links_ok pub new r k (fmupd w n' h)"
  unfolding links_ok_def by (auto dest: fmdom'I split: if_splits)

text \<open>Following links from any node ends.\<close>

lemma links_chain:
  assumes "links_ok pub {} r k h" "a \<in> pub"
  shows "\<exists>cs. chain h (Some a) cs \<and> sorted_wrt (\<lambda>x y. r x < r y) cs \<and> set cs \<subseteq> pub \<and> cs \<noteq> [] \<and> hd cs = a"
  using assms(2)
proof (induction "k - r a" arbitrary: a rule: less_induct)
  case less
  obtain n where n: "fmlookup h a = Some n" using assms(1) less.prems by (auto simp: links_ok_def fmlookup_dom'_iff)
  show ?case
  proof (cases "node_next n")
    case None
    then show ?thesis using n less.prems by (intro exI [of _ "[a]"]) simp
  next
    case (Some c)
    have c: "c \<in> pub" "r a < r c" "r c < k" using assms(1) n Some by (auto simp: links_ok_def)
    then obtain cs where cs: "chain h (Some c) cs" "sorted_wrt (\<lambda>x y. r x < r y) cs" "set cs \<subseteq> pub"
      "cs \<noteq> []" "hd cs = c"
      using less.hyps [of c] diff_less_mono2 [OF c(2)] by (metis diff_less_mono2 less_trans)
    have "r a < r x" if "x \<in> set cs" for x
      using cs(2,4,5) c(2) that by (cases cs) (auto dest: less_trans)
    then show ?thesis using n Some cs less.prems by (intro exI [of _ "a # cs"]) auto
  qed
qed

lemma rank_distinct: "sorted_wrt (\<lambda>x y. r x < (r y :: nat)) cs \<Longrightarrow> distinct cs"
  by (induction cs) auto

section \<open>The invariant of a race\<close>

text \<open>The node a request has allocated and not yet filled, and the one it has not yet published.\<close>

fun node_of :: "bio_stage \<Rightarrow> nat option" where
  "node_of (Test_tail w) = Some w"
| "node_of (Set_writes w) = Some w"
| "node_of (Set_cursor w) = Some w"
| "node_of (Load_tail w) = Some w"
| "node_of (Store_next w c) = Some w"
| "node_of (Publish w) = Some w"
| "node_of (Fill w) = Some w"
| "node_of _ = None"

fun unpublished :: "bio_stage \<Rightarrow> nat option" where
  "unpublished (Fill w) = None"
| "unpublished st = node_of st"

lemma unpublished_node: "unpublished st = Some w \<Longrightarrow> node_of st = Some w"
  by (cases st) auto

definition new_nodes :: "bio_thread list \<Rightarrow> nat set" where
  "new_nodes ths = {w. \<exists>i < length ths. unpublished (bt_stage (ths ! i)) = Some w}"

definition own_nodes :: "bio_thread list \<Rightarrow> bool" where
  "own_nodes ths \<longleftrightarrow> (\<forall>i < length ths. \<forall>j < length ths. \<forall>w.
     node_of (bt_stage (ths ! i)) = Some w \<and> node_of (bt_stage (ths ! j)) = Some w \<longrightarrow> i = j)"

text \<open>What holds of one request: \<open>old\<close> is the list before the race.\<close>

definition thread_ok :: "nat list \<Rightarrow> nat set \<Rightarrow> heap \<Rightarrow> bio_thread \<Rightarrow> bool" where
  "thread_ok old pub h th \<longleftrightarrow> fits (bt_bio th) \<and>
     (\<forall>w. node_of (bt_stage th) = Some w \<longrightarrow>
        w \<notin> set old \<and> (\<exists>n. fmlookup h w = Some n \<and> node_meta n = bio_meta (bt_bio th))) \<and>
     (case bt_stage th of
        Set_writes w \<Rightarrow> old = []
      | Load_tail w \<Rightarrow> pub \<noteq> {}
      | Store_next w c \<Rightarrow> c \<in> pub \<and> c \<notin> set (butlast old)
      | Fill w \<Rightarrow> w \<in> pub
      | _ \<Rightarrow> True)"

definition pointers_ok :: "nat list \<Rightarrow> nat set \<Rightarrow> hwm_device \<Rightarrow> hwm_device \<Rightarrow> bool" where
  "pointers_ok old pub D0 D \<longleftrightarrow>
     (current_write D = None \<longleftrightarrow> pub = {}) \<and>
     (\<forall>c. current_write D = Some c \<longrightarrow> c \<in> pub \<and> c \<notin> set (butlast old)) \<and>
     (\<forall>a. writes D = Some a \<or> current_log_write D = Some a \<longrightarrow> a \<in> fmdom' (heap D)) \<and>
     (old \<noteq> [] \<longrightarrow> writes D = writes D0)"

text \<open>The nodes: those of the old list are as they were but for the end of the list, the others hold requests.\<close>

definition node_good :: "nat list \<Rightarrow> wrapped_bio set \<Rightarrow> hwm_device \<Rightarrow> nat \<Rightarrow> write_node \<Rightarrow> bool" where
  "node_good old bs D0 a n \<longleftrightarrow>
     (if a \<in> set old then entry n = entry (the (fmlookup (heap D0) a)) \<and> node_data n \<noteq> None
      else (\<exists>b\<in>bs. node_meta n = bio_meta b \<and> (node_data n \<noteq> None \<longrightarrow> (\<exists>j. entry n = logged_op j b))))"

definition nodes_ok :: "nat list \<Rightarrow> wrapped_bio set \<Rightarrow> hwm_device \<Rightarrow> bio_thread list \<Rightarrow> heap \<Rightarrow> bool" where
  "nodes_ok old bs D0 ths h \<longleftrightarrow>
     (\<forall>a\<in>set (butlast old). map_option node_next (fmlookup h a) = map_option node_next (fmlookup (heap D0) a)) \<and>
     (\<forall>a n. fmlookup h a = Some n \<longrightarrow> node_good old bs D0 a n \<and>
        (node_data n = None \<longrightarrow> (\<exists>i < length ths. node_of (bt_stage (ths ! i)) = Some a)))"

definition race_ok :: "nat list \<Rightarrow> wrapped_bio list \<Rightarrow> hwm_device \<Rightarrow> bio_thread list \<Rightarrow> hwm_device \<Rightarrow> bool" where
  "race_ok old bs D0 ths D \<longleftrightarrow>
     map bt_bio ths = bs \<and> own_nodes ths \<and> nodes_ok old (set bs) D0 ths (heap D) \<and>
     (\<exists>pub r k. links_ok pub (new_nodes ths) r k (heap D) \<and> set old \<subseteq> pub \<and> pointers_ok old pub D0 D \<and>
        (\<forall>th\<in>set ths. thread_ok old pub (heap D) th))"

text \<open>How the sets of nodes change when one request goes on.\<close>

lemma new_nodes_update:
  assumes "own_nodes ths" "i < length ths"
  shows "new_nodes (ths[i := th]) =
    (new_nodes ths - set_option (unpublished (bt_stage (ths ! i)))) \<union> set_option (unpublished (bt_stage th))"
proof -
  have other: "unpublished (bt_stage (ths ! j)) \<noteq> Some w"
    if "j < length ths" "j \<noteq> i" "unpublished (bt_stage (ths ! i)) = Some w" for j w
    using assms that unpublished_node unfolding own_nodes_def by metis
  show ?thesis
    using assms(2) other by (fastforce simp: new_nodes_def nth_list_update split: if_splits)
qed

lemma own_nodes_update:
  assumes "own_nodes ths" "i < length ths"
    and "\<And>w j. node_of (bt_stage th) = Some w \<Longrightarrow> j < length ths \<Longrightarrow> j \<noteq> i \<Longrightarrow>
      node_of (bt_stage (ths ! j)) \<noteq> Some w"
  shows "own_nodes (ths[i := th])"
  using assms unfolding own_nodes_def by (auto simp: nth_list_update split: if_splits)

lemma thread_ok_mono:
  assumes "thread_ok old pub h th" "pub \<subseteq> pub'"
    and "\<And>w n. fmlookup h w = Some n \<Longrightarrow> \<exists>n'. fmlookup h' w = Some n' \<and> node_meta n' = node_meta n"
  shows "thread_ok old pub' h' th"
  using assms unfolding thread_ok_def by (fastforce split: bio_stage.splits)

lemma set_updateE:
  assumes "v \<in> set (xs[i := x])"
  obtains "v = x" | "v \<in> set xs"
  using assms set_update_subset_insert [of xs i x] by blast

text \<open>
  A step keeps the invariant if it keeps the links, the pointers and the nodes; the other requests
  only ask that published nodes stay published, and allocated nodes allocated.
\<close>

lemma race_move:
  assumes race: "race_ok old bs D0 ths D" and i: "i < length ths"
    and th: "bt_bio th = bt_bio (ths ! i)"
    and own: "\<And>w. node_of (bt_stage th) = Some w \<Longrightarrow>
      node_of (bt_stage (ths ! i)) = Some w \<or> fmlookup (heap D) w = None"
    and keep: "\<And>w n. fmlookup (heap D) w = Some n \<Longrightarrow>
      \<exists>n'. fmlookup (heap D') w = Some n' \<and> node_meta n' = node_meta n"
    and nodes: "nodes_ok old (set bs) D0 ths (heap D) \<Longrightarrow> nodes_ok old (set bs) D0 (ths[i := th]) (heap D')"
    and rest: "\<And>pub r k. links_ok pub (new_nodes ths) r k (heap D) \<Longrightarrow> set old \<subseteq> pub \<Longrightarrow>
      pointers_ok old pub D0 D \<Longrightarrow> thread_ok old pub (heap D) (ths ! i) \<Longrightarrow>
      \<exists>pub' r k. pub \<subseteq> pub' \<and> links_ok pub' (new_nodes (ths[i := th])) r k (heap D') \<and>
        pointers_ok old pub' D0 D' \<and> thread_ok old pub' (heap D') th"
  shows "race_ok old bs D0 (ths[i := th]) D'"
proof -
  from race obtain pub r k where l: "links_ok pub (new_nodes ths) r k (heap D)" "set old \<subseteq> pub"
    "pointers_ok old pub D0 D" and ok: "\<forall>th\<in>set ths. thread_ok old pub (heap D) th"
    and bs: "map bt_bio ths = bs" and on: "own_nodes ths" and no: "nodes_ok old (set bs) D0 ths (heap D)"
    by (auto simp: race_ok_def)
  obtain pub' r' k' where l': "pub \<subseteq> pub'" "links_ok pub' (new_nodes (ths[i := th])) r' k' (heap D')"
    "pointers_ok old pub' D0 D'" "thread_ok old pub' (heap D') th"
    using rest [OF l] ok i by auto
  have "thread_ok old pub' (heap D') v" if "v \<in> set (ths[i := th])" for v
    using that by (rule set_updateE) (use l' ok thread_ok_mono [OF _ l'(1) keep] in auto)
  moreover have "own_nodes (ths[i := th])"
  proof (rule own_nodes_update [OF on i])
    fix w j assume w: "node_of (bt_stage th) = Some w" and j: "j < length ths" "j \<noteq> i"
    have "fmlookup (heap D) w \<noteq> None" if "node_of (bt_stage (ths ! j)) = Some w"
      using ok j(1) that unfolding thread_ok_def by (metis nth_mem option.distinct(1))
    then show "node_of (bt_stage (ths ! j)) \<noteq> Some w"
      using own [OF w] on i j unfolding own_nodes_def by metis
  qed
  moreover have "map bt_bio (ths[i := th]) = bs"
    using bs th i by (auto simp: map_update intro!: list_update_same_conv [THEN iffD2])
  moreover have "set old \<subseteq> pub'" using l(2) l'(1) by blast
  ultimately show ?thesis using l' nodes [OF no] unfolding race_ok_def by blast
qed

lemma nodes_ok_threads:
  assumes "nodes_ok old bs D0 ths h"
    and "\<And>w. node_of (bt_stage (ths ! i)) = Some w \<Longrightarrow> i < length ths \<Longrightarrow> node_of (bt_stage th) = Some w"
  shows "nodes_ok old bs D0 (ths[i := th]) h"
proof -
  have "\<exists>j < length (ths[i := th]). node_of (bt_stage (ths[i := th] ! j)) = Some a"
    if "\<exists>j < length ths. node_of (bt_stage (ths ! j)) = Some a" for a
  proof -
    from that obtain j where "j < length ths" "node_of (bt_stage (ths ! j)) = Some a" by blast
    then show ?thesis using assms(2) by (intro exI [of _ j]) (cases "j = i"; simp)
  qed
  then show ?thesis using assms(1) unfolding nodes_ok_def by blast
qed

lemma nodes_ok_upd:
  assumes "nodes_ok old bs D0 ths h" "node_good old bs D0 a n"
    and "a \<in> set (butlast old) \<Longrightarrow> map_option node_next (fmlookup h a) = Some (node_next n)"
    and "node_data n = None \<Longrightarrow> \<exists>i < length ths. node_of (bt_stage (ths ! i)) = Some a"
  shows "nodes_ok old bs D0 ths (fmupd a n h)"
  using assms unfolding nodes_ok_def by auto

lemma node_good_next [simp]: "node_good old bs D0 a (n\<lparr>node_next := x\<rparr>) = node_good old bs D0 a n"
  by (simp add: node_good_def entry_def)

text \<open>Steps that leave the heap alone and go on with the same node.\<close>

lemma race_same:
  assumes race: "race_ok old bs D0 ths D" and i: "i < length ths"
    and th: "bt_bio th = bt_bio (ths ! i)" "node_of (bt_stage th) = node_of (bt_stage (ths ! i))"
      "unpublished (bt_stage th) = unpublished (bt_stage (ths ! i))"
    and heap: "heap D' = heap D"
    and rest: "\<And>pub. fmdom' (heap D) = pub \<union> new_nodes ths \<Longrightarrow> set old \<subseteq> pub \<Longrightarrow> pointers_ok old pub D0 D \<Longrightarrow>
      thread_ok old pub (heap D) (ths ! i) \<Longrightarrow> pointers_ok old pub D0 D' \<and> thread_ok old pub (heap D) th"
  shows "race_ok old bs D0 (ths[i := th]) D'"
proof (rule race_move [OF race i th(1)])
  have new: "new_nodes (ths[i := th]) = new_nodes ths"
    using race i th(3) by (auto simp: new_nodes_update race_ok_def) (auto simp: new_nodes_def)
  show "nodes_ok old (set bs) D0 (ths[i := th]) (heap D')" if "nodes_ok old (set bs) D0 ths (heap D)"
    using nodes_ok_threads [OF that, of i th] th(2) heap by simp
  show "\<exists>pub' r k. pub \<subseteq> pub' \<and> links_ok pub' (new_nodes (ths[i := th])) r k (heap D') \<and>
      pointers_ok old pub' D0 D' \<and> thread_ok old pub' (heap D') th"
    if "links_ok pub (new_nodes ths) r k (heap D)" "set old \<subseteq> pub" "pointers_ok old pub D0 D"
      "thread_ok old pub (heap D) (ths ! i)" for pub r k
    using rest [OF _ that(2-4)] that(1) unfolding new heap links_ok_def by blast
qed (use th heap in auto)

section \<open>The steps keep it\<close>

text \<open>What a step gives: the code goes on, and the invariant holds after it.\<close>

definition goes_on :: "nat list \<Rightarrow> wrapped_bio list \<Rightarrow> hwm_device \<Rightarrow> bio_thread list \<Rightarrow> nat
    \<Rightarrow> (bio_stage \<times> hwm_device) option \<Rightarrow> bool" where
  "goes_on old bs D0 ths i r \<longleftrightarrow>
     (case r of
        None \<Rightarrow> False
      | Some (st, D') \<Rightarrow> race_ok old bs D0 (ths[i := (ths ! i)\<lparr>bt_stage := st\<rparr>]) D' \<and>
          bio_work st < bio_work (bt_stage (ths ! i)))"

lemma race_thread:
  assumes "race_ok old bs D0 ths D" "i < length ths"
  obtains pub r k where "links_ok pub (new_nodes ths) r k (heap D)" "set old \<subseteq> pub"
    "pointers_ok old pub D0 D" "thread_ok old pub (heap D) (ths ! i)"
  using assms by (auto simp: race_ok_def)

lemma test_goes_on:
  assumes race: "race_ok old bs D0 ths D" and i: "i < length ths" and st: "bt_stage (ths ! i) = Test_tail w"
  shows "goes_on old bs D0 ths i (bio_stage_step R node junk b (Test_tail w) D)"
proof -
  have "race_ok old bs D0 (ths[i := (ths ! i)\<lparr>bt_stage := if current_write D = None then Set_writes w else Load_tail w\<rparr>]) D"
    by (rule race_same [OF race i]) (auto simp: st thread_ok_def pointers_ok_def)
  then show ?thesis by (simp add: goes_on_def st)
qed

lemma set_writes_goes_on:
  assumes race: "race_ok old bs D0 ths D" and i: "i < length ths" and st: "bt_stage (ths ! i) = Set_writes w"
  shows "goes_on old bs D0 ths i (bio_stage_step R node junk b (Set_writes w) D)"
proof -
  have "race_ok old bs D0 (ths[i := (ths ! i)\<lparr>bt_stage := Set_cursor w\<rparr>]) (D\<lparr>writes := Some w\<rparr>)"
    by (rule race_same [OF race i]) (auto simp: st thread_ok_def pointers_ok_def fmdom'I)
  then show ?thesis by (simp add: goes_on_def st)
qed

lemma set_cursor_goes_on:
  assumes race: "race_ok old bs D0 ths D" and i: "i < length ths" and st: "bt_stage (ths ! i) = Set_cursor w"
  shows "goes_on old bs D0 ths i (bio_stage_step R node junk b (Set_cursor w) D)"
proof -
  have "race_ok old bs D0 (ths[i := (ths ! i)\<lparr>bt_stage := Publish w\<rparr>]) (D\<lparr>current_log_write := Some w\<rparr>)"
    by (rule race_same [OF race i]) (auto simp: st thread_ok_def pointers_ok_def fmdom'I)
  then show ?thesis by (simp add: goes_on_def st)
qed

lemma load_goes_on:
  assumes race: "race_ok old bs D0 ths D" and i: "i < length ths" and st: "bt_stage (ths ! i) = Load_tail w"
  shows "goes_on old bs D0 ths i (bio_stage_step R node junk b (Load_tail w) D)"
proof -
  obtain c where c: "current_write D = Some c"
    by (rule race_thread [OF race i]) (auto simp: st thread_ok_def pointers_ok_def)
  have "race_ok old bs D0 (ths[i := (ths ! i)\<lparr>bt_stage := Store_next w c\<rparr>]) D"
    by (rule race_same [OF race i]) (auto simp: st c thread_ok_def pointers_ok_def)
  then show ?thesis by (simp add: goes_on_def st c)
qed

lemma store_goes_on:
  assumes race: "race_ok old bs D0 ths D" and i: "i < length ths" and st: "bt_stage (ths ! i) = Store_next w c"
  shows "goes_on old bs D0 ths i (bio_stage_step R node junk b (Store_next w c) D)"
proof -
  have "c \<in> fmdom' (heap D)" by (rule race_thread [OF race i]) (simp add: st thread_ok_def links_ok_def)
  then obtain n where n: "fmlookup (heap D) c = Some n" by (auto simp: fmlookup_dom'_iff)
  have c: "c \<notin> set (butlast old)"
    by (rule race_thread [OF race i]) (simp add: st thread_ok_def)
  let ?D = "D\<lparr>heap := fmupd c (n\<lparr>node_next := Some w\<rparr>) (heap D)\<rparr>" and ?th = "(ths ! i)\<lparr>bt_stage := Publish w\<rparr>"
  have new: "new_nodes (ths[i := ?th]) = new_nodes ths" "w \<in> new_nodes ths"
    using race i st by (auto simp: new_nodes_update race_ok_def) (auto simp: new_nodes_def)
  have "race_ok old bs D0 (ths[i := ?th]) ?D"
  proof (rule race_move [OF race i])
    assume "nodes_ok old (set bs) D0 ths (heap D)"
    then have "nodes_ok old (set bs) D0 (ths[i := ?th]) (heap D)" by (rule nodes_ok_threads) (simp add: st)
    then show "nodes_ok old (set bs) D0 (ths[i := ?th]) (heap ?D)"
      using nodes_ok_upd [of old "set bs" D0 "ths[i := ?th]" "heap D" c "n\<lparr>node_next := Some w\<rparr>"] n c
      unfolding nodes_ok_def by simp
  next
    fix pub r k assume l: "links_ok pub (new_nodes ths) r k (heap D)" "pointers_ok old pub D0 D"
      "thread_ok old pub (heap D) (ths ! i)"
    then have "links_ok pub (new_nodes ths) r k (heap ?D)"
      using links_store [OF l(1) n _ new(2)] by (simp add: st thread_ok_def)
    moreover have "pointers_ok old pub D0 ?D" using l(2) by (auto simp: pointers_ok_def)
    moreover have "thread_ok old pub (heap ?D) ?th" using l(3) n by (auto simp: st thread_ok_def)
    ultimately show "\<exists>pub' r k. pub \<subseteq> pub' \<and> links_ok pub' (new_nodes (ths[i := ?th])) r k (heap ?D) \<and>
        pointers_ok old pub' D0 ?D \<and> thread_ok old pub' (heap ?D) ?th"
      unfolding new(1) by blast
  qed (use n in \<open>auto simp: st\<close>)
  then show ?thesis by (simp add: goes_on_def st n)
qed

lemma publish_goes_on:
  assumes race: "race_ok old bs D0 ths D" and i: "i < length ths" and st: "bt_stage (ths ! i) = Publish w"
  shows "goes_on old bs D0 ths i (bio_stage_step R node junk b (Publish w) D)"
proof -
  let ?D = "D\<lparr>current_write := Some w\<rparr>" and ?th = "(ths ! i)\<lparr>bt_stage := Fill w\<rparr>"
  have new: "new_nodes (ths[i := ?th]) = new_nodes ths - {w}" "w \<in> new_nodes ths"
    using race i st by (auto simp: new_nodes_update race_ok_def) (auto simp: new_nodes_def)
  have "race_ok old bs D0 (ths[i := ?th]) ?D"
  proof (rule race_move [OF race i])
    assume "nodes_ok old (set bs) D0 ths (heap D)"
    then show "nodes_ok old (set bs) D0 (ths[i := ?th]) (heap ?D)"
      using nodes_ok_threads [of old "set bs" D0 ths "heap D" i ?th] by (simp add: st)
  next
    fix pub r k assume l: "links_ok pub (new_nodes ths) r k (heap D)" "pointers_ok old pub D0 D"
      "thread_ok old pub (heap D) (ths ! i)"
    have "links_ok (insert w pub) (new_nodes ths - {w}) (r(w := k)) (Suc k) (heap ?D)"
      using links_publish [OF l(1) new(2)] by simp
    moreover have "w \<notin> set (butlast old)" using l(3) by (auto simp: st thread_ok_def dest: in_set_butlastD)
    then have "pointers_ok old (insert w pub) D0 ?D" using l(2) by (auto simp: pointers_ok_def)
    moreover have "thread_ok old (insert w pub) (heap ?D) ?th" using l(3) by (auto simp: st thread_ok_def)
    ultimately show "\<exists>pub' r k. pub \<subseteq> pub' \<and> links_ok pub' (new_nodes (ths[i := ?th])) r k (heap ?D) \<and>
        pointers_ok old pub' D0 ?D \<and> thread_ok old pub' (heap ?D) ?th"
      unfolding new(1) by blast
  qed (auto simp: st)
  then show ?thesis by (simp add: goes_on_def st)
qed

lemma skip_goes_on:
  assumes race: "race_ok old bs D0 ths D" and i: "i < length ths" and st: "bt_stage (ths ! i) = Begin"
  shows "race_ok old bs D0 (ths[i := (ths ! i)\<lparr>bt_stage := Passed_on\<rparr>]) D"
  by (rule race_same [OF race i]) (auto simp: st thread_ok_def)

lemma begin_goes_on:
  assumes race: "race_ok old bs D0 ths D" and i: "i < length ths" and st: "bt_stage (ths ! i) = Begin"
    and fresh: "\<And>w. node = Some w \<Longrightarrow> fmlookup (heap D) w = None"
  shows "goes_on old bs D0 ths i (bio_stage_step R node junk (bt_bio (ths ! i)) Begin D)"
proof (cases "log_on D \<and> is_logged R (bt_bio (ths ! i)) \<and> node \<noteq> None")
  case False
  then have "bio_stage_step R node junk (bt_bio (ths ! i)) Begin D = Some (Passed_on, D)" by auto
  then show ?thesis using skip_goes_on [OF race i st] by (simp add: goes_on_def st del: bio_stage_step.simps)
next
  case True
  then obtain w where w: "node = Some w" "fmlookup (heap D) w = None" using fresh by auto
  let ?b = "bt_bio (ths ! i)"
  let ?n = "\<lparr>node_meta = bio_meta ?b, node_data = None, node_next = None\<rparr>"
  let ?D = "D\<lparr>heap := fmupd w ?n (heap D)\<rparr>" and ?th = "(ths ! i)\<lparr>bt_stage := Test_tail w\<rparr>"
  have new: "new_nodes (ths[i := ?th]) = insert w (new_nodes ths)"
    using race i st by (auto simp: new_nodes_update race_ok_def)
  have "w \<notin> fmdom' (heap D)" using w(2) by (simp add: fmlookup_dom'_iff)
  have "w \<notin> set old"
    by (rule race_thread [OF race i]) (use \<open>w \<notin> fmdom' (heap D)\<close> in \<open>auto simp: links_ok_def\<close>)
  moreover have "?b \<in> set bs" using race i by (auto simp: race_ok_def)
  ultimately have old: "w \<notin> set old" "?b \<in> set bs" .
  have "race_ok old bs D0 (ths[i := ?th]) ?D"
  proof (rule race_move [OF race i])
    assume "nodes_ok old (set bs) D0 ths (heap D)"
    then have "nodes_ok old (set bs) D0 (ths[i := ?th]) (heap D)" by (rule nodes_ok_threads) (simp add: st)
    moreover have "node_good old (set bs) D0 w ?n" using old by (auto simp: node_good_def)
    moreover have "\<exists>j < length (ths[i := ?th]). node_of (bt_stage (ths[i := ?th] ! j)) = Some w"
      using i by (intro exI [of _ i]) simp
    ultimately show "nodes_ok old (set bs) D0 (ths[i := ?th]) (heap ?D)"
      using old(1) by (auto intro!: nodes_ok_upd dest: in_set_butlastD)
  next
    fix pub r k assume l: "links_ok pub (new_nodes ths) r k (heap D)" "pointers_ok old pub D0 D"
      "thread_ok old pub (heap D) (ths ! i)"
    have "links_ok pub (new_nodes (ths[i := ?th])) r k (heap ?D)"
      unfolding new using links_alloc [OF l(1) w(2)] by simp
    moreover have "pointers_ok old pub D0 ?D" using l(2) by (auto simp: pointers_ok_def)
    moreover have "thread_ok old pub (heap ?D) ?th" using l(3) old(1) by (auto simp: st thread_ok_def)
    ultimately show "\<exists>pub' r k. pub \<subseteq> pub' \<and> links_ok pub' (new_nodes (ths[i := ?th])) r k (heap ?D) \<and>
        pointers_ok old pub' D0 ?D \<and> thread_ok old pub' (heap ?D) ?th" by blast
  qed (use w in auto)
  then show ?thesis using True w by (simp add: goes_on_def st)
qed

lemma fill_goes_on:
  assumes race: "race_ok old bs D0 ths D" and i: "i < length ths" and st: "bt_stage (ths ! i) = Fill w"
  shows "goes_on old bs D0 ths i (bio_stage_step R node (Some j) (bt_bio (ths ! i)) (Fill w) D)"
proof -
  let ?b = "bt_bio (ths ! i)"
  let ?d = "concat (wb_segs ?b) @ map j [length (concat (wb_segs ?b))..<unat (wb_size ?b)]"
  have "w \<notin> set old \<and> fits ?b" by (rule race_thread [OF race i]) (simp add: thread_ok_def st)
  moreover have "?b \<in> set bs" using race i by (auto simp: race_ok_def)
  ultimately have w: "w \<notin> set old" "fits ?b" "?b \<in> set bs" by simp_all
  obtain n where n: "fmlookup (heap D) w = Some n" "node_meta n = bio_meta ?b"
    by (rule race_thread [OF race i]) (auto simp: st thread_ok_def)
  let ?n = "n\<lparr>node_data := Some ?d\<rparr>"
  let ?D = "D\<lparr>heap := fmupd w ?n (heap D)\<rparr>" and ?th = "(ths ! i)\<lparr>bt_stage := Passed_on\<rparr>"
  have copy: "copy_segments (map j [0..<unat (wb_size ?b)]) 0 (wb_segs ?b) = Some ?d"
    using w(2) copy_segments_concat [of 0 "wb_segs ?b" "map j [0..<unat (wb_size ?b)]"]
    by (simp add: fits_def drop_map del: length_concat)
  have new: "new_nodes (ths[i := ?th]) = new_nodes ths"
    using race i st by (auto simp: new_nodes_update race_ok_def)
  have "race_ok old bs D0 (ths[i := ?th]) ?D"
  proof (rule race_move [OF race i])
    assume no: "nodes_ok old (set bs) D0 ths (heap D)"
    have "entry ?n = logged_op j ?b" by (simp add: entry_def logged_op_def n(2) bio_meta_def)
    then have good: "node_good old (set bs) D0 w ?n" using w n(2) by (auto simp: node_good_def)
    show "nodes_ok old (set bs) D0 (ths[i := ?th]) (heap ?D)"
      unfolding nodes_ok_def
    proof (intro conjI ballI allI impI)
      fix a assume "a \<in> set (butlast old)"
      then show "map_option node_next (fmlookup (heap ?D) a) = map_option node_next (fmlookup (heap D0) a)"
        using no w(1) by (auto simp: nodes_ok_def dest: in_set_butlastD)
    next
      fix a m assume m: "fmlookup (heap ?D) a = Some m"
      show "node_good old (set bs) D0 a m"
        using m no good by (cases "a = w") (auto simp: nodes_ok_def)
      assume none: "node_data m = None"
      then have "a \<noteq> w" "fmlookup (heap D) a = Some m" using m by (auto split: if_splits)
      then obtain l where "l < length ths" "node_of (bt_stage (ths ! l)) = Some a"
        using no none unfolding nodes_ok_def by blast
      then show "\<exists>l < length (ths[i := ?th]). node_of (bt_stage (ths[i := ?th] ! l)) = Some a"
        using \<open>a \<noteq> w\<close> st by (intro exI [of _ l]) (cases "l = i"; simp)
    qed
  next
    fix pub r k assume l: "links_ok pub (new_nodes ths) r k (heap D)" "pointers_ok old pub D0 D"
      "thread_ok old pub (heap D) (ths ! i)"
    have "links_ok pub (new_nodes (ths[i := ?th])) r k (heap ?D)"
      unfolding new using links_fill [OF l(1) n(1)] by simp
    moreover have "pointers_ok old pub D0 ?D" using l(2) by (auto simp: pointers_ok_def)
    moreover have "thread_ok old pub (heap ?D) ?th" using l(3) by (auto simp: thread_ok_def)
    ultimately show "\<exists>pub' r k. pub \<subseteq> pub' \<and> links_ok pub' (new_nodes (ths[i := ?th])) r k (heap ?D) \<and>
        pointers_ok old pub' D0 ?D \<and> thread_ok old pub' (heap ?D) ?th" by blast
  qed (use n in auto)
  then show ?thesis using copy n by (simp add: goes_on_def st)
qed

interpretation bio_race: interleaving "bio_step R" bio_ok "race_ok old bs D0"
  "\<lambda>th. bio_work (bt_stage th)" for R old bs D0
proof unfold_locales
  fix ths :: "bio_thread list" and D i c
  assume race: "race_ok old bs D0 ths D" and i: "i < length ths" and ok: "bio_ok c (ths ! i) D"
  obtain node j where c: "c = (node, Some j)" using ok by (cases c) (auto simp: bio_ok_def)
  have "goes_on old bs D0 ths i (bio_stage_step R node (Some j) (bt_bio (ths ! i)) (bt_stage (ths ! i)) D)"
  proof (cases "bt_stage (ths ! i)")
    case Begin
    then have "node = Some w \<Longrightarrow> fmlookup (heap D) w = None" for w using ok c by (simp add: bio_ok_def)
    then show ?thesis using begin_goes_on [OF race i Begin] Begin by metis
  next
    case Passed_on
    then show ?thesis using ok by (simp add: bio_ok_def)
  qed (use race i in \<open>simp_all only: test_goes_on set_writes_goes_on set_cursor_goes_on load_goes_on
      store_goes_on publish_goes_on fill_goes_on\<close>)
  then show "\<exists>l s'. bio_step R c (ths ! i) D = Some (l, s') \<and> race_ok old bs D0 (ths[i := l]) s' \<and>
      bio_work (bt_stage l) < bio_work (bt_stage (ths ! i))"
    by (auto simp: goes_on_def bio_step_def c split: option.splits)
next
  fix ths :: "bio_thread list" and D i
  assume "0 < bio_work (bt_stage (ths ! i))"
  then show "\<exists>c. bio_ok c (ths ! i) D"
    by (intro exI [of _ "(None, Some (\<lambda>_. 0))"]) (auto simp: bio_ok_def)
qed

text \<open>The list before the race is ranked by its order.\<close>

lemma chain_rank:
  "chain h p as \<Longrightarrow> distinct as \<Longrightarrow> \<exists>r. \<forall>a\<in>set as. r a < length as \<and>
    (\<forall>n c. fmlookup h a = Some n \<and> node_next n = Some c \<longrightarrow> c \<in> set as \<and> r a < (r c :: nat))"
proof (induction as arbitrary: p)
  case (Cons a as)
  then obtain n where n: "fmlookup h a = Some n" "chain h (node_next n) as" by (auto split: option.splits)
  obtain r where r: "\<forall>a\<in>set as. r a < length as \<and>
      (\<forall>n c. fmlookup h a = Some n \<and> node_next n = Some c \<longrightarrow> c \<in> set as \<and> r a < (r c :: nat))"
    using Cons.IH [OF n(2)] Cons.prems(2) by auto
  have succ: "c \<in> set as" if "node_next n = Some c" for c using n(2) that by (cases as) auto
  show ?case
    by (rule exI [of _ "\<lambda>x. if x = a then 0 else Suc (r x)"]) (use r n(1) succ Cons.prems(2) in auto)
qed simp

lemma begin_stage [simp]: "bt_stage (new_request b) = Begin" "bt_bio (new_request b) = b"
  by (simp_all add: new_request_def)

lemma bio_race_start:
  assumes inv: "log_inv old D" and fit: "\<And>b. b \<in> set bs \<Longrightarrow> fits b"
  shows "race_ok old bs D (map new_request bs) D"
proof -
  have dom: "fmdom' (heap D) = set old" and old: "chain (heap D) (writes D) old" "distinct old"
    using inv by (auto simp: log_inv_def)
  have new: "new_nodes (map new_request bs) = {}" by (auto simp: new_nodes_def)
  obtain r where r: "\<forall>a\<in>set old. r a < length old \<and>
      (\<forall>n c. fmlookup (heap D) a = Some n \<and> node_next n = Some c \<longrightarrow> c \<in> set old \<and> r a < (r c :: nat))"
    using chain_rank [OF old] by blast
  have at: "a \<in> set old" if "fmlookup (heap D) a = Some n" for a n using fmdom'I [OF that] dom by simp
  have "links_ok (set old) (new_nodes (map new_request bs)) r (length old) (heap D)"
    unfolding links_ok_def new using r at dom by auto
  moreover have "last old \<notin> set (butlast old)" if "old \<noteq> []"
  proof -
    have "distinct (butlast old @ [last old])" using old(2) that by simp
    then show ?thesis by simp
  qed
  then have "pointers_ok old (set old) D D"
    using inv old(1) dom by (cases old) (auto simp: pointers_ok_def log_inv_def split: option.splits)
  moreover have "nodes_ok old (set bs) D (map new_request bs) (heap D)"
  proof -
    have "node_good old (set bs) D a n \<and> node_data n \<noteq> None" if n: "fmlookup (heap D) a = Some n" for a n
    proof -
      have "node_ok n" using inv at [OF n] n by (force simp: log_inv_def)
      then show ?thesis using at [OF n] n by (auto simp: node_good_def node_ok_def split: option.splits)
    qed
    then show ?thesis unfolding nodes_ok_def by blast
  qed
  moreover have "\<forall>th\<in>set (map new_request bs). thread_ok old (set old) (heap D) th"
    using fit by (auto simp: thread_ok_def)
  moreover have "map bt_bio (map new_request bs) = bs" by (simp add: o_def)
  moreover have "own_nodes (map new_request bs)" by (simp add: own_nodes_def)
  ultimately show ?thesis unfolding race_ok_def by blast
qed

section \<open>What is left when all requests are through\<close>

definition passed_on :: "bio_thread \<Rightarrow> bool" where
  "passed_on th \<longleftrightarrow> bt_stage th = Passed_on"

lemma pointer_chain:
  assumes "links_ok pub {} r k h" "\<And>a. p = Some a \<Longrightarrow> a \<in> fmdom' h"
  obtains cs where "chain h p cs" "distinct cs" "set cs \<subseteq> fmdom' h"
proof (cases p)
  case None
  then show thesis using that [of "[]"] by simp
next
  case (Some a)
  then have "a \<in> pub" using assms by (simp add: links_ok_def)
  from links_chain [OF assms(1) this] show thesis
    using that Some rank_distinct assms(1) by (fastforce simp: links_ok_def)
qed

lemma chain_extends:
  assumes "chain h0 p old" "chain h p cs"
    and "\<forall>a\<in>set (butlast old). map_option node_next (fmlookup h a) = map_option node_next (fmlookup h0 a)"
  shows "prefix old cs"
  using assms
proof (induction old arbitrary: p cs)
  case (Cons a old)
  from Cons.prems(1) obtain n where n: "p = Some a" "fmlookup h0 a = Some n" "chain h0 (node_next n) old"
    by (auto split: option.splits)
  with Cons.prems(2) obtain cs' n' where cs: "cs = a # cs'" "fmlookup h a = Some n'" "chain h (node_next n') cs'"
    by (cases cs) (auto split: option.splits)
  show ?case
  proof (cases "old = []")
    case False
    then have "node_next n' = node_next n" using Cons.prems(3) n(2) cs(2) by simp
    then have "prefix old cs'" using Cons.IH [OF n(3)] cs(3) Cons.prems(3) False by simp
    then show ?thesis using cs(1) by simp
  qed (simp add: cs(1))
qed simp

lemma bio_race_end:
  assumes inv: "log_inv old D0" and race: "race_ok old bs D0 ths D" and fin: "list_all passed_on ths"
  obtains cs ds where "chain (heap D) (writes D) cs" "distinct cs" "chain (heap D) (current_log_write D) ds"
    "distinct ds" "prefix (logged D0) (logged D)"
    "set (logged D) \<subseteq> set (logged D0) \<union> {logged_op j b |j b. b \<in> set bs}"
proof -
  from race obtain pub r k where l: "links_ok pub (new_nodes ths) r k (heap D)" "set old \<subseteq> pub"
    "pointers_ok old pub D0 D" and no: "nodes_ok old (set bs) D0 ths (heap D)" by (auto simp: race_ok_def)
  have stage: "bt_stage (ths ! i) = Passed_on" if "i < length ths" for i
    using fin that by (simp add: list_all_length passed_on_def)
  then have "new_nodes ths = {}" by (auto simp: new_nodes_def)
  note links = l(1) [unfolded this]
  have at: "a \<in> fmdom' (heap D)" if "writes D = Some a \<or> current_log_write D = Some a" for a
    using l(3) that by (auto simp: pointers_ok_def)
  obtain cs where cs: "chain (heap D) (writes D) cs" "distinct cs" "set cs \<subseteq> fmdom' (heap D)"
    by (rule pointer_chain [OF links, of "writes D"]) (use at in blast)+
  obtain ds where ds: "chain (heap D) (current_log_write D) ds" "distinct ds"
    by (rule pointer_chain [OF links, of "current_log_write D"]) (use at in blast)+
  have good: "node_good old (set bs) D0 a n \<and> node_data n \<noteq> None" if "fmlookup (heap D) a = Some n" for a n
  proof -
    have "\<not> (\<exists>i < length ths. node_of (bt_stage (ths ! i)) = Some a)" using stage by simp
    then show ?thesis using no that unfolding nodes_ok_def by blast
  qed
  have logged: "logged D = map (\<lambda>a. entry (the (fmlookup (heap D) a))) cs"
    unfolding logged_def by (rule chain_walk [OF cs(1,2)])
  note logged0 = log_inv_logged [OF inv]
  have same: "entry (the (fmlookup (heap D) a)) = entry (the (fmlookup (heap D0) a))" if a: "a \<in> set old" for a
  proof -
    have "a \<in> fmdom' (heap D)" using a l(2) links by (auto simp: links_ok_def)
    then show ?thesis using good a by (auto simp: fmlookup_dom'_iff node_good_def)
  qed
  have "prefix old cs"
  proof (cases "old = []")
    case False
    have "chain (heap D0) (writes D0) old" using inv by (simp add: log_inv_def)
    moreover have "writes D = writes D0" using l(3) False by (simp add: pointers_ok_def)
    ultimately show ?thesis
      using chain_extends [of "heap D0" "writes D0" old "heap D" cs] cs(1) no by (simp add: nodes_ok_def)
  qed simp
  then have "prefix (map (\<lambda>a. entry (the (fmlookup (heap D) a))) old) (logged D)"
    unfolding logged by (rule map_mono_prefix)
  moreover have "map (\<lambda>a. entry (the (fmlookup (heap D) a))) old = logged D0"
    unfolding logged0 using same by simp
  moreover have "set (logged D) \<subseteq> set (logged D0) \<union> {logged_op j b |j b. b \<in> set bs}"
  proof
    fix x assume "x \<in> set (logged D)"
    then obtain a where "a \<in> fmdom' (heap D)" "x = entry (the (fmlookup (heap D) a))"
      using cs(3) unfolding logged by auto
    then obtain n where a: "fmlookup (heap D) a = Some n" "x = entry n" by (auto simp: fmlookup_dom'_iff)
    show "x \<in> set (logged D0) \<union> {logged_op j b |j b. b \<in> set bs}"
    proof (cases "a \<in> set old")
      case True
      then show ?thesis using same [OF True] a logged0 by auto
    next
      case False
      then show ?thesis using good [OF a(1)] a(2) by (auto simp: node_good_def)
    qed
  qed
  ultimately show thesis using that cs(1,2) ds by simp
qed


section \<open>Schedules\<close>

lemma bio_move:
  assumes "bio_stage_step R node (Some j) b st D = Some (st', D')" "st \<noteq> Passed_on"
    and "\<And>w. node = Some w \<Longrightarrow> st = Begin \<Longrightarrow> fmlookup (heap D) w = None"
    and "i < length ths" "ths ! i = \<lparr>bt_bio = b, bt_stage = st\<rparr>"
    and "interleaves (bio_step R) bio_ok (ths[i := \<lparr>bt_bio = b, bt_stage = st'\<rparr>], D') T"
  shows "interleaves (bio_step R) bio_ok (ths, D) T"
  by (rule first_move [where c = "(node, Some j)", OF assms(4) _ _ assms(6)])
    (use assms(1-3,5) in \<open>auto simp: bio_ok_def bio_step_def split: option.splits\<close>)

lemma bio_first:
  "bio_stage_step R node (Some j) b st D = Some (st', D') \<Longrightarrow> st \<noteq> Passed_on \<Longrightarrow>
    (\<And>w. node = Some w \<Longrightarrow> st = Begin \<Longrightarrow> fmlookup (heap D) w = None) \<Longrightarrow>
    interleaves (bio_step R) bio_ok (\<lparr>bt_bio = b, bt_stage = st'\<rparr> # ths, D') T \<Longrightarrow>
    interleaves (bio_step R) bio_ok (\<lparr>bt_bio = b, bt_stage = st\<rparr> # ths, D) T"
  by (rule bio_move [where i = 0 and node = node and j = j]) simp_all

lemma bio_second:
  "bio_stage_step R node (Some j) b st D = Some (st', D') \<Longrightarrow> st \<noteq> Passed_on \<Longrightarrow>
    (\<And>w. node = Some w \<Longrightarrow> st = Begin \<Longrightarrow> fmlookup (heap D) w = None) \<Longrightarrow>
    interleaves (bio_step R) bio_ok (th # \<lparr>bt_bio = b, bt_stage = st'\<rparr> # ths, D') T \<Longrightarrow>
    interleaves (bio_step R) bio_ok (th # \<lparr>bt_bio = b, bt_stage = st\<rparr> # ths, D) T"
  by (rule bio_move [where i = 1 and node = node and j = j]) simp_all

section \<open>A request that is alone\<close>

lemma alone_publish:
  assumes "Option.bind (copy_segments (map j [0..<unat (wb_size b)]) 0 (wb_segs b))
      (\<lambda>d. map_option (\<lambda>n. D\<lparr>current_write := Some w, heap := fmupd w (n\<lparr>node_data := Some d\<rparr>) (heap D)\<rparr>)
        (fmlookup (heap D) w)) = Some D'"
  shows "interleaves (bio_step R) bio_ok ([\<lparr>bt_bio = b, bt_stage = Publish w\<rparr>], D)
    ([\<lparr>bt_bio = b, bt_stage = Passed_on\<rparr>], D')"
proof -
  obtain d n where d: "copy_segments (map j [0..<unat (wb_size b)]) 0 (wb_segs b) = Some d"
    "fmlookup (heap D) w = Some n"
    "D' = D\<lparr>current_write := Some w, heap := fmupd w (n\<lparr>node_data := Some d\<rparr>) (heap D)\<rparr>"
    using assms by (auto simp: bind_eq_Some_conv)
  have "interleaves (bio_step R) bio_ok ([\<lparr>bt_bio = b, bt_stage = Fill w\<rparr>], D\<lparr>current_write := Some w\<rparr>)
      ([\<lparr>bt_bio = b, bt_stage = Passed_on\<rparr>], D')"
    by (rule bio_first [where node = None and j = j, OF _ _ _ interleaves.idle]) (simp_all add: d)
  then show ?thesis by (rule bio_first [where node = None and j = j, rotated 3]) simp_all
qed


section \<open>A race that loses an entry\<close>

lemma buffer_of_fitting:
  "fits b \<Longrightarrow> copy_segments (map j [0..<unat (wb_size b)]) 0 (wb_segs b) =
    Some (concat (wb_segs b) @ map j [length (concat (wb_segs b))..<unat (wb_size b)])"
  using copy_segments_concat [of 0 "wb_segs b" "map j [0..<unat (wb_size b)]"]
  by (simp add: fits_def drop_map del: length_concat)

text \<open>
  C35: two requests that load the tail of the list before either has published its node: both pass
  through the driver as if they had been logged, and the log has only the second.
\<close>

theorem racing_request_is_lost:
  assumes inv: "log_inv old D" "old \<noteq> []" "log_on D" and logged: "is_logged R b1" "is_logged R b2"
    and fit: "fits b1" "fits b2"
    and fresh: "fmlookup (heap D) w1 = None" "fmlookup (heap D) w2 = None" "w1 \<noteq> w2"
  shows "\<exists>D'. interleaves (bio_step R) bio_ok ([new_request b1, new_request b2], D)
      ([\<lparr>bt_bio = b1, bt_stage = Passed_on\<rparr>, \<lparr>bt_bio = b2, bt_stage = Passed_on\<rparr>], D') \<and>
    logged D' = logged D @ [logged_op j b2]"
proof -
  obtain bs c where old: "old = bs @ [c]" using inv(2) by (cases old rule: rev_cases) auto
  have c: "current_write D = Some c" "chain (heap D) (writes D) (bs @ [c])" "distinct (bs @ [c])"
    using inv(1) old by (auto simp: log_inv_def)
  then obtain n where n: "fmlookup (heap D) c = Some n"
    using chain_lookup [OF c(2), of c] by auto
  have w: "w1 \<noteq> c" "w2 \<noteq> c" "c \<noteq> w1" "c \<noteq> w2" "w2 \<noteq> w1" "w1 \<notin> set bs" "w2 \<notin> set bs"
    using fresh_address [OF inv(1) fresh(1)] fresh_address [OF inv(1) fresh(2)] fresh(3) old by auto
  let ?n = "\<lambda>b d. \<lparr>node_meta = bio_meta b, node_data = d, node_next = None\<rparr>"
  let ?buf = "\<lambda>b. concat (wb_segs b) @ map j [length (concat (wb_segs b))..<unat (wb_size b)]"
  let ?h1 = "fmupd w1 (?n b1 None) (heap D)"
  let ?h2 = "fmupd w2 (?n b2 None) ?h1"
  let ?h3 = "fmupd c (n\<lparr>node_next := Some w1\<rparr>) ?h2"
  let ?h4 = "fmupd c (n\<lparr>node_next := Some w2\<rparr>) ?h3"
  let ?h5 = "fmupd w1 (?n b1 (Some (?buf b1))) ?h4"
  let ?h6 = "fmupd w2 (?n b2 (Some (?buf b2))) ?h5"
  let ?D = "\<lambda>h p. D\<lparr>heap := h, current_write := p\<rparr>"
  let ?T = "([\<lparr>bt_bio = b1, bt_stage = Passed_on\<rparr>, \<lparr>bt_bio = b2, bt_stage = Passed_on\<rparr>], ?D ?h6 (Some w2))"
  let ?run = "\<lambda>s1 s2 D. interleaves (bio_step R) bio_ok
    ([\<lparr>bt_bio = b1, bt_stage = s1\<rparr>, \<lparr>bt_bio = b2, bt_stage = s2\<rparr>], D) ?T"
  note one = bio_first [where node = "Some w1" and j = j, rotated 3]
    and two = bio_second [where node = "Some w2" and j = j, rotated 3]
  have DD: "D = ?D (heap D) (Some c)" using c(1) by simp
  have "?run Passed_on Passed_on (?D ?h6 (Some w2))" by (rule interleaves.idle)
  then have "?run Passed_on (Fill w2) (?D ?h5 (Some w2))"
    by (rule two) (simp_all add: buffer_of_fitting [OF fit(2)] w fresh)
  then have "?run (Fill w1) (Fill w2) (?D ?h4 (Some w2))"
    by (rule one) (simp_all add: buffer_of_fitting [OF fit(1)] w fresh)
  then have "?run (Fill w1) (Publish w2) (?D ?h4 (Some w1))" by (rule two) simp_all
  then have "?run (Publish w1) (Publish w2) (?D ?h4 (Some c))" by (rule one) simp_all
  then have "?run (Publish w1) (Store_next w2 c) (?D ?h3 (Some c))" by (rule two) simp_all
  then have "?run (Store_next w1 c) (Store_next w2 c) (?D ?h2 (Some c))" by (rule one) (use n w in simp_all)
  then have "?run (Store_next w1 c) (Load_tail w2) (?D ?h2 (Some c))" by (rule two) simp_all
  then have "?run (Load_tail w1) (Load_tail w2) (?D ?h2 (Some c))" by (rule one) simp_all
  then have "?run (Load_tail w1) (Test_tail w2) (?D ?h2 (Some c))" by (rule two) simp_all
  then have "?run (Test_tail w1) (Test_tail w2) (?D ?h2 (Some c))" by (rule one) simp_all
  then have "?run (Test_tail w1) Begin (?D ?h1 (Some c))" by (rule two) (use inv(3) logged fresh in simp_all)
  then have "?run Begin Begin (?D (heap D) (Some c))" by (rule one) (use inv(3) logged fresh in simp_all)
  then have run: "?run Begin Begin D" using DD by simp
  have "chain ?h6 (writes D) (bs @ [c, w2])"
    by (rule chain_snoc [OF c(2), where n = "n\<lparr>node_next := Some w2\<rparr>" and m = "?n b2 (Some (?buf b2))"])
      (use w c(3) fresh in auto)
  then have "logged (?D ?h6 (Some w2)) = map (\<lambda>a. entry (the (fmlookup ?h6 a))) (bs @ [c, w2])"
    unfolding logged_def using c(3) w by (simp add: chain_walk)
  also have "\<dots> = map (\<lambda>a. entry (the (fmlookup (heap D) a))) (bs @ [c]) @ [logged_op j b2]"
    using w n c(3) fresh by (auto simp: entry_def logged_op_def bio_meta_def)
  finally show ?thesis
    using run log_inv_logged [OF inv(1)] unfolding old new_request_def by (intro exI conjI) auto
qed

text \<open>
  Clearing the log under a request that has loaded the tail frees the node it is about to write to.
\<close>

theorem clear_under_request_dangles:
  assumes inv: "log_inv old D" and tail: "current_write D = Some c" and fresh: "fmlookup (heap D) w = None"
    and clear: "free_logs (D\<lparr>heap := fmupd w n (heap D)\<rparr>) = Some D'"
  shows "bio_stage_step R node junk b (Store_next w c) D' = None"
proof -
  have w: "w \<notin> set old" by (rule fresh_address [OF inv fresh])
  have "chain (fmupd w n (heap D)) (writes D) old" "distinct old"
    using inv w by (auto simp: log_inv_def intro: chain_frame [where h = "heap D", rotated])
  from chain_free [OF this] have "heap D' = fmdrop_set (set old) (fmupd w n (heap D))"
    using clear by (auto simp: free_logs_def)
  moreover have "c \<in> set old" using inv tail by (auto simp: log_inv_def split: if_splits)
  ultimately show ?thesis by simp
qed

section \<open>Concrete races\<close>

text \<open>A device with one write in its log, and two more requests for it.\<close>

definition one_logged :: hwm_device where
  "one_logged = linked_device 0 (Some [7]) (sample_wb 1 [7]) sample_on"

lemma one_logged_inv: "log_inv [0] one_logged" "log_on one_logged"
  using linked_device_inv(1) [of "[]" sample_on 0 "[7]" "sample_wb 1 [7]"] log_inv_fields [OF log_inv_empty]
  by (auto simp: one_logged_def sample_on_def sample_wb_def linked_device_def)

lemma sample_fits: "fits (sample_wb rw [x])"
  by (simp add: fits_def sample_wb_def)

lemma sample_fresh: "w \<noteq> 0 \<Longrightarrow> fmlookup (heap one_logged) w = None"
  by (simp add: one_logged_def linked_device_def linked_def)

lemma sample_logged: "is_logged flag_names_req (sample_wb 1 bs)"
  by (auto simp: is_logged_def sample_wb_def)

theorem racing_request_is_lost_witness:
  "\<exists>D'. interleaves (bio_step flag_names_req) bio_ok
      ([new_request (sample_wb 1 [8]), new_request (sample_wb 1 [9])], one_logged)
      ([\<lparr>bt_bio = sample_wb 1 [8], bt_stage = Passed_on\<rparr>, \<lparr>bt_bio = sample_wb 1 [9], bt_stage = Passed_on\<rparr>], D') \<and>
    logged D' = logged one_logged @ [logged_op (\<lambda>_. 0) (sample_wb 1 [9])]"
  by (rule racing_request_is_lost [OF one_logged_inv(1) _ one_logged_inv(2), where ?w1.0 = 1 and ?w2.0 = 2])
    (simp_all add: sample_fits sample_fresh sample_logged)



end
