(* ===== verification/Cow_Brd_Xip.thy ===== *)
theory Cow_Brd_Xip
  imports Cow_Brd_Steps
begin

text \<open>
  What \<open>code/cow_brd.c\<close> compiles under \<open>CONFIG_BLK_DEV_XIP\<close>, direct access to the pages of a disk,
  and the freeing of single pages and of a device, which the module calls on its error paths.
\<close>

section \<open>Freeing\<close>

definition brd_free_page :: "page_tree \<Rightarrow> nat \<Rightarrow> page_tree" where
  "brd_free_page t sector = fmdrop (page_index sector) t"

text \<open>What is left of the device before its memory is freed.\<close>

definition brd_free :: "brd_device \<Rightarrow> brd_device" where
  "brd_free brd = brd\<lparr>brd_pages := brd_free_pages (brd_pages brd)\<rparr>"

text \<open>Freeing a page of a snapshot uncovers the parent's, where zeroing it does not.\<close>

lemma brd_free_page_content:
  "disk_byte pp (brd_free_page t s) a =
     (if a div PAGE_SIZE = page_index s then disk_byte pp fmempty a else disk_byte pp t a)"
  by (simp add: disk_byte_def brd_free_page_def page_of_def)

lemma brd_free_no_pages: "brd_pages (brd_free brd) = fmempty"
  by (simp add: brd_free_def)

section \<open>Direct access\<close>

text \<open>
  \<open>kaddr\<close> is the address of a page: the index of the page in the tree of the device.  \<open>brd\<close> is
  \<open>NULL\<close> for a disk without a device.  The test is for the range only: a disk that is frozen gives
  out its pages like any other.
\<close>

definition brd_direct_access :: "page_tree option \<Rightarrow> bool list \<Rightarrow> brd_device option \<Rightarrow> nat
    \<Rightarrow> errno option \<times> nat option \<times> brd_device option" where
  "brd_direct_access pp ms bdev sector =
     (case bdev of
        None \<Rightarrow> (Some ENODEV, None, None)
      | Some brd \<Rightarrow>
          (if sector AND (PAGE_SECTORS - 1) \<noteq> 0 then (Some EINVAL, None, Some brd)
           else if sector + PAGE_SECTORS > capacity brd then (Some ERANGE, None, Some brd)
           else
             (let (page, t, _) = brd_insert_page pp ms (brd_pages brd) sector;
                  brd1 = brd\<lparr>brd_pages := t\<rparr>
              in if \<not> page then (Some ENOMEM, None, Some brd1)
                 else (None, Some (page_index sector), Some brd1))))"

lemma sector_aligned: "sector AND 7 = sector mod 8" for sector :: nat
  using take_bit_eq_mask [of 3 sector] by (simp add: mask_eq_exp_minus_1 take_bit_eq_mod)

text \<open>
  Direct access never changes what the disk shows.  On success the page it gives out is in the tree
  of the device itself and holds the bytes the disk shows at that sector; its other fields stay.
\<close>

lemma direct_access_shows_disk:
  assumes "brd_direct_access pp ms (Some brd) sector = (err, kaddr, Some brd')"
  shows "disk_byte pp (brd_pages brd') = disk_byte pp (brd_pages brd) \<and>
    brd' = brd\<lparr>brd_pages := brd_pages brd'\<rparr> \<and>
    (err = None \<longrightarrow> (\<exists>p. kaddr = Some (page_index sector) \<and>
       fmlookup (brd_pages brd') (page_index sector) = Some p \<and>
       (\<forall>i<PAGE_SIZE. p i = disk_byte pp (brd_pages brd) (512 * sector + i))))"
proof -
  obtain ok t ms' where ins: "brd_insert_page pp ms (brd_pages brd) sector = (ok, t, ms')" by (rule prod_cases3)
  note content = brd_insert_page_content [OF ins]
  show ?thesis
  proof (cases "sector mod 8 = 0 \<and> sector + 8 \<le> capacity brd \<and> ok")
    case True
    then have e: "err = None" "kaddr = Some (sector div 8)" "brd' = brd\<lparr>brd_pages := t\<rparr>"
      using assms ins by (auto simp: brd_direct_access_def sector_aligned page_index_div)
    have d: "disk_byte pp t = disk_byte pp (brd_pages brd)" using content by (simp add: disk_byte_def fun_eq_iff)
    obtain p where p: "fmlookup t (sector div 8) = Some p"
      using content(3) True by (auto simp: page_index_div fmlookup_dom'_iff)
    then have q: "page_of pp t (sector div 8) = p" by (simp add: page_of_def)
    have "p i = disk_byte pp (brd_pages brd) (512 * sector + i)" if "i < PAGE_SIZE" for i
    proof -
      obtain k where k: "sector = 8 * k" using True by (auto simp: mod_eq_0_iff_dvd)
      have "disk_byte pp t (4096 * k + i) = p i" using that q by (simp add: disk_byte_def k)
      then show ?thesis by (simp add: d k)
    qed
    then show ?thesis using e d p by (simp add: page_index_div)
  next
    case False
    then have "err \<noteq> None" "brd' = brd \<or> brd' = brd\<lparr>brd_pages := t\<rparr>"
      using assms ins by (auto simp: brd_direct_access_def sector_aligned split: if_splits)
    moreover have "disk_byte pp t = disk_byte pp (brd_pages brd)"
      using content by (simp add: disk_byte_def fun_eq_iff)
    ultimately show ?thesis by auto
  qed
qed

text \<open>The error is that of the first test that fails, whether the disk is frozen or not.\<close>

lemma direct_access_errors:
  "fst (brd_direct_access pp [] (Some brd) sector) =
     (if sector mod 8 \<noteq> 0 then Some EINVAL
      else if sector + 8 > capacity brd then Some ERANGE else None)"
  using brd_insert_page_no_failure [of pp "brd_pages brd" sector]
  by (auto simp: brd_direct_access_def sector_aligned split: prod.split)

end
