(* ===== verification/Disk_Write_Print.thy ===== *)
theory Disk_Write_Print
  imports Disk_Write_IO Results
begin

text \<open>
  Copying and printing a \<open>disk_write\<close>: the copy constructor, the assignment and the two output
  operators of \<open>code/utils/utils.cpp\<close>.
\<close>

section \<open>Copies\<close>

text \<open>A copy shares the buffer of the original; the assignment overwrites both members.\<close>

definition dw_copy :: "disk_write \<Rightarrow> disk_write" where
  "dw_copy other = \<lparr>metadata = metadata other, dw_data = dw_data other\<rparr>"

definition dw_assign :: "disk_write \<Rightarrow> disk_write \<Rightarrow> disk_write" where
  "dw_assign this other = this\<lparr>metadata := metadata other, dw_data := dw_data other\<rparr>"

lemma copies_equal:
  assumes "dw_wf other"
  shows "dw_eq (dw_copy other) other = Some True" "dw_eq (dw_assign this other) other = Some True"
proof -
  have "dw_copy other = other" "dw_assign this other = other" by (simp_all add: dw_copy_def dw_assign_def)
  then show "dw_eq (dw_copy other) other = Some True" "dw_eq (dw_assign this other) other = Some True"
    using dw_eq_iff [OF assms assms] by simp_all
qed

section \<open>Output\<close>

text \<open>
  The operator for files writes the metadata in decimal and then the \<open>shared_ptr\<close>, which prints
  the address \<open>addr\<close> of the buffer and not its bytes; a null pointer prints as 0.  No code of the
  repository calls it, the log is written with \<open>serialize\<close>.
\<close>

definition pointer_text :: "nat \<Rightarrow> string" where
  "pointer_text addr = (if addr = 0 then ''0'' else ''0x'' @ hex_string addr)"

definition dw_write_file :: "nat \<Rightarrow> disk_write \<Rightarrow> string" where
  "dw_write_file addr dw =
     dec_string (unat (bi_flags (metadata dw))) @ '' '' @ dec_string (unat (bi_rw (metadata dw))) @ '' '' @
     dec_string (unat (write_sector (metadata dw))) @ '' '' @
     dec_string (unat (meta_size (metadata dw))) @ '' '' @ pointer_text addr"

text \<open>The operator for other streams prints the request flags in hexadecimal, with a prefix unless they are 0.\<close>

definition dw_print :: "disk_write \<Rightarrow> ostream \<Rightarrow> ostream" where
  "dw_print dw os =
     put ((if bi_rw (metadata dw) = 0 then [] else ''0x'') @ hex_string (unat (bi_rw (metadata dw)))) os"

text \<open>The text of a file does not depend on the data, so no reader can get it back.\<close>

lemma file_text_loses_data: "dw_write_file addr (dw\<lparr>dw_data := d\<rparr>) = dw_write_file addr dw"
  by (simp add: dw_write_file_def)

text \<open>The printed flags can be read back: the digits of \<open>hex_string\<close> stand for the number.\<close>

lemma printed_flags_read_back:
  assumes "\<not> out_fail os"
  shows "\<exists>t. out_text (dw_print dw os) = out_text os @ t \<and>
    hex_number 0 (if bi_rw (metadata dw) = 0 then t else drop 2 t) = (unat (bi_rw (metadata dw)), [])"
proof -
  have "hex_number 0 (hex_string n) = (n, [])" for n
    using hex_number_append [of "hex_string n" 0 "[]"] hex_string_digits [of _ n] hex_value_digit
      hex_number_string [of n] by fastforce
  then show ?thesis using assms by (simp add: dw_print_def put_def)
qed

end
