(* ===== verification/Scratch_Programs.thy ===== *)
theory Scratch_Programs
  imports Tester_Replay
begin

text \<open>
  The programs for trying the modules by hand, over the operating system of \<open>Tester\<close>:
  \<open>code/ioctl_test.c\<close> restores the snapshot, \<open>code/testing/log_on_off.c\<close> turns the log of the
  wrapper on and off, \<open>code/tests/test_get_log_ent_size.c\<close> writes a line to a file.  Each gives what
  \<open>main\<close> returns.
\<close>

section \<open>Restoring the snapshot\<close>

definition ioctl_test_main :: "'w os \<Rightarrow> 'w \<Rightarrow> int \<times> 'w" where
  "ioctl_test_main OS w =
     (let (rd_fd, w1) = os_open OS ''/dev/cow_ram_snapshot1_0'' ''r'' w in
      if rd_fd < 0 then (- 1, w1)
      else
        (let (err, w2) = os_ioctl OS rd_fd COW_BRD_RESTORE_SNAPSHOT w1 in
         if err < 0 then (- 2, w2) else (err, os_close OS rd_fd w2)))"

section \<open>Turning the log on and off\<close>

text \<open>The device is called \<open>hwm1\<close> here, \<open>hwm\<close> in the harness and in the module.\<close>

definition log_on_off_main :: "'w os \<Rightarrow> 'w \<Rightarrow> (int \<times> 'w) option" where
  "log_on_off_main OS w =
     (let (fd, w1) = os_open OS ''/dev/hwm1'' ''r'' w in
      if fd = - 1 then Some (- 1, w1)
      else
        Option.bind (os_hwm OS fd HWM_LOG_ON w1) (\<lambda>(_, _, w2).
          map_option (\<lambda>(_, _, w3). (0, os_close OS fd w3)) (os_hwm OS fd HWM_LOG_OFF w2)))"

section \<open>Writing a line\<close>

definition LINE :: "byte list" where
  "LINE = map of_char ''hello great big world out there''"

text \<open>
  \<open>written\<close> is unsigned: an error compares equal to \<open>-1\<close> all the same.  It is set to the result of
  the last call and not to the sum.
\<close>

partial_function (option) line_loop :: "'w os \<Rightarrow> int \<Rightarrow> u32 \<Rightarrow> 'w \<Rightarrow> (bool \<times> 'w) option" where
  "line_loop OS fd written w =
     (if written = of_nat (length LINE) then Some (True, w)
      else
        (case os_write OS fd (Some (drop (unat written) LINE)) (unat (of_nat (length LINE) - written)) w of
           (res, w1) \<Rightarrow>
             if (word_of_int res :: u32) = - 1 then Some (False, w1)
             else line_loop OS fd (word_of_int res) w1))"

definition write_line_main :: "'w os \<Rightarrow> 'w \<Rightarrow> (int \<times> 'w) option" where
  "write_line_main OS w =
     (let (fd, w1) = os_open OS ''/mnt/snapshot/test_file'' ''rwc'' w in
      if fd = - 1 then Some (- 1, w1)
      else
        map_option (\<lambda>(ok, w2). (if ok then 0 else - 1, os_close OS fd w2)) (line_loop OS fd 0 w1))"

section \<open>What they do\<close>

text \<open>
  \<open>ioctl_test\<close> succeeds on a snapshot exactly if the device can be opened, and then leaves it
  without a page of its own: it shows its parent.
\<close>

definition snapshot_file_os :: "bool \<Rightarrow> brd_device os" where
  "snapshot_file_os there = no_os
     \<lparr>os_open := (\<lambda>p m w. (if there then 3 else - 1, w)),
      os_ioctl := (\<lambda>_ cmd w. case brd_ioctl w cmd of (e, d) \<Rightarrow> (if e = None then 0 else - 1, d))\<rparr>"

lemma ioctl_test_restores:
  "ioctl_test_main (snapshot_file_os there) d =
     (if \<not> there then (- 1, d)
      else if is_snapshot d then (0, d\<lparr>brd_pages := fmempty\<rparr>) else (- 2, d))"
  by (simp add: ioctl_test_main_def snapshot_file_os_def no_os_def brd_ioctl_cases)

text \<open>A device that logs nothing in between has the same log afterwards, and logging is off.\<close>

definition wrapper_file_os :: "hwm_device os" where
  "wrapper_file_os = no_os\<lparr>os_open := (\<lambda>p m w. (3, w)), os_hwm := (\<lambda>fd cmd w. wrapper_dev [] cmd w)\<rparr>"

lemma log_on_off_leaves_log:
  "log_on_off_main wrapper_file_os D = Some (0, D\<lparr>log_on := False\<rparr>)"
  by (simp add: log_on_off_main_def wrapper_file_os_def no_os_def wrapper_dev_def disk_wrapper_ioctl_def)

text \<open>
  When every call writes all it is given, the line is written with one call; when the first call
  fails, the program says so.
\<close>

lemma length_LINE: "length LINE = 31"
  by (simp add: LINE_def)

lemma line_written:
  assumes "os_write OS fd (Some LINE) 31 w = (31, w')"
  shows "line_loop OS fd 0 w = Some (True, w')"
  using assms by (subst line_loop.simps, subst line_loop.simps) (simp add: length_LINE)

lemma line_failed:
  assumes "os_write OS fd (Some LINE) 31 w = (- 1, w')"
  shows "line_loop OS fd 0 w = Some (False, w')"
  using assms by (subst line_loop.simps) (simp add: length_LINE)

end
