(* ===== verification/Sockets.thy ===== *)
theory Sockets
  imports Prelude "HOL-Library.Monad_Syntax"
begin

text \<open>
  \<open>code/utils/communication\<close>: the messages between the harness and the tools of the user, over
  stream sockets.

  The network is the argument \<open>N\<close>: one function per call, over the state \<open>'w\<close> of the world.
  \<open>recv\<close> and \<open>send\<close> answer \<open>None\<close> for an error; what \<open>recv\<close> returns is what it received, and it
  returns nothing at the end of the stream.  Loops over these calls are partial functions: \<open>None\<close>
  says that the loop does not end, or that the program writes or reads outside a buffer.  Integers
  are kept in memory least significant byte first (x86).
\<close>

section \<open>Messages\<close>

definition kHarnessError :: u32 where "kHarnessError = 0"
definition kInvalidCommand :: u32 where "kInvalidCommand = 1"
definition kPrepare :: u32 where "kPrepare = 2"
definition kPrepareDone :: u32 where "kPrepareDone = 3"
definition kBeginLog :: u32 where "kBeginLog = 4"
definition kBeginLogDone :: u32 where "kBeginLogDone = 5"
definition kEndLog :: u32 where "kEndLog = 6"
definition kEndLogDone :: u32 where "kEndLogDone = 7"
definition kRunTests :: u32 where "kRunTests = 8"
definition kRunTestsDone :: u32 where "kRunTestsDone = 9"
definition kCheckpoint :: u32 where "kCheckpoint = 10"
definition kCheckpointDone :: u32 where "kCheckpointDone = 11"

lemmas commands = kHarnessError_def kInvalidCommand_def kPrepare_def kPrepareDone_def kBeginLog_def
  kBeginLogDone_def kEndLog_def kEndLogDone_def kRunTests_def kRunTestsDone_def kCheckpoint_def
  kCheckpointDone_def

record socket_message =
  msg_type :: u32
  msg_size :: u32
  int_value :: u32
  string_value :: "byte list"

datatype socket_error = kNone | kSyscall | kWrongType | kAlreadyConnected | kNotConnected

definition kSocketNameOutbound :: string where "kSocketNameOutbound = ''/tmp/crash_monkey_harness''"

text \<open>The messages that carry no data: the cases of the two switches.\<close>

definition is_control :: "u32 \<Rightarrow> bool" where
  "is_control t \<longleftrightarrow> t \<in> {kHarnessError, kInvalidCommand, kPrepare, kPrepareDone, kBeginLog,
     kBeginLogDone, kEndLog, kEndLogDone, kRunTests, kRunTestsDone, kCheckpointDone}"

section \<open>The network\<close>

record 'w net =
  net_socket :: "'w \<Rightarrow> int \<times> 'w"
  net_connect :: "int \<Rightarrow> string \<Rightarrow> 'w \<Rightarrow> int \<times> 'w"
  net_bind :: "int \<Rightarrow> string \<Rightarrow> 'w \<Rightarrow> int \<times> 'w"
  net_listen :: "int \<Rightarrow> u32 \<Rightarrow> 'w \<Rightarrow> int \<times> 'w"
  net_accept :: "int \<Rightarrow> 'w \<Rightarrow> int \<times> 'w"
  net_recv :: "int \<Rightarrow> nat \<Rightarrow> 'w \<Rightarrow> byte list option \<times> 'w"
  net_send :: "int \<Rightarrow> byte list \<Rightarrow> 'w \<Rightarrow> nat option \<times> 'w"
  net_close :: "int \<Rightarrow> 'w \<Rightarrow> 'w"
  net_unlink :: "string \<Rightarrow> 'w \<Rightarrow> 'w"

section \<open>Integers\<close>

definition mem_bytes :: "u32 \<Rightarrow> byte list" where
  "mem_bytes d = [ucast d, ucast (drop_bit 8 d), ucast (drop_bit 16 d), ucast (drop_bit 24 d)]"

fun of_mem :: "byte list \<Rightarrow> u32" where
  "of_mem [] = 0"
| "of_mem (b # bs) = ucast b OR push_bit 8 (of_mem bs)"

definition htonl :: "u32 \<Rightarrow> u32" where "htonl d = of_mem (rev (mem_bytes d))"

definition ntohl :: "u32 \<Rightarrow> u32" where "ntohl d = of_mem (rev (mem_bytes d))"

text \<open>
  The loop around \<open>recv\<close> that fills a buffer of \<open>n\<close> bytes: \<open>buf\<close> is what has been read.  And the
  loop around \<open>send\<close>.
\<close>

partial_function (option) recv_loop :: "'w net \<Rightarrow> int \<Rightarrow> nat \<Rightarrow> byte list \<Rightarrow> 'w
    \<Rightarrow> (byte list option \<times> 'w) option" where
  "recv_loop N s n buf w =
     (case net_recv N s (n - length buf) w of
        (None, w1) \<Rightarrow> Some (None, w1)
      | (Some bs, w1) \<Rightarrow>
          if length (buf @ bs) < n then recv_loop N s n (buf @ bs) w1 else Some (Some (buf @ bs), w1))"

partial_function (option) send_loop :: "'w net \<Rightarrow> int \<Rightarrow> byte list \<Rightarrow> nat \<Rightarrow> 'w \<Rightarrow> (bool \<times> 'w) option" where
  "send_loop N s data bytes_written w =
     (case net_send N s (drop bytes_written data) w of
        (None, w1) \<Rightarrow> Some (False, w1)
      | (Some res, w1) \<Rightarrow>
          if bytes_written + res < length data then send_loop N s data (bytes_written + res) w1
          else Some (True, w1))"

definition ReadIntFromSocket :: "'w net \<Rightarrow> int \<Rightarrow> 'w \<Rightarrow> (u32 option \<times> 'w) option" where
  "ReadIntFromSocket N s w =
     map_option (\<lambda>(d, w1). (map_option (\<lambda>bs. ntohl (of_mem bs)) d, w1)) (recv_loop N s 4 [] w)"

definition WriteIntToSocket :: "'w net \<Rightarrow> int \<Rightarrow> u32 \<Rightarrow> 'w \<Rightarrow> (bool \<times> 'w) option" where
  "WriteIntToSocket N s data w = send_loop N s (mem_bytes (htonl data)) 0 w"

definition GobbleData :: "'w net \<Rightarrow> int \<Rightarrow> nat \<Rightarrow> 'w \<Rightarrow> (bool \<times> 'w) option" where
  "GobbleData N s len w = map_option (\<lambda>(d, w1). (d \<noteq> None, w1)) (recv_loop N s len [] w)"

section \<open>Strings\<close>

text \<open>The words of a buffer, each through \<open>f\<close>.\<close>

fun swap_words :: "(u32 \<Rightarrow> u32) \<Rightarrow> byte list \<Rightarrow> byte list" where
  "swap_words f (a # b # c # d # bs) = mem_bytes (f (of_mem [a, b, c, d])) @ swap_words f bs"
| "swap_words f bs = bs"

text \<open>A C string in a buffer ends at its first zero byte; without one the code reads outside.\<close>

definition c_string_of :: "byte list \<Rightarrow> byte list option" where
  "c_string_of buf = (if 0 \<in> set buf then Some (takeWhile (\<lambda>b. b \<noteq> 0) buf) else None)"

definition ReadStringFromSocket :: "'w net \<Rightarrow> int \<Rightarrow> nat \<Rightarrow> 'w \<Rightarrow> (byte list option \<times> 'w) option" where
  "ReadStringFromSocket N s len w =
     (if len mod 4 \<noteq> 0 then Some (None, w)
      else Option.bind (recv_loop N s len [] w) (\<lambda>(d, w1).
        case d of
          None \<Rightarrow> Some (None, w1)
        | Some bs \<Rightarrow> map_option (\<lambda>str. (Some str, w1)) (c_string_of (swap_words ntohl bs))))"

text \<open>
  The buffer has the size of the string, rounded up to words; \<open>strcpy\<close> also writes a zero byte,
  which must fit.
\<close>

definition round_up :: "nat \<Rightarrow> nat" where
  "round_up n = (n + 3) div 4 * 4"

definition send_buffer :: "byte list \<Rightarrow> byte list option" where
  "send_buffer data =
     (let len = round_up (length data); str = takeWhile (\<lambda>b. b \<noteq> 0) data in
      if length str + 1 \<le> len then Some (str @ replicate (len - length str) 0) else None)"

definition WriteStringToSocket :: "'w net \<Rightarrow> int \<Rightarrow> byte list \<Rightarrow> 'w \<Rightarrow> (bool \<times> 'w) option" where
  "WriteStringToSocket N s data w =
     Option.bind (send_buffer data) (\<lambda>buf.
       Option.bind (WriteIntToSocket N s (word_of_nat (length buf)) w) (\<lambda>(ok, w1).
         if \<not> ok then Some (False, w1) else send_loop N s (swap_words htonl buf) 0 w1))"

section \<open>Messages on a socket\<close>

definition ReadMessageFromSocket :: "'w net \<Rightarrow> int \<Rightarrow> socket_message \<Rightarrow> 'w
    \<Rightarrow> (bool \<times> socket_message \<times> 'w) option" where
  "ReadMessageFromSocket N s m w =
     Option.bind (ReadIntFromSocket N s w) (\<lambda>(t, w1).
       case t of
         None \<Rightarrow> Some (False, m, w1)
       | Some t \<Rightarrow>
           (let m1 = m\<lparr>msg_type := t\<rparr> in
            Option.bind (ReadIntFromSocket N s w1) (\<lambda>(n, w2).
              case n of
                None \<Rightarrow> Some (False, m1, w2)
              | Some n \<Rightarrow>
                  (let m2 = m1\<lparr>msg_size := n\<rparr> in
                   if is_control t then
                     (if n \<noteq> 0 then map_option (\<lambda>(ok, w3). (ok, m2, w3)) (GobbleData N s (unat n) w2)
                      else Some (True, m2, w2))
                   else if t = kCheckpoint then
                     Option.bind (ReadStringFromSocket N s (unat n) w2) (\<lambda>(str, w3).
                       case str of
                         None \<Rightarrow> Some (False, m2, w3)
                       | Some x \<Rightarrow> Some (True, m2\<lparr>string_value := x\<rparr>, w3))
                   else Some (False, m2, w2)))))"

definition WriteMessageToSocket :: "'w net \<Rightarrow> int \<Rightarrow> socket_message \<Rightarrow> 'w \<Rightarrow> (bool \<times> 'w) option" where
  "WriteMessageToSocket N s m w =
     Option.bind (WriteIntToSocket N s (msg_type m) w) (\<lambda>(ok, w1).
       if \<not> ok then Some (False, w1)
       else if is_control (msg_type m) then WriteIntToSocket N s 0 w1
       else if msg_type m = kCheckpoint then WriteStringToSocket N s (string_value m) w1
       else Some (False, w1))"

section \<open>Client and server\<close>

text \<open>
  The path of a socket is copied with \<open>strcpy\<close> into \<open>sun_path\<close>, which has 108 bytes: \<open>None\<close> if it does
  not fit.  A descriptor is \<open>-1\<close> when there is no connection.
\<close>

definition sun_path_size :: nat where "sun_path_size = 108"

definition sun_path_fits :: "string \<Rightarrow> bool" where
  "sun_path_fits address \<longleftrightarrow> length address + 1 \<le> sun_path_size"

record client_socket =
  socket_fd :: int
  client_address :: string

definition ClientSocket :: "string \<Rightarrow> client_socket" where
  "ClientSocket address = \<lparr>socket_fd = - 1, client_address = address\<rparr>"

definition client_Init :: "'w net \<Rightarrow> client_socket \<Rightarrow> 'w \<Rightarrow> (int \<times> client_socket \<times> 'w) option" where
  "client_Init N C w =
     (let (fd, w1) = net_socket N w; C1 = C\<lparr>socket_fd := fd\<rparr> in
      if fd < 0 then Some (- 1, C1, w1)
      else if \<not> sun_path_fits (client_address C) then None
      else
        (let (res, w2) = net_connect N fd (client_address C) w1 in
         if res < 0 then Some (- 1, C1, w2) else Some (0, C1, w2)))"

definition client_SendMessage :: "'w net \<Rightarrow> client_socket \<Rightarrow> socket_message \<Rightarrow> 'w
    \<Rightarrow> (socket_error \<times> 'w) option" where
  "client_SendMessage N C m w =
     (if socket_fd C < 0 then Some (kNotConnected, w)
      else map_option (\<lambda>(ok, w1). (if ok then kNone else kSyscall, w1))
             (WriteMessageToSocket N (socket_fd C) m w))"

text \<open>\<open>junk\<close> is what the fields the code does not set hold.\<close>

definition client_SendCommand :: "'w net \<Rightarrow> socket_message \<Rightarrow> client_socket \<Rightarrow> u32 \<Rightarrow> 'w
    \<Rightarrow> (socket_error \<times> 'w) option" where
  "client_SendCommand N junk C c w = client_SendMessage N C (junk\<lparr>msg_type := c, msg_size := 0\<rparr>) w"

definition client_WaitForMessage :: "'w net \<Rightarrow> client_socket \<Rightarrow> socket_message \<Rightarrow> 'w
    \<Rightarrow> (socket_error \<times> socket_message \<times> 'w) option" where
  "client_WaitForMessage N C m w =
     map_option (\<lambda>(ok, m1, w1). (if ok then kNone else kSyscall, m1, w1))
       (ReadMessageFromSocket N (socket_fd C) m w)"

definition client_CloseClient :: "'w net \<Rightarrow> client_socket \<Rightarrow> 'w \<Rightarrow> client_socket \<times> 'w" where
  "client_CloseClient N C w = (C\<lparr>socket_fd := - 1\<rparr>, net_close N (socket_fd C) w)"

record server_socket =
  server_fd :: int
  client_fd :: int
  server_address :: string

definition ServerSocket :: "string \<Rightarrow> server_socket" where
  "ServerSocket address = \<lparr>server_fd = - 1, client_fd = - 1, server_address = address\<rparr>"

definition server_delete :: "'w net \<Rightarrow> server_socket \<Rightarrow> 'w \<Rightarrow> 'w" where
  "server_delete N S w =
     net_unlink N (server_address S) (net_close N (server_fd S) (net_close N (client_fd S) w))"

definition server_Init :: "'w net \<Rightarrow> u32 \<Rightarrow> server_socket \<Rightarrow> 'w \<Rightarrow> (int \<times> server_socket \<times> 'w) option" where
  "server_Init N queue_depth S w =
     (let (fd, w1) = net_socket N w; S1 = S\<lparr>server_fd := fd\<rparr> in
      if fd < 0 then Some (- 1, S1, w1)
      else if \<not> sun_path_fits (server_address S) then None
      else
        (let (b, w2) = net_bind N fd (server_address S) w1 in
         if b < 0 then Some (- 1, S1, w2)
         else (let (l, w3) = net_listen N fd queue_depth w2 in
               if l < 0 then Some (- 1, S1, w3) else Some (0, S1, w3))))"

definition server_SendMessage :: "'w net \<Rightarrow> server_socket \<Rightarrow> socket_message \<Rightarrow> 'w
    \<Rightarrow> (socket_error \<times> 'w) option" where
  "server_SendMessage N S m w =
     (if server_fd S < 0 then Some (kNotConnected, w)
      else map_option (\<lambda>(ok, w1). (if ok then kNone else kSyscall, w1))
             (WriteMessageToSocket N (client_fd S) m w))"

definition server_SendCommand :: "'w net \<Rightarrow> socket_message \<Rightarrow> server_socket \<Rightarrow> u32 \<Rightarrow> 'w
    \<Rightarrow> (socket_error \<times> 'w) option" where
  "server_SendCommand N junk S c w = server_SendMessage N S (junk\<lparr>msg_type := c, msg_size := 0\<rparr>) w"

definition server_WaitForMessage :: "'w net \<Rightarrow> server_socket \<Rightarrow> socket_message \<Rightarrow> 'w
    \<Rightarrow> (socket_error \<times> server_socket \<times> socket_message \<times> 'w) option" where
  "server_WaitForMessage N S m w =
     (if client_fd S \<ge> 0 then Some (kAlreadyConnected, S, m, w)
      else
        (let (fd, w1) = net_accept N (server_fd S) w; S1 = S\<lparr>client_fd := fd\<rparr> in
         if fd < 0 then Some (kSyscall, S1, m, w1)
         else map_option (\<lambda>(ok, m1, w2). (if ok then kNone else kSyscall, S1, m1, w2))
                (ReadMessageFromSocket N fd m w1)))"

definition server_CloseClient :: "'w net \<Rightarrow> server_socket \<Rightarrow> 'w \<Rightarrow> server_socket \<times> 'w" where
  "server_CloseClient N S w = (S\<lparr>client_fd := - 1\<rparr>, net_close N (client_fd S) w)"

definition server_CloseServer :: "'w net \<Rightarrow> server_socket \<Rightarrow> 'w \<Rightarrow> server_socket \<times> 'w" where
  "server_CloseServer N S w =
     (S\<lparr>client_fd := - 1, server_fd := - 1\<rparr>, net_close N (server_fd S) (net_close N (client_fd S) w))"

section \<open>Sending a command to the harness\<close>

text \<open>\<open>ClientCommandSender::Run\<close> and the tools \<open>begin_log\<close>, \<open>end_log\<close> and \<open>begin_tests\<close>, whose exit
  status it is.\<close>

definition sender_Run :: "'w net \<Rightarrow> socket_message \<Rightarrow> string \<Rightarrow> u32 \<Rightarrow> u32 \<Rightarrow> 'w
    \<Rightarrow> (int \<times> client_socket \<times> 'w) option" where
  "sender_Run N junk address send_command return_command w =
     Option.bind (client_Init N (ClientSocket address) w) (\<lambda>(res, C, w1).
       if res < 0 then Some (- 1, C, w1)
       else Option.bind (client_SendCommand N junk C send_command w1) (\<lambda>(e, w2).
         if e \<noteq> kNone then Some (- 2, C, w2)
         else Option.bind (client_WaitForMessage N C junk w2) (\<lambda>(e, ret, w3).
           if e \<noteq> kNone then Some (- 3, C, w3)
           else Some (if msg_type ret = return_command then 1 else 0, C, w3))))"

text \<open>The destructor of the sender closes its socket.\<close>

definition tool_main :: "'w net \<Rightarrow> socket_message \<Rightarrow> u32 \<Rightarrow> u32 \<Rightarrow> 'w \<Rightarrow> (int \<times> 'w) option" where
  "tool_main N junk send_command return_command w =
     map_option (\<lambda>(res, C, w1). (res, net_close N (socket_fd C) w1))
       (sender_Run N junk kSocketNameOutbound send_command return_command w)"

definition begin_log :: "'w net \<Rightarrow> socket_message \<Rightarrow> 'w \<Rightarrow> (int \<times> 'w) option" where
  "begin_log N junk w = tool_main N junk kBeginLog kBeginLogDone w"

definition end_log :: "'w net \<Rightarrow> socket_message \<Rightarrow> 'w \<Rightarrow> (int \<times> 'w) option" where
  "end_log N junk w = tool_main N junk kEndLog kEndLogDone w"

definition begin_tests :: "'w net \<Rightarrow> socket_message \<Rightarrow> 'w \<Rightarrow> (int \<times> 'w) option" where
  "begin_tests N junk w = tool_main N junk kRunTests kRunTestsDone w"

end
