(* ===== verification/Socket_Wire.thy ===== *)
theory Socket_Wire
  imports Sockets
begin

text \<open>
  What the messages promise: what one side writes the other reads, however the stream cuts it up;
  and what happens at the end of a stream, and to a checkpoint whose name fills its words.
\<close>

section \<open>Byte order\<close>

lemma of_mem_bytes [simp]: "of_mem (mem_bytes d) = d"
proof (rule bit_word_eqI)
  fix n assume "n < LENGTH(32)"
  then consider "n < 8" | "8 \<le> n" "n < 16" | "16 \<le> n" "n < 24" | "24 \<le> n" "n < 32"
    by fastforce
  then show "bit (of_mem (mem_bytes d)) n \<longleftrightarrow> bit d n"
    by cases (auto simp: mem_bytes_def bit_simps)
qed

lemma mem_bytes_of [simp]: "mem_bytes (of_mem [a, b, c, d]) = [a, b, c, d]"
  by (auto simp: mem_bytes_def intro!: bit_word_eqI) (auto simp: bit_simps dest!: bit_imp_le_length)

lemma length_mem_bytes [simp]: "length (mem_bytes d) = 4"
  by (simp add: mem_bytes_def)

lemma mem_bytes_htonl: "mem_bytes (htonl d) = rev (mem_bytes d)"
  by (simp add: htonl_def) (simp add: mem_bytes_def [of d] del: of_mem.simps)

lemma ntohl_htonl [simp]: "ntohl (htonl d) = d"
  by (simp add: ntohl_def mem_bytes_htonl)

lemma length_swap_words [simp]: "length (swap_words f bs) = length bs"
  by (induction f bs rule: swap_words.induct) auto

lemma swap_words_back: "4 dvd length bs \<Longrightarrow> swap_words ntohl (swap_words htonl bs) = bs"
proof (induction htonl bs rule: swap_words.induct)
  case (1 a b c d bs)
  obtain w x y z where m: "mem_bytes (htonl (of_mem [a, b, c, d])) = [w, x, y, z]"
    by (simp add: mem_bytes_def)
  have "of_mem [w, x, y, z] = htonl (of_mem [a, b, c, d])"
    unfolding m [symmetric] by simp
  moreover have "4 dvd length bs" using "1.prems" by (simp add: dvd_def) presburger
  ultimately show ?case using "1.hyps" m by (simp del: of_mem.simps)
qed auto

section \<open>A stream\<close>

text \<open>
  One end of a connected stream: what has arrived, what has been sent, and the largest numbers of
  bytes the next calls move (any number when the list is used up, at least one).  Nothing left to
  read is the end of the stream.
\<close>

record stream =
  incoming :: "byte list"
  outgoing :: "byte list"
  chunks :: "nat list"

definition chunk :: "stream \<Rightarrow> nat \<Rightarrow> nat" where
  "chunk s n = (case chunks s of [] \<Rightarrow> n | c # _ \<Rightarrow> min n (max 1 c))"

definition stream_recv :: "nat \<Rightarrow> stream \<Rightarrow> byte list option \<times> stream" where
  "stream_recv n s =
     (Some (take (chunk s n) (incoming s)),
      s\<lparr>incoming := drop (chunk s n) (incoming s), chunks := tl (chunks s)\<rparr>)"

definition stream_send :: "byte list \<Rightarrow> stream \<Rightarrow> nat option \<times> stream" where
  "stream_send d s =
     (Some (chunk s (length d)),
      s\<lparr>outgoing := outgoing s @ take (chunk s (length d)) d, chunks := tl (chunks s)\<rparr>)"

definition stream_net :: "stream net" where
  "stream_net = \<lparr>net_socket = (\<lambda>s. (3, s)), net_connect = (\<lambda>_ _ s. (0, s)), net_bind = (\<lambda>_ _ s. (0, s)),
     net_listen = (\<lambda>_ _ s. (0, s)), net_accept = (\<lambda>_ s. (4, s)), net_recv = (\<lambda>_. stream_recv),
     net_send = (\<lambda>_. stream_send), net_close = (\<lambda>_ s. s), net_unlink = (\<lambda>_ s. s)\<rparr>"

lemma stream_net_simps [simp]:
  "net_recv stream_net fd n s = stream_recv n s" "net_send stream_net fd d s = stream_send d s"
  "net_socket stream_net s = (3, s)" "net_connect stream_net fd p s = (0, s)"
  "net_accept stream_net fd s = (4, s)" "net_close stream_net fd s = s"
  "net_bind stream_net fd p s = (0, s)" "net_listen stream_net fd q s = (0, s)"
  "net_unlink stream_net p s = s"
  by (simp_all add: stream_net_def)

lemma chunk_le: "chunk s n \<le> n"
  by (auto simp: chunk_def split: list.split)

lemma chunk_pos: "0 < n \<Longrightarrow> 0 < chunk s n"
  by (auto simp: chunk_def split: list.split)

lemma recv_loop_stream:
  "incoming s = bs @ rest \<Longrightarrow> bs \<noteq> [] \<Longrightarrow> n = length buf + length bs \<Longrightarrow>
    \<exists>c. recv_loop stream_net fd n buf s = Some (Some (buf @ bs), s\<lparr>incoming := rest, chunks := c\<rparr>)"
proof (induction "length bs" arbitrary: bs buf s rule: less_induct)
  case less
  let ?k = "chunk s (length bs)"
  have k: "?k \<le> length bs" "0 < ?k" using chunk_le chunk_pos less.prems(2) by auto
  let ?s = "s\<lparr>incoming := drop ?k bs @ rest, chunks := tl (chunks s)\<rparr>"
  have step: "recv_loop stream_net fd n buf s =
      (if ?k < length bs then recv_loop stream_net fd n (buf @ take ?k bs) ?s else Some (Some (buf @ take ?k bs), ?s))"
    using less.prems(1,3) k by (subst recv_loop.simps) (simp add: stream_recv_def)
  show ?case
  proof (cases "?k < length bs")
    case True
    then have "\<exists>c. recv_loop stream_net fd n (buf @ take ?k bs) ?s =
        Some (Some ((buf @ take ?k bs) @ drop ?k bs), ?s\<lparr>incoming := rest, chunks := c\<rparr>)"
      using k less.prems(3) by (intro less.hyps) auto
    with True step show ?thesis by auto
  next
    case False
    then have "?k = length bs" using k(1) by simp
    with False step show ?thesis by (auto intro!: exI [of _ "tl (chunks s)"])
  qed
qed

lemma send_loop_stream:
  "k < length d \<Longrightarrow>
    \<exists>c. send_loop stream_net fd d k s = Some (True, s\<lparr>outgoing := outgoing s @ drop k d, chunks := c\<rparr>)"
proof (induction "length d - k" arbitrary: k s rule: less_induct)
  case less
  let ?k = "chunk s (length d - k)"
  have k: "?k \<le> length d - k" "0 < ?k" using chunk_le chunk_pos less.prems by auto
  let ?s = "s\<lparr>outgoing := outgoing s @ take ?k (drop k d), chunks := tl (chunks s)\<rparr>"
  have step: "send_loop stream_net fd d k s =
      (if k + ?k < length d then send_loop stream_net fd d (k + ?k) ?s else Some (True, ?s))"
    by (subst send_loop.simps) (simp add: stream_send_def)
  show ?case
  proof (cases "k + ?k < length d")
    case True
    then have "\<exists>c. send_loop stream_net fd d (k + ?k) ?s =
        Some (True, ?s\<lparr>outgoing := outgoing ?s @ drop (k + ?k) d, chunks := c\<rparr>)"
      using k by (intro less.hyps) linarith+
    moreover have "take ?k (drop k d) @ drop (k + ?k) d = drop k d"
      by (metis add.commute append_take_drop_id drop_drop)
    ultimately show ?thesis using True step by auto
  next
    case False
    then have "?k = length d - k" using k(1) less.prems by linarith
    with False step show ?thesis by (auto intro!: exI [of _ "tl (chunks s)"])
  qed
qed

section \<open>Codecs\<close>

text \<open>
  What a pair of a writing and a reading operation promises: a valid value is written as its bytes,
  and read from them, whatever the chunks.
\<close>

locale codec =
  fixes put :: "'a \<Rightarrow> stream \<Rightarrow> (bool \<times> stream) option"
    and get :: "stream \<Rightarrow> ('a option \<times> stream) option"
    and bytes :: "'a \<Rightarrow> byte list"
    and valid :: "'a \<Rightarrow> bool"
  assumes put_bytes: "valid x \<Longrightarrow>
      \<exists>c. put x s = Some (True, s\<lparr>outgoing := outgoing s @ bytes x, chunks := c\<rparr>)"
    and get_bytes: "valid x \<Longrightarrow> incoming s = bytes x @ rest \<Longrightarrow>
      \<exists>c. get s = Some (Some x, s\<lparr>incoming := rest, chunks := c\<rparr>)"
begin

text \<open>Several values, one after the other.\<close>

fun put_all :: "'a list \<Rightarrow> stream \<Rightarrow> (bool \<times> stream) option" where
  "put_all [] s = Some (True, s)"
| "put_all (x # xs) s =
     Option.bind (put x s) (\<lambda>(ok, s1). if ok then put_all xs s1 else Some (False, s1))"

fun get_all :: "nat \<Rightarrow> stream \<Rightarrow> ('a list option \<times> stream) option" where
  "get_all 0 s = Some (Some [], s)"
| "get_all (Suc n) s =
     Option.bind (get s) (\<lambda>(x, s1).
       case x of
         None \<Rightarrow> Some (None, s1)
       | Some x \<Rightarrow> map_option (\<lambda>(xs, s2). (map_option ((#) x) xs, s2)) (get_all n s1))"

lemma put_all_bytes:
  "\<forall>x\<in>set xs. valid x \<Longrightarrow>
    \<exists>c. put_all xs s = Some (True, s\<lparr>outgoing := outgoing s @ concat (map bytes xs), chunks := c\<rparr>)"
proof (induction xs arbitrary: s)
  case Nil
  then show ?case by (auto intro!: exI [of _ "chunks s"])
next
  case (Cons x xs)
  obtain c where c: "put x s = Some (True, s\<lparr>outgoing := outgoing s @ bytes x, chunks := c\<rparr>)"
    using put_bytes [of x s] Cons.prems by auto
  have "\<forall>x\<in>set xs. valid x" using Cons.prems by simp
  from Cons.IH [OF this, of "s\<lparr>outgoing := outgoing s @ bytes x, chunks := c\<rparr>"] c
  show ?case by auto
qed

lemma get_all_bytes:
  "\<forall>x\<in>set xs. valid x \<Longrightarrow> incoming s = concat (map bytes xs) @ rest \<Longrightarrow>
    \<exists>c. get_all (length xs) s = Some (Some xs, s\<lparr>incoming := rest, chunks := c\<rparr>)"
proof (induction xs arbitrary: s)
  case Nil
  then show ?case by (auto intro!: exI [of _ "chunks s"])
next
  case (Cons x xs)
  have "incoming s = bytes x @ (concat (map bytes xs) @ rest)" using Cons.prems(2) by simp
  then obtain c where c: "get s = Some (Some x, s\<lparr>incoming := concat (map bytes xs) @ rest, chunks := c\<rparr>)"
    using get_bytes Cons.prems(1) by (metis list.set_intros(1))
  have "\<forall>x\<in>set xs. valid x" using Cons.prems by simp
  from Cons.IH [OF this, of "s\<lparr>incoming := concat (map bytes xs) @ rest, chunks := c\<rparr>"] c
  show ?case by auto
qed

text \<open>What one end has sent arrives at the other end, in whatever chunks, as it was.\<close>

lemma transfer:
  assumes "\<forall>x\<in>set xs. valid x"
  shows "\<exists>s' r'. put_all xs s = Some (True, s') \<and> incoming s' = incoming s \<and>
    outgoing s' = outgoing s @ concat (map bytes xs) \<and>
    get_all (length xs) \<lparr>incoming = concat (map bytes xs) @ rest, outgoing = q, chunks = cs\<rparr>
      = Some (Some xs, r') \<and> incoming r' = rest \<and> outgoing r' = q"
  using put_all_bytes [OF assms, of s]
    get_all_bytes [OF assms, of "\<lparr>incoming = concat (map bytes xs) @ rest, outgoing = q, chunks = cs\<rparr>" rest]
  by auto

end

text \<open>The integers of the code, and its strings behind their length.\<close>

interpretation int_codec: codec "\<lambda>d s. WriteIntToSocket stream_net fd d s"
  "\<lambda>s. ReadIntFromSocket stream_net fd' s" "\<lambda>d. rev (mem_bytes d)" "\<lambda>_. True" for fd fd'
proof unfold_locales
  fix d :: u32 and s
  show "\<exists>c. WriteIntToSocket stream_net fd d s =
      Some (True, s\<lparr>outgoing := outgoing s @ rev (mem_bytes d), chunks := c\<rparr>)"
    using send_loop_stream [of 0 "mem_bytes (htonl d)" fd s]
    by (simp add: WriteIntToSocket_def mem_bytes_htonl)
next
  fix d :: u32 and s :: stream and rest
  assume "incoming s = rev (mem_bytes d) @ rest"
  moreover have "rev (mem_bytes d) \<noteq> []" by (simp add: mem_bytes_def)
  ultimately show "\<exists>c. ReadIntFromSocket stream_net fd' s =
      Some (Some d, s\<lparr>incoming := rest, chunks := c\<rparr>)"
    using recv_loop_stream [of s "rev (mem_bytes d)" rest 4 "[]" fd']
    by (auto simp: ReadIntFromSocket_def mem_bytes_htonl [symmetric])
qed

section \<open>Strings\<close>

text \<open>
  The strings that survive: without a zero byte, and of a length that leaves room for one in the
  last word.
\<close>

definition fits_words :: "byte list \<Rightarrow> bool" where
  "fits_words str \<longleftrightarrow> 0 \<notin> set str \<and> length str mod 4 \<noteq> 0 \<and> length str < 2 ^ 31"

definition padded :: "byte list \<Rightarrow> byte list" where
  "padded str = str @ replicate (round_up (length str) - length str) 0"

lemma round_up_bounds: "n \<le> round_up n" "round_up n < n + 4" "4 dvd round_up n"
  by (auto simp: round_up_def)

lemma round_up_more: "n mod 4 \<noteq> 0 \<Longrightarrow> n < round_up n"
  using round_up_bounds [of n] by (metis dvd_imp_mod_0 le_neq_implies_less)

lemma round_up_exact: "n mod 4 = 0 \<Longrightarrow> round_up n = n"
  by (auto simp: round_up_def)

lemma no_zero_string: "0 \<notin> set str \<Longrightarrow> takeWhile (\<lambda>b. b \<noteq> 0) str = str"
  by (simp add: takeWhile_eq_all_conv) metis

lemma send_buffer_fits: "fits_words str \<Longrightarrow> send_buffer str = Some (padded str)"
  using round_up_more [of "length str"]
  by (simp add: fits_words_def send_buffer_def padded_def no_zero_string Let_def)

lemma padded_facts:
  assumes "fits_words str"
  shows "length (padded str) = round_up (length str)" "c_string_of (padded str) = Some str"
    "round_up (length str) < 2 ^ 32" "padded str \<noteq> []"
proof -
  have m: "length str < round_up (length str)" using assms round_up_more by (simp add: fits_words_def)
  then show "length (padded str) = round_up (length str)" by (simp add: padded_def)
  have "takeWhile (\<lambda>b. b \<noteq> 0) (padded str) = str"
    using assms m by (simp add: padded_def fits_words_def takeWhile_append takeWhile_replicate)
  then show "c_string_of (padded str) = Some str"
    using m by (simp add: c_string_of_def padded_def)
  have "length str < 2147483648" using assms by (simp add: fits_words_def)
  then show "round_up (length str) < 2 ^ 32" using round_up_bounds(2) [of "length str"] by simp
  show "padded str \<noteq> []" using m by (simp add: padded_def)
qed

definition string_bytes :: "byte list \<Rightarrow> byte list" where
  "string_bytes str = rev (mem_bytes (word_of_nat (round_up (length str)))) @ swap_words htonl (padded str)"

lemma write_string_stream:
  assumes "fits_words str"
  shows "\<exists>c. WriteStringToSocket stream_net fd str s =
    Some (True, s\<lparr>outgoing := outgoing s @ string_bytes str, chunks := c\<rparr>)"
proof -
  let ?n = "word_of_nat (round_up (length str)) :: u32"
  obtain c where c: "WriteIntToSocket stream_net fd ?n s =
      Some (True, s\<lparr>outgoing := outgoing s @ rev (mem_bytes ?n), chunks := c\<rparr>)"
    using int_codec.put_bytes [of fd ?n s] by auto
  have "0 < length (swap_words htonl (padded str))" using padded_facts(4) [OF assms] by simp
  from send_loop_stream [OF this, of fd "s\<lparr>outgoing := outgoing s @ rev (mem_bytes ?n), chunks := c\<rparr>"]
  show ?thesis
    using c send_buffer_fits [OF assms] padded_facts(1) [OF assms]
    by (auto simp: WriteStringToSocket_def string_bytes_def)
qed

lemma read_string_stream:
  assumes "fits_words str" "incoming s = swap_words htonl (padded str) @ rest"
  shows "\<exists>c. ReadStringFromSocket stream_net fd (round_up (length str)) s =
    Some (Some str, s\<lparr>incoming := rest, chunks := c\<rparr>)"
proof -
  note p = padded_facts [OF assms(1)]
  have "swap_words htonl (padded str) \<noteq> []" using p(4) by (metis length_0_conv length_swap_words)
  then obtain c where "recv_loop stream_net fd (round_up (length str)) [] s =
      Some (Some ([] @ swap_words htonl (padded str)), s\<lparr>incoming := rest, chunks := c\<rparr>)"
    using recv_loop_stream [OF assms(2), of "round_up (length str)" "[]" fd] p(1) by auto
  moreover have "swap_words ntohl (swap_words htonl (padded str)) = padded str"
    using swap_words_back [of "padded str"] p(1) round_up_bounds(3) by simp
  moreover have "round_up (length str) mod 4 = 0" using round_up_bounds(3) by (simp add: dvd_imp_mod_0)
  ultimately show ?thesis by (auto simp: ReadStringFromSocket_def p(2))
qed

definition read_sized_string :: "int \<Rightarrow> stream \<Rightarrow> (byte list option \<times> stream) option" where
  "read_sized_string fd s =
     Option.bind (ReadIntFromSocket stream_net fd s) (\<lambda>(n, s1).
       case n of None \<Rightarrow> Some (None, s1) | Some n \<Rightarrow> ReadStringFromSocket stream_net fd (unat n) s1)"

interpretation string_codec: codec "\<lambda>str s. WriteStringToSocket stream_net fd str s"
  "\<lambda>s. read_sized_string fd' s" string_bytes fits_words for fd fd'
proof unfold_locales
  fix str and s :: stream and rest
  assume f: "fits_words str" and i: "incoming s = string_bytes str @ rest"
  let ?n = "word_of_nat (round_up (length str)) :: u32"
  have n: "unat ?n = round_up (length str)"
    using padded_facts(3) [OF f] by (simp add: unat_of_nat take_bit_nat_eq_self)
  have "incoming s = rev (mem_bytes ?n) @ (swap_words htonl (padded str) @ rest)"
    using i by (simp add: string_bytes_def)
  from int_codec.get_bytes [OF TrueI this, of fd']
  obtain c where c: "ReadIntFromSocket stream_net fd' s =
      Some (Some ?n, s\<lparr>incoming := swap_words htonl (padded str) @ rest, chunks := c\<rparr>)" by blast
  show "\<exists>c. read_sized_string fd' s = Some (Some str, s\<lparr>incoming := rest, chunks := c\<rparr>)"
    using read_string_stream [OF f, of "s\<lparr>incoming := swap_words htonl (padded str) @ rest, chunks := c\<rparr>"
        rest fd'] c n by (auto simp: read_sized_string_def)
qed (use write_string_stream in blast)

section \<open>Messages\<close>

text \<open>
  The messages of the protocol, as \<open>ReadMessageFromSocket\<close> fills them in over what the structure
  held before, \<open>junk\<close>: a command without data, or a checkpoint with its name.
\<close>

definition message_ok :: "socket_message \<Rightarrow> socket_message \<Rightarrow> bool" where
  "message_ok junk m \<longleftrightarrow>
     (if is_control (msg_type m) then m = junk\<lparr>msg_type := msg_type m, msg_size := 0\<rparr>
      else msg_type m = kCheckpoint \<and> fits_words (string_value m) \<and>
        m = junk\<lparr>msg_type := kCheckpoint, msg_size := word_of_nat (round_up (length (string_value m))),
                 string_value := string_value m\<rparr>)"

definition message_bytes :: "socket_message \<Rightarrow> byte list" where
  "message_bytes m = rev (mem_bytes (msg_type m)) @
     (if is_control (msg_type m) then rev (mem_bytes 0) else string_bytes (string_value m))"

lemma checkpoint_not_control [simp]: "\<not> is_control kCheckpoint"
  by (simp add: is_control_def commands)

lemma write_message_stream:
  assumes "message_ok junk m"
  shows "\<exists>c. WriteMessageToSocket stream_net fd m s =
    Some (True, s\<lparr>outgoing := outgoing s @ message_bytes m, chunks := c\<rparr>)"
proof -
  obtain c where c: "WriteIntToSocket stream_net fd (msg_type m) s =
      Some (True, s\<lparr>outgoing := outgoing s @ rev (mem_bytes (msg_type m)), chunks := c\<rparr>)"
    using int_codec.put_bytes [of fd "msg_type m" s] by auto
  let ?s = "s\<lparr>outgoing := outgoing s @ rev (mem_bytes (msg_type m)), chunks := c\<rparr>"
  show ?thesis
  proof (cases "is_control (msg_type m)")
    case True
    then show ?thesis
      using c int_codec.put_bytes [of fd 0 ?s] by (auto simp: WriteMessageToSocket_def message_bytes_def)
  next
    case False
    then have "msg_type m = kCheckpoint" "fits_words (string_value m)"
      using assms by (auto simp: message_ok_def)
    then show ?thesis
      using c write_string_stream [of "string_value m" fd ?s]
      by (auto simp: WriteMessageToSocket_def message_bytes_def)
  qed
qed

lemma read_int_stream:
  assumes "incoming s = rev (mem_bytes d) @ rest"
  obtains c where "ReadIntFromSocket stream_net fd s = Some (Some d, s\<lparr>incoming := rest, chunks := c\<rparr>)"
  using int_codec.get_bytes [OF TrueI assms, of fd] by blast

lemma read_message_stream:
  assumes "message_ok junk m" "incoming s = message_bytes m @ rest"
  shows "\<exists>c. ReadMessageFromSocket stream_net fd junk s =
    Some (True, m, s\<lparr>incoming := rest, chunks := c\<rparr>)"
proof (cases "is_control (msg_type m)")
  case True
  let ?r = "rev (mem_bytes 0) @ rest"
  have "incoming s = rev (mem_bytes (msg_type m)) @ ?r"
    using assms(2) True by (simp add: message_bytes_def)
  then obtain c where c: "ReadIntFromSocket stream_net fd s =
      Some (Some (msg_type m), s\<lparr>incoming := ?r, chunks := c\<rparr>)" by (rule read_int_stream)
  have "incoming (s\<lparr>incoming := ?r, chunks := c\<rparr>) = ?r" by simp
  then obtain c2 where "ReadIntFromSocket stream_net fd (s\<lparr>incoming := ?r, chunks := c\<rparr>) =
      Some (Some 0, s\<lparr>incoming := ?r, chunks := c\<rparr>\<lparr>incoming := rest, chunks := c2\<rparr>)" by (rule read_int_stream)
  then show ?thesis using c True assms(1) by (auto simp: ReadMessageFromSocket_def message_ok_def)
next
  case False
  then have k: "msg_type m = kCheckpoint" and f: "fits_words (string_value m)"
    using assms(1) by (auto simp: message_ok_def)
  let ?len = "round_up (length (string_value m))"
  let ?n = "word_of_nat ?len :: u32"
  let ?r2 = "swap_words htonl (padded (string_value m)) @ rest"
  let ?r = "rev (mem_bytes ?n) @ ?r2"
  have n: "unat ?n = ?len"
    using padded_facts(3) [OF f] by (simp add: unat_of_nat take_bit_nat_eq_self)
  have "incoming s = rev (mem_bytes kCheckpoint) @ ?r"
    using assms(2) False k by (simp add: message_bytes_def string_bytes_def)
  then obtain c where c: "ReadIntFromSocket stream_net fd s =
      Some (Some kCheckpoint, s\<lparr>incoming := ?r, chunks := c\<rparr>)" by (rule read_int_stream)
  have "incoming (s\<lparr>incoming := ?r, chunks := c\<rparr>) = ?r" by simp
  then obtain c2 where c2: "ReadIntFromSocket stream_net fd (s\<lparr>incoming := ?r, chunks := c\<rparr>) =
      Some (Some ?n, s\<lparr>incoming := ?r, chunks := c\<rparr>\<lparr>incoming := ?r2, chunks := c2\<rparr>)" by (rule read_int_stream)
  obtain c3 where "ReadStringFromSocket stream_net fd ?len (s\<lparr>incoming := ?r2, chunks := c2\<rparr>) =
      Some (Some (string_value m), s\<lparr>incoming := ?r2, chunks := c2\<rparr>\<lparr>incoming := rest, chunks := c3\<rparr>)"
    using read_string_stream [OF f, of "s\<lparr>incoming := ?r2, chunks := c2\<rparr>" rest fd] by auto
  moreover have "junk\<lparr>msg_type := kCheckpoint, msg_size := ?n, string_value := string_value m\<rparr> = m"
    using assms(1) False by (simp add: message_ok_def)
  ultimately show ?thesis using c c2 by (auto simp: ReadMessageFromSocket_def n)
qed

interpretation message_codec: codec "\<lambda>m s. WriteMessageToSocket stream_net fd m s"
  "\<lambda>s. map_option (\<lambda>(ok, m, s1). (if ok then Some m else None, s1)) (ReadMessageFromSocket stream_net fd' junk s)"
  message_bytes "message_ok junk" for fd fd' junk
proof unfold_locales
  fix m and s :: stream and rest
  assume "message_ok junk m" "incoming s = message_bytes m @ rest"
  from read_message_stream [OF this, of fd'] show "\<exists>c. map_option
      (\<lambda>(ok, m, s1). (if ok then Some m else None, s1)) (ReadMessageFromSocket stream_net fd' junk s) =
      Some (Some m, s\<lparr>incoming := rest, chunks := c\<rparr>)" by auto
qed (use write_message_stream in blast)


definition sample_message :: socket_message where
  "sample_message = \<lparr>msg_type = 0, msg_size = 0, int_value = 0, string_value = []\<rparr>"

definition checkpoint_message :: "byte list \<Rightarrow> socket_message" where
  "checkpoint_message str = \<lparr>msg_type = kCheckpoint, msg_size = word_of_nat (round_up (length str)),
     int_value = 0, string_value = str\<rparr>"


section \<open>Where the protocol breaks\<close>

text \<open>
  C38: a checkpoint whose name fills its words exactly cannot be sent: after the type has been
  written the zero byte of the copied name is written past the end of the buffer.
\<close>

theorem full_name_overflows:
  assumes "msg_type m = kCheckpoint" "0 \<notin> set (string_value m)" "length (string_value m) mod 4 = 0"
    "WriteIntToSocket N fd kCheckpoint w = Some (True, w1)"
  shows "WriteMessageToSocket N fd m w = None"
proof -
  have "send_buffer (string_value m) = None"
    using assms(2,3) by (simp add: send_buffer_def no_zero_string round_up_exact Let_def)
  then show ?thesis using assms(1,4) by (simp add: WriteMessageToSocket_def WriteStringToSocket_def)
qed

theorem full_name_overflows_witness:
  "WriteMessageToSocket stream_net 5 (checkpoint_message [1, 2, 3, 4])
     \<lparr>incoming = [], outgoing = [], chunks = []\<rparr> = None"
proof -
  obtain c where c: "WriteIntToSocket stream_net 5 kCheckpoint \<lparr>incoming = [], outgoing = [], chunks = []\<rparr> =
      Some (True, \<lparr>incoming = [], outgoing = [] @ rev (mem_bytes kCheckpoint), chunks = c\<rparr>)"
    using int_codec.put_bytes [of 5 kCheckpoint "\<lparr>incoming = [], outgoing = [], chunks = []\<rparr>"] by auto
  show ?thesis
    by (rule full_name_overflows [OF _ _ _ c]) (simp_all add: checkpoint_message_def)
qed

lemma recv_loop_enough:
  assumes "recv_loop N fd n buf s = Some r" "N = stream_net"
  shows "n \<le> length buf + length (incoming s)"
proof -
  have "N = stream_net \<longrightarrow> n \<le> length buf + length (incoming s)"
  proof (rule recv_loop.raw_induct [where P = "\<lambda>N fd n buf s r. N = stream_net \<longrightarrow>
        n \<le> length buf + length (incoming s)", OF _ assms(1)])
    fix f and N :: "stream net" and fd n buf s r
    assume IH: "\<And>N fd n buf s r. f N fd n buf s = Some r \<Longrightarrow>
        N = stream_net \<longrightarrow> n \<le> length buf + length (incoming s)"
      and eq: "(case net_recv N fd (n - length buf) s of
          (None, w1) \<Rightarrow> Some (None, w1)
        | (Some bs, w1) \<Rightarrow>
            if length (buf @ bs) < n then f N fd n (buf @ bs) w1 else Some (Some (buf @ bs), w1)) = Some r"
    let ?k = "chunk s (n - length buf)"
    show "N = stream_net \<longrightarrow> n \<le> length buf + length (incoming s)"
    proof
      assume N: "N = stream_net"
      show "n \<le> length buf + length (incoming s)"
      proof (cases "length (buf @ take ?k (incoming s)) < n")
        case True
        then have "f stream_net fd n (buf @ take ?k (incoming s))
            (s\<lparr>incoming := drop ?k (incoming s), chunks := tl (chunks s)\<rparr>) = Some r"
          using eq N by (simp add: stream_recv_def)
        from IH [OF this] show ?thesis by simp
      next
        case False
        then show ?thesis by simp
      qed
    qed
  qed
  then show ?thesis using assms(2) by simp
qed

text \<open>
  A peer that closes its end before a whole message has been sent makes the reader spin: \<open>recv\<close>
  returns 0 from then on, which the loops do not take for the end, and \<open>ReadMessageFromSocket\<close>
  does not return.
\<close>

theorem closed_peer_hangs_reader:
  assumes "length (incoming s) < 8"
  shows "ReadMessageFromSocket stream_net fd m s = None"
proof (cases "length (incoming s) < 4")
  case True
  then have "recv_loop stream_net fd 4 [] s = None"
    using recv_loop_enough [of stream_net fd 4 "[]" s] by (cases "recv_loop stream_net fd 4 [] s") auto
  then show ?thesis by (simp add: ReadMessageFromSocket_def ReadIntFromSocket_def)
next
  case False
  let ?bs = "take 4 (incoming s)" and ?rest = "drop 4 (incoming s)"
  have "incoming s = ?bs @ ?rest" "?bs \<noteq> []" using False by auto
  from recv_loop_stream [OF this, of 4 "[]" fd] False
  obtain c where c: "recv_loop stream_net fd 4 [] s = Some (Some ?bs, s\<lparr>incoming := ?rest, chunks := c\<rparr>)"
    by auto
  have "recv_loop stream_net fd 4 [] (s\<lparr>incoming := ?rest, chunks := c\<rparr>) = None"
    using recv_loop_enough [of stream_net fd 4 "[]" "s\<lparr>incoming := ?rest, chunks := c\<rparr>"] assms
    by (cases "recv_loop stream_net fd 4 [] (s\<lparr>incoming := ?rest, chunks := c\<rparr>)") auto
  then show ?thesis using c by (simp add: ReadMessageFromSocket_def ReadIntFromSocket_def Let_def)
qed

theorem closed_peer_hangs_reader_witness:
  "ReadMessageFromSocket stream_net 5 sample_message \<lparr>incoming = [0, 0, 0, 4], outgoing = [], chunks = []\<rparr>
    = None"
  by (rule closed_peer_hangs_reader) simp

text \<open>
  A tool sends its command and waits for the answer. Its exit status is 1 if the answer is the
  expected one and 0, success to a shell, if it is another.
\<close>

theorem tool_exit_status:
  assumes "is_control send_command" "message_ok junk m" "incoming s = message_bytes m @ rest"
  shows "\<exists>c. tool_main stream_net junk send_command return_command s =
    Some (if msg_type m = return_command then 1 else 0,
      s\<lparr>outgoing := outgoing s @ rev (mem_bytes send_command) @ rev (mem_bytes 0), incoming := rest,
        chunks := c\<rparr>)"
proof -
  let ?m = "junk\<lparr>msg_type := send_command, msg_size := 0\<rparr>"
  have "message_ok junk ?m" using assms(1) by (simp add: message_ok_def)
  from write_message_stream [OF this, of 3 s] obtain c where
    c: "WriteMessageToSocket stream_net 3 ?m s =
      Some (True, s\<lparr>outgoing := outgoing s @ message_bytes ?m, chunks := c\<rparr>)" by blast
  have "incoming (s\<lparr>outgoing := outgoing s @ message_bytes ?m, chunks := c\<rparr>) = message_bytes m @ rest"
    using assms(3) by simp
  from read_message_stream [OF assms(2) this, of 3] obtain c2 where
    "ReadMessageFromSocket stream_net 3 junk (s\<lparr>outgoing := outgoing s @ message_bytes ?m, chunks := c\<rparr>) =
      Some (True, m, s\<lparr>outgoing := outgoing s @ message_bytes ?m, chunks := c\<rparr>\<lparr>incoming := rest, chunks := c2\<rparr>)"
    by blast
  moreover have "sun_path_fits kSocketNameOutbound"
    by (simp add: sun_path_fits_def kSocketNameOutbound_def sun_path_size_def)
  moreover have "message_bytes ?m = rev (mem_bytes send_command) @ rev (mem_bytes 0)"
    using assms(1) by (simp add: message_bytes_def)
  ultimately show ?thesis
    using c by (auto simp: tool_main_def sender_Run_def client_Init_def ClientSocket_def
        client_SendCommand_def client_SendMessage_def client_WaitForMessage_def Let_def)
qed

theorem tool_exit_status_witness:
  "\<exists>c. tool_main stream_net sample_message kBeginLog kBeginLogDone
      \<lparr>incoming = message_bytes (sample_message\<lparr>msg_type := kInvalidCommand\<rparr>), outgoing = [], chunks = []\<rparr> =
    Some (0, \<lparr>incoming = [], outgoing = rev (mem_bytes kBeginLog) @ rev (mem_bytes 0), chunks = c\<rparr>)"
proof -
  have "is_control kBeginLog" "message_ok sample_message (sample_message\<lparr>msg_type := kInvalidCommand\<rparr>)"
    by (simp_all add: is_control_def commands message_ok_def sample_message_def)
  from tool_exit_status [OF this, of
      "\<lparr>incoming = message_bytes (sample_message\<lparr>msg_type := kInvalidCommand\<rparr>), outgoing = [], chunks = []\<rparr>" "[]"
      kBeginLogDone]
  show ?thesis by (simp add: commands)
qed

end
