(* ===== verification/Class_Loader.thy ===== *)
theory Class_Loader
  imports Prelude
begin

text \<open>
  \<open>ClassLoader\<close> of \<open>code/utils/ClassLoader.h\<close>: a test case or a permuter from a shared object.
  Handles, functions and objects are pointers, with 0 for \<open>NULL\<close>.  The dynamic linker is the
  argument \<open>DL\<close>, with the state \<open>'d\<close> of the process: the objects that are open and the instances
  that exist.  \<open>dl_sym\<close> also says whether \<open>dlerror\<close> reports an error.
\<close>

record 'd dl_api =
  dl_open :: "string \<Rightarrow> 'd \<Rightarrow> nat \<times> 'd"
  dl_sym :: "nat \<Rightarrow> string \<Rightarrow> 'd \<Rightarrow> nat \<times> bool \<times> 'd"
  dl_close :: "nat \<Rightarrow> 'd \<Rightarrow> 'd"
  dl_make :: "nat \<Rightarrow> 'd \<Rightarrow> nat \<times> 'd"
  dl_destroy :: "nat \<Rightarrow> nat \<Rightarrow> 'd \<Rightarrow> 'd"

definition CASE_HANDLE_ERR :: int where "CASE_HANDLE_ERR = - 1"
definition CASE_INIT_ERR :: int where "CASE_INIT_ERR = - 2"
definition CASE_DEST_ERR :: int where "CASE_DEST_ERR = - 3"

lemmas loader_codes = CASE_HANDLE_ERR_def CASE_INIT_ERR_def CASE_DEST_ERR_def

record class_loader =
  loader_handle :: nat
  factory :: nat
  defactory :: nat
  instance_ptr :: nat

definition no_class :: class_loader where
  "no_class = \<lparr>loader_handle = 0, factory = 0, defactory = 0, instance_ptr = 0\<rparr>"

definition load_class :: "'d dl_api \<Rightarrow> class_loader \<Rightarrow> string \<Rightarrow> string \<Rightarrow> string \<Rightarrow> 'd
    \<Rightarrow> int \<times> class_loader \<times> 'd" where
  "load_class DL L path factory_name defactory_name d =
     (let (h, d1) = dl_open DL path d; L1 = L\<lparr>loader_handle := h\<rparr> in
      if h = 0 then (CASE_HANDLE_ERR, L1, d1)
      else
        (let (f, err, d2) = dl_sym DL h factory_name d1 in
         if err
         then (CASE_INIT_ERR, L1\<lparr>factory := 0, defactory := 0, loader_handle := 0\<rparr>, dl_close DL h d2)
         else
           (let (df, err', d3) = dl_sym DL h defactory_name d2 in
            if err'
            then (CASE_DEST_ERR, L1\<lparr>factory := 0, defactory := 0, loader_handle := 0\<rparr>,
                  dl_close DL h d3)
            else
              (let (i, d4) = dl_make DL f d3
               in (0, L1\<lparr>factory := f, defactory := df, instance_ptr := i\<rparr>, d4)))))"

definition unload_class :: "'d dl_api \<Rightarrow> class_loader \<Rightarrow> 'd \<Rightarrow> class_loader \<times> 'd" where
  "unload_class DL L d =
     (if loader_handle L \<noteq> 0 \<and> instance_ptr L \<noteq> 0 then
        (no_class, dl_close DL (loader_handle L) (dl_destroy DL (defactory L) (instance_ptr L) d))
      else (L, d))"

definition get_instance :: "class_loader \<Rightarrow> nat" where
  "get_instance L = instance_ptr L"

text \<open>The wrappers of \<open>code/harness/Tester.cpp\<close> for the two classes it loads.\<close>

abbreviation TEST_CLASS_FACTORY :: string where "TEST_CLASS_FACTORY \<equiv> ''test_case_get_instance''"
abbreviation TEST_CLASS_DEFACTORY :: string where "TEST_CLASS_DEFACTORY \<equiv> ''test_case_delete_instance''"
abbreviation PERMUTER_CLASS_FACTORY :: string where "PERMUTER_CLASS_FACTORY \<equiv> ''permuter_get_instance''"
abbreviation PERMUTER_CLASS_DEFACTORY :: string where
  "PERMUTER_CLASS_DEFACTORY \<equiv> ''permuter_delete_instance''"

abbreviation test_load_class :: "'d dl_api \<Rightarrow> class_loader \<Rightarrow> string \<Rightarrow> 'd \<Rightarrow> int \<times> class_loader \<times> 'd" where
  "test_load_class DL L path d \<equiv> load_class DL L path TEST_CLASS_FACTORY TEST_CLASS_DEFACTORY d"

abbreviation permuter_load_class :: "'d dl_api \<Rightarrow> class_loader \<Rightarrow> string \<Rightarrow> 'd \<Rightarrow> int \<times> class_loader \<times> 'd" where
  "permuter_load_class DL L path d \<equiv> load_class DL L path PERMUTER_CLASS_FACTORY PERMUTER_CLASS_DEFACTORY d"

abbreviation test_unload_class :: "'d dl_api \<Rightarrow> class_loader \<Rightarrow> 'd \<Rightarrow> class_loader \<times> 'd" where
  "test_unload_class DL L d \<equiv> unload_class DL L d"

abbreviation permuter_unload_class :: "'d dl_api \<Rightarrow> class_loader \<Rightarrow> 'd \<Rightarrow> class_loader \<times> 'd" where
  "permuter_unload_class DL L d \<equiv> unload_class DL L d"

section \<open>Open objects and instances are balanced\<close>

text \<open>
  A linker that counts: how many handles are open and how many instances exist.  \<open>ok\<close> says which
  paths and symbols there are.
\<close>

definition counting_dl :: "(string \<Rightarrow> bool) \<Rightarrow> (string \<Rightarrow> bool) \<Rightarrow> (int \<times> int) dl_api" where
  "counting_dl path_ok sym_ok =
     \<lparr>dl_open = (\<lambda>p (h, i). if path_ok p then (1, (h + 1, i)) else (0, (h, i))),
      dl_sym = (\<lambda>h s d. if sym_ok s then (2, False, d) else (0, True, d)),
      dl_close = (\<lambda>h (n, i). (n - 1, i)),
      dl_make = (\<lambda>f (h, i). (3, (h, i + 1))),
      dl_destroy = (\<lambda>f p (h, i). (h, i - 1))\<rparr>"

text \<open>
  a failed load leaves no handle open and no instance behind, and loading and then unloading
  a class closes exactly what was opened, destroys exactly what was made, and leaves the loader
  as it was.
\<close>

theorem load_unload_balanced:
  "\<exists>r L' d'. load_class (counting_dl P S) no_class path f df d = (r, L', d') \<and>
     (r = 0) = (P path \<and> S f \<and> S df) \<and>
     (if r = 0 then d' = (fst d + 1, snd d + 1) else d' = d \<and> L' = no_class) \<and>
     unload_class (counting_dl P S) L' d' = (no_class, d)"
  by (cases d)
    (auto simp: load_class_def unload_class_def counting_dl_def no_class_def loader_codes Let_def)

end
