(* ===== verification/Harness.thy ===== *)
theory Harness
  imports Tester Sockets Class_Loader
begin

text \<open>
  \<open>code/harness/c_harness.cpp\<close>: the main program, phase by phase.

  The environment \<open>E\<close> holds what the program calls: the operating system, the network and the
  dynamic linker over one state \<open>'w\<close> of the world, the random numbers and the test case.  A step
  of the program either goes on or returns an exit code from \<open>main\<close>; \<open>None\<close> says that a call does
  not return, or that the program faults.  Forking a child that runs the test case is one call: it
  gives what \<open>fork\<close> returns to the parent and the status \<open>wait\<close> finds.  Not modelled: the progress
  messages and the sleeps; the timing statistics are in \<open>Tester_Timing\<close>.
\<close>

section \<open>Steps\<close>

type_synonym 's step = "'s \<Rightarrow> (int option \<times> 's) option"

fun run_steps :: "'s step list \<Rightarrow> 's step" where
  "run_steps [] H = Some (None, H)"
| "run_steps (f # fs) H =
     Option.bind (f H) (\<lambda>(code, H1). case code of None \<Rightarrow> run_steps fs H1 | Some c \<Rightarrow> Some (Some c, H1))"

text \<open>An operation whose failure ends the program after \<open>on_fail\<close>.\<close>

definition or_fail :: "('s \<Rightarrow> 's) \<Rightarrow> ('s \<Rightarrow> (int \<times> 's) option) \<Rightarrow> 's step" where
  "or_fail on_fail f H =
     map_option (\<lambda>(res, H1). if res \<noteq> SUCCESS then (Some (- 1), on_fail H1) else (None, H1)) (f H)"

definition go_on :: "('s \<Rightarrow> 's) \<Rightarrow> 's step" where
  "go_on f H = Some (None, f H)"

section \<open>Options\<close>

record options =
  opt_fs_type :: string
  opt_flags_dev :: string
  opt_test_dev :: string
  opt_mount_opts :: string
  opt_log_file_save :: string
  opt_log_file_load :: string
  opt_permuter :: string
  opt_background :: bool
  opt_dry_run :: bool
  opt_verbose :: bool
  opt_iterations :: int
  opt_disk_size :: int

definition default_options :: options where
  "default_options = \<lparr>opt_fs_type = ''ext4'', opt_flags_dev = ''/dev/vda'', opt_test_dev = ''/dev/ram0'',
     opt_mount_opts = [], opt_log_file_save = [], opt_log_file_load = [],
     opt_permuter = ''permuter/RandomPermuter.so'', opt_background = False, opt_dry_run = False,
     opt_verbose = False, opt_iterations = 1000, opt_disk_size = 10240\<rparr>"

text \<open>\<open>atoi\<close>: white space, a sign and digits; what does not fit an \<open>int\<close> is undefined and not modelled.\<close>

definition digit_value :: "char \<Rightarrow> nat option" where
  "digit_value c = position c ''0123456789''"

fun atoi_digits :: "int \<Rightarrow> string \<Rightarrow> int" where
  "atoi_digits n [] = n"
| "atoi_digits n (c # cs) =
     (case digit_value c of None \<Rightarrow> n | Some d \<Rightarrow> atoi_digits (10 * n + int d) cs)"

definition atoi :: "string \<Rightarrow> int" where
  "atoi s = (case dropWhile is_space s of
       [] \<Rightarrow> 0
     | c # cs \<Rightarrow> if c = CHR ''-'' then - atoi_digits 0 cs
                 else if c = CHR ''+'' then atoi_digits 0 cs
                 else atoi_digits 0 (c # cs))"

text \<open>
  The tables for \<open>getopt_long\<close>: the letters, with a colon after those that take an argument, and
  the long names with whether they do.
\<close>

definition OPTS_STRING :: string where "OPTS_STRING = ''bd:f:e:l:m:np:r:s:t:v''"

definition long_options :: "(string \<times> bool \<times> char) list" where
  "long_options =
     [(''background'', False, CHR ''b''), (''test-dev'', True, CHR ''d''), (''disk_size'', True, CHR ''e''),
      (''flag-device'', True, CHR ''f''), (''log-file'', True, CHR ''l''), (''mount-opts'', True, CHR ''m''),
      (''dry-run'', False, CHR ''n''), (''permuter'', True, CHR ''p''),
      (''reload-log-file'', True, CHR ''r''), (''iterations'', True, CHR ''s''),
      (''fs-type'', True, CHR ''t''), (''verbose'', False, CHR ''v'')]"

fun short_options :: "string \<Rightarrow> (char \<times> bool) list" where
  "short_options [] = []"
| "short_options [c] = [(c, False)]"
| "short_options (c # d # cs) =
     (if d = CHR '':'' then (c, True) # short_options cs else (c, False) # short_options (d # cs))"

text \<open>One option as \<open>getopt_long\<close> returns it, with its argument; an option it does not know is \<open>?\<close>.\<close>

definition parse_option :: "char \<Rightarrow> string \<Rightarrow> options \<Rightarrow> options option" where
  "parse_option c arg opts =
     (if c = CHR ''b'' then Some (opts\<lparr>opt_background := True\<rparr>)
      else if c = CHR ''f'' then Some (opts\<lparr>opt_flags_dev := arg\<rparr>)
      else if c = CHR ''d'' then Some (opts\<lparr>opt_test_dev := arg\<rparr>)
      else if c = CHR ''e'' then Some (opts\<lparr>opt_disk_size := atoi arg\<rparr>)
      else if c = CHR ''l'' then Some (opts\<lparr>opt_log_file_save := arg\<rparr>)
      else if c = CHR ''m'' then Some (opts\<lparr>opt_mount_opts := arg\<rparr>)
      else if c = CHR ''n'' then Some (opts\<lparr>opt_dry_run := True\<rparr>)
      else if c = CHR ''p'' then Some (opts\<lparr>opt_permuter := arg\<rparr>)
      else if c = CHR ''r'' then Some (opts\<lparr>opt_log_file_load := arg\<rparr>)
      else if c = CHR ''s'' then Some (opts\<lparr>opt_iterations := atoi arg\<rparr>)
      else if c = CHR ''t'' then Some (opts\<lparr>opt_fs_type := arg\<rparr>)
      else if c = CHR ''v'' then Some (opts\<lparr>opt_verbose := True\<rparr>)
      else None)"

fun parse_options :: "(char \<times> string) list \<Rightarrow> options \<Rightarrow> options option" where
  "parse_options [] opts = Some opts"
| "parse_options ((c, arg) # args) opts = Option.bind (parse_option c arg opts) (parse_options args)"

text \<open>The two tables agree, and every option in them is one the program handles.\<close>

lemma options_agree:
  "set (short_options OPTS_STRING) = (\<lambda>(_, a, c). (c, a)) ` set long_options"
  by (simp add: OPTS_STRING_def long_options_def insert_commute)

lemma options_handled: "(n, a, c) \<in> set long_options \<Longrightarrow> parse_option c arg opts \<noteq> None"
  by (auto simp: long_options_def parse_option_def)

section \<open>The environment and the state of the program\<close>

text \<open>
  \<open>junk\<close> holds what variables that are not initialised contain.  \<open>can_write\<close> says which files can
  be written; the file functions read and write whole files.
\<close>

record junk =
  junk_meta :: disk_write_op_meta
  junk_char :: char
  junk_byte :: "nat \<Rightarrow> byte"
  junk_word :: "32 word"
  junk_message :: socket_message
  junk_time :: "byte list"

record ('w, 'g) env =
  e_os :: "'w os"
  e_net :: "'w net"
  e_dl :: "'w dl_api"
  e_flags :: req_flags
  e_indet :: indet
  e_gen :: "'g gen"
  e_rng :: 'g
  e_check :: "'w check_test"
  e_wexit :: "int \<Rightarrow> int"
  e_child_setup :: "'w \<Rightarrow> int \<times> int \<times> 'w"
  e_child_run :: "'w \<Rightarrow> int \<times> int \<times> 'w"
  e_can_write :: "string \<Rightarrow> bool"
  e_write_bytes :: "string \<Rightarrow> byte list \<Rightarrow> 'w \<Rightarrow> 'w"
  e_write_text :: "string \<Rightarrow> string \<Rightarrow> 'w \<Rightarrow> 'w"
  e_read_bytes :: "string \<Rightarrow> 'w \<Rightarrow> byte list option"
  e_read_text :: "string \<Rightarrow> 'w \<Rightarrow> string option"
  e_junk :: junk

record ('w, 'g) harness =
  h_opts :: options
  h_com :: server_socket
  h_tester :: tester
  h_test_class :: class_loader
  h_permuter_class :: class_loader
  h_permuter :: "'g permuter"
  h_out :: ostream
  h_world :: 'w

text \<open>Operations of the tester, of the server, and the cleanup, on the whole state.\<close>

definition on_tester :: "(tester \<Rightarrow> 'w \<Rightarrow> int \<times> tester \<times> 'w) \<Rightarrow> ('w, 'g) harness \<Rightarrow>
    (int \<times> ('w, 'g) harness) option" where
  "on_tester f H =
     (let (res, T, w) = f (h_tester H) (h_world H) in Some (res, H\<lparr>h_tester := T, h_world := w\<rparr>))"

definition on_world :: "(tester \<Rightarrow> 'w \<Rightarrow> int \<times> 'w) \<Rightarrow> ('w, 'g) harness \<Rightarrow>
    (int \<times> ('w, 'g) harness) option" where
  "on_world f H = (let (res, w) = f (h_tester H) (h_world H) in Some (res, H\<lparr>h_world := w\<rparr>))"

definition on_world_opt :: "(tester \<Rightarrow> 'w \<Rightarrow> (int \<times> 'w) option) \<Rightarrow> ('w, 'g) harness \<Rightarrow>
    (int \<times> ('w, 'g) harness) option" where
  "on_world_opt f H =
     map_option (\<lambda>(res, w). (res, H\<lparr>h_world := w\<rparr>)) (f (h_tester H) (h_world H))"

definition wrapper_call :: "(tester \<Rightarrow> 'w \<Rightarrow> 'w option) \<Rightarrow> ('w, 'g) harness step" where
  "wrapper_call f H = map_option (\<lambda>w. (None, H\<lparr>h_world := w\<rparr>)) (f (h_tester H) (h_world H))"

definition cleanup :: "('w, 'g) env \<Rightarrow> ('w, 'g) harness \<Rightarrow> ('w, 'g) harness" where
  "cleanup E H =
     (let unload = (\<lambda>w. snd (test_unload_class (e_dl E) (h_test_class H)
                          (snd (permuter_unload_class (e_dl E) (h_permuter_class H) w))));
          (T, w) = cleanup_harness (e_os E) unload (h_tester H) (h_world H)
      in H\<lparr>h_tester := T, h_world := w,
           h_test_class := fst (test_unload_class (e_dl E) (h_test_class H) (h_world H)),
           h_permuter_class := fst (permuter_unload_class (e_dl E) (h_permuter_class H) (h_world H))\<rparr>)"

definition delete_com :: "('w, 'g) env \<Rightarrow> ('w, 'g) harness \<Rightarrow> ('w, 'g) harness" where
  "delete_com E H = H\<lparr>h_world := server_delete (e_net E) (h_com H) (h_world H)\<rparr>"

definition send_command :: "('w, 'g) env \<Rightarrow> u32 \<Rightarrow> ('w, 'g) harness \<Rightarrow> (int \<times> ('w, 'g) harness) option" where
  "send_command E c H =
     map_option (\<lambda>(e, w). (if e \<noteq> kNone then - 1 else SUCCESS, H\<lparr>h_world := w\<rparr>))
       (server_SendCommand (e_net E) (junk_message (e_junk E)) (h_com H) c (h_world H))"

definition close_client :: "('w, 'g) env \<Rightarrow> ('w, 'g) harness \<Rightarrow> ('w, 'g) harness" where
  "close_client E H =
     (let (S, w) = server_CloseClient (e_net E) (h_com H) (h_world H) in H\<lparr>h_com := S, h_world := w\<rparr>)"

text \<open>
  The loop that waits for a command: every other message is answered with \<open>kInvalidCommand\<close>.  The
  boolean is false after an error.  The client that sent the command stays connected.
\<close>

partial_function (option) await_command :: "'w net \<Rightarrow> socket_message \<Rightarrow> u32 \<Rightarrow> server_socket
    \<Rightarrow> socket_message \<Rightarrow> 'w \<Rightarrow> (bool \<times> server_socket \<times> 'w) option" where
  "await_command N junk expected S command w =
     Option.bind (server_WaitForMessage N S command w) (\<lambda>(e, S1, m, w1).
       if e \<noteq> kNone then Some (False, S1, w1)
       else if msg_type m \<noteq> expected then
         Option.bind (server_SendCommand N junk S1 kInvalidCommand w1) (\<lambda>(e, w2).
           if e \<noteq> kNone then Some (False, S1, w2)
           else (case server_CloseClient N S1 w2 of
                   (S2, w3) \<Rightarrow> await_command N junk expected S2 m w3))
       else Some (True, S1, w1))"

definition await :: "('w, 'g) env \<Rightarrow> u32 \<Rightarrow> ('w, 'g) harness \<Rightarrow> (int \<times> ('w, 'g) harness) option" where
  "await E expected H =
     map_option (\<lambda>(ok, S, w). (if ok then SUCCESS else - 1, H\<lparr>h_com := S, h_world := w\<rparr>))
       (await_command (e_net E) (junk_message (e_junk E)) expected (h_com H) (junk_message (e_junk E))
         (h_world H))"

text \<open>What the program does before it returns -1: clean up, in background mode after deleting the socket.\<close>

definition give_up :: "('w, 'g) env \<Rightarrow> ('w, 'g) harness \<Rightarrow> ('w, 'g) harness" where
  "give_up E H = cleanup E (delete_com E H)"

section \<open>Phase 0: setting up\<close>

definition check_arguments :: "string option \<Rightarrow> ('w, 'g) harness step" where
  "check_arguments test_case H =
     (if test_case = None then Some (Some (- 1), H)
      else if opt_iterations (h_opts H) < 0 then Some (Some (- 1), H)
      else if opt_disk_size (h_opts H) \<le> 0 then Some (Some (- 1), H)
      else Some (None, H))"

definition kSocketQueueDepth :: u32 where "kSocketQueueDepth = 0"

definition open_background :: "('w, 'g) env \<Rightarrow> ('w, 'g) harness step" where
  "open_background E H =
     (if opt_background (h_opts H) then
        map_option
          (\<lambda>(res, S, w). let H1 = H\<lparr>h_com := S, h_world := w\<rparr> in
             if res < 0 then (Some (- 1), delete_com E H1) else (None, H1))
          (server_Init (e_net E) kSocketQueueDepth (ServerSocket kSocketNameOutbound) (h_world H))
      else Some (None, H))"

definition make_tester :: "('w, 'g) env \<Rightarrow> ('w, 'g) harness \<Rightarrow> ('w, 'g) harness" where
  "make_tester E H = H\<lparr>h_tester := Tester (word_of_int (opt_disk_size (h_opts H)))
     (opt_verbose (h_opts H)) (junk_time (e_junk E))\<rparr>"

definition set_file_system :: "('w, 'g) harness \<Rightarrow> ('w, 'g) harness" where
  "set_file_system H =
     H\<lparr>h_tester := set_device (opt_test_dev (h_opts H)) (set_fs_type (opt_fs_type (h_opts H)) (h_tester H))\<rparr>"

definition load_test_case :: "('w, 'g) env \<Rightarrow> string \<Rightarrow> ('w, 'g) harness
    \<Rightarrow> (int \<times> ('w, 'g) harness) option" where
  "load_test_case E path H =
     (let (res, L, w) = test_load_class (e_dl E) (h_test_class H) path (h_world H)
      in Some (res, H\<lparr>h_test_class := L, h_world := w\<rparr>))"

definition load_permuter :: "('w, 'g) env \<Rightarrow> ('w, 'g) harness \<Rightarrow> (int \<times> ('w, 'g) harness) option" where
  "load_permuter E H =
     (let (res, L, w) = permuter_load_class (e_dl E) (h_permuter_class H) (opt_permuter (h_opts H)) (h_world H)
      in Some (res, H\<lparr>h_permuter_class := L, h_world := w,
                     h_permuter := \<lparr>epochs = [], completed_permutations = {}, rand = e_rng E\<rparr>\<rparr>))"

text \<open>The string \<open>"500"\<close> with its zero byte.\<close>

definition TEST_DIRTY_EXPIRE_TIME :: "byte list" where
  "TEST_DIRTY_EXPIRE_TIME = [0x35, 0x30, 0x30, 0]"

definition set_expire_time :: "('w, 'g) env \<Rightarrow> ('w, 'g) harness \<Rightarrow> (int \<times> ('w, 'g) harness) option" where
  "set_expire_time E H =
     map_option
       (\<lambda>(old, T, w). (if old = None then - 1 else SUCCESS, H\<lparr>h_tester := T, h_world := w\<rparr>))
       (update_dirty_expire_time (e_os E) TEST_DIRTY_EXPIRE_TIME (h_tester H) (h_world H))"

definition phase0 :: "('w, 'g) env \<Rightarrow> string option \<Rightarrow> ('w, 'g) harness step list" where
  "phase0 E test_case =
     [check_arguments test_case,
      open_background E,
      go_on (make_tester E),
      or_fail id (on_tester (insert_cow_brd (e_os E))),
      go_on set_file_system,
      or_fail (cleanup E) (load_test_case E (case test_case of None \<Rightarrow> [] | Some p \<Rightarrow> p)),
      or_fail (cleanup E) (load_permuter E),
      or_fail (cleanup E) (set_expire_time E)]"

section \<open>Phase 1: the base image\<close>

definition check_flags_device :: "('w, 'g) harness step" where
  "check_flags_device H = (if opt_flags_dev (h_opts H) = [] then Some (Some (- 1), H) else Some (None, H))"

text \<open>
  Standalone setup.  When the child cannot be made or fails, the program cleans up and goes on.
\<close>

definition standalone_setup :: "('w, 'g) env \<Rightarrow> ('w, 'g) harness step" where
  "standalone_setup E H =
     (let (child, status, w) = e_child_setup E (h_world H); H1 = H\<lparr>h_world := w\<rparr> in
      if child < 0 then Some (None, cleanup E H1)
      else if status \<noteq> 0 then Some (None, cleanup E H1)
      else Some (None, H1))"

definition user_setup :: "('w, 'g) env \<Rightarrow> ('w, 'g) harness step" where
  "user_setup E H =
     (if opt_background (h_opts H) then or_fail (give_up E) (await E kBeginLog) H
      else standalone_setup E H)"

definition save_image :: "('w, 'g) env \<Rightarrow> ('w, 'g) harness \<Rightarrow> (int \<times> ('w, 'g) harness) option" where
  "save_image E H =
     (if opt_log_file_save (h_opts H) = [] then Some (SUCCESS, H)
      else
        (let path = opt_log_file_save (h_opts H) @ ''_snap'' in
         map_option
           (\<lambda>(res, file, w).
              (res, H\<lparr>h_world := (case file of None \<Rightarrow> w | Some bs \<Rightarrow> e_write_bytes E path bs w)\<rparr>))
           (log_snapshot_save (e_os E) (junk_byte (e_junk E)) (e_can_write E path) (h_tester H)
             (h_world H))))"

definition create_image :: "('w, 'g) env \<Rightarrow> ('w, 'g) harness step list" where
  "create_image E =
     [check_flags_device,
      go_on (\<lambda>H. H\<lparr>h_tester := set_flag_device (opt_flags_dev (h_opts H)) (h_tester H)\<rparr>),
      or_fail (cleanup E) (on_world (format_drive (e_os E))),
      or_fail (cleanup E)
        (\<lambda>H. on_tester (mount_device_raw (e_os E) (Some (opt_mount_opts (h_opts H)))) H),
      user_setup E,
      or_fail (cleanup E) (on_tester (umount_device (e_os E))),
      or_fail (cleanup E) (on_world (clone_device (e_os E))),
      or_fail (cleanup E) (save_image E)]"

definition load_image_file :: "('w, 'g) env \<Rightarrow> ('w, 'g) harness \<Rightarrow> (int \<times> ('w, 'g) harness) option" where
  "load_image_file E H =
     on_world_opt
       (\<lambda>T w. log_snapshot_load (e_os E) (e_read_bytes E (opt_log_file_load (h_opts H) @ ''_snap'') w) T w) H"

definition phase1 :: "('w, 'g) env \<Rightarrow> ('w, 'g) harness step" where
  "phase1 E H =
     (if opt_log_file_load (h_opts H) = [] then run_steps (create_image E) H
      else or_fail (cleanup E) (load_image_file E) H)"

section \<open>Phase 2: recording the workload\<close>

definition standalone_run :: "('w, 'g) env \<Rightarrow> ('w, 'g) harness step" where
  "standalone_run E H =
     (let (child, status, w) = e_child_run E (h_world H); H1 = H\<lparr>h_world := w\<rparr> in
      if child < 0 then Some (Some (- 1), cleanup E H1)
      else if status \<noteq> 0 then Some (Some (- 1), cleanup E H1)
      else Some (None, H1))"

definition user_workload :: "('w, 'g) env \<Rightarrow> ('w, 'g) harness step" where
  "user_workload E H =
     (if opt_background (h_opts H) then
        run_steps
          [or_fail (give_up E) (send_command E kBeginLogDone),
           go_on (close_client E),
           or_fail (give_up E) (await E kEndLog)] H
      else standalone_run E H)"

definition fetch_log :: "('w, 'g) env \<Rightarrow> ('w, 'g) harness \<Rightarrow> (int \<times> ('w, 'g) harness) option" where
  "fetch_log E H =
     map_option (\<lambda>(res, T, w). (res, H\<lparr>h_tester := T, h_world := w\<rparr>))
       (get_wrapper_log (e_os E) (junk_meta (e_junk E)) (junk_byte (e_junk E)) (h_tester H) (h_world H))"

definition drop_wrapper_ioctl :: "('w, 'g) env \<Rightarrow> ('w, 'g) harness \<Rightarrow> ('w, 'g) harness" where
  "drop_wrapper_ioctl E H =
     (let (T, w) = put_wrapper_ioctl (e_os E) (h_tester H) (h_world H)
      in H\<lparr>h_tester := T, h_world := w\<rparr>)"

text \<open>\<open>log_profile_save\<close> never reports an error; without a file to write there is no file.\<close>

definition save_profile :: "('w, 'g) env \<Rightarrow> ('w, 'g) harness \<Rightarrow> (int \<times> ('w, 'g) harness) option" where
  "save_profile E H =
     (if opt_log_file_save (h_opts H) = [] then Some (SUCCESS, H)
      else
        (let path = opt_log_file_save (h_opts H) @ ''_profile'' in
         map_option
           (\<lambda>text. (SUCCESS, H\<lparr>h_world :=
              (if e_can_write E path then e_write_text E path text (h_world H) else h_world H)\<rparr>))
           (log_profile_save (log_data (h_tester H)))))"

definition answer_end_log :: "('w, 'g) env \<Rightarrow> ('w, 'g) harness step" where
  "answer_end_log E H =
     (if opt_background (h_opts H) then
        run_steps [or_fail (give_up E) (send_command E kEndLogDone), go_on (close_client E)] H
      else Some (None, H))"

definition record_workload :: "('w, 'g) env \<Rightarrow> ('w, 'g) harness step list" where
  "record_workload E =
     [or_fail (cleanup E) (on_tester (insert_wrapper (e_os E))),
      or_fail (cleanup E)
        (\<lambda>H. on_tester (mount_wrapper_device (e_os E) (Some (opt_mount_opts (h_opts H)))) H),
      or_fail (cleanup E) (on_tester (get_wrapper_ioctl (e_os E))),
      wrapper_call (clear_wrapper_log (e_os E)),
      wrapper_call (begin_wrapper_logging (e_os E)),
      user_workload E,
      wrapper_call (end_wrapper_logging (e_os E)),
      or_fail (cleanup E) (fetch_log E),
      or_fail (cleanup E) (on_tester (umount_device (e_os E))),
      go_on (drop_wrapper_ioctl E),
      or_fail (cleanup E) (on_tester (remove_wrapper (e_os E))),
      or_fail (cleanup E) (save_profile E),
      answer_end_log E]"

definition load_profile :: "('w, 'g) env \<Rightarrow> ('w, 'g) harness \<Rightarrow> (int \<times> ('w, 'g) harness) option" where
  "load_profile E H =
     map_option
       (\<lambda>(ok, log). (if ok then SUCCESS else LOG_CLONE_ERR, H\<lparr>h_tester := (h_tester H)\<lparr>log_data := log\<rparr>\<rparr>))
       (log_profile_load (junk_meta (e_junk E)) (junk_char (e_junk E)) (junk_byte (e_junk E))
         (e_read_text E (opt_log_file_load (h_opts H) @ ''_profile'') (h_world H))
         (log_data (h_tester H)))"

definition phase2 :: "('w, 'g) env \<Rightarrow> ('w, 'g) harness step" where
  "phase2 E H =
     run_steps
       [or_fail (cleanup E) (on_world_opt (\<lambda>T. clear_caches (e_os E))),
        (\<lambda>H. if opt_log_file_load (h_opts H) = [] then run_steps (record_workload E) H
             else or_fail (cleanup E) (load_profile E) H)] H"

section \<open>Phases 3 and 4: testing and cleaning up\<close>

definition await_tests :: "('w, 'g) env \<Rightarrow> ('w, 'g) harness step" where
  "await_tests E H =
     (if opt_background (h_opts H) then or_fail (give_up E) (await E kRunTests) H else Some (None, H))"

text \<open>The results of testing and of removing the RAM disk are not looked at.\<close>

definition run_tests :: "('w, 'g) env \<Rightarrow> ('w, 'g) harness step" where
  "run_tests E H =
     (if opt_dry_run (h_opts H) then Some (None, H)
      else map_option
        (\<lambda>(_, _, T, P, w).
           let (_, T1, w1) = remove_cow_brd (e_os E) T w
           in (None, H\<lparr>h_tester := T1, h_permuter := P, h_world := w1,
                      h_out := PrintTestStats T1 (h_out H)\<rparr>))
        (test_check_random_permutations (e_flags E) (e_os E) (e_check E) (e_wexit E)
          (junk_word (e_junk E)) (e_indet E) (e_gen E) (opt_iterations (h_opts H)) (h_permuter H)
          (h_tester H) (h_world H)))"

definition answer_tests :: "('w, 'g) env \<Rightarrow> ('w, 'g) harness step" where
  "answer_tests E H =
     (if opt_background (h_opts H) then
        run_steps [or_fail (give_up E) (send_command E kRunTestsDone), go_on (delete_com E)] H
      else Some (None, H))"

definition phases :: "('w, 'g) env \<Rightarrow> string option \<Rightarrow> ('w, 'g) harness step list" where
  "phases E test_case =
     phase0 E test_case @
     [phase1 E, phase2 E, await_tests E, run_tests E, go_on (cleanup E), answer_tests E]"

text \<open>The exit code, and what is left of the state.\<close>

definition start_harness :: "('w, 'g) env \<Rightarrow> options \<Rightarrow> 'w \<Rightarrow> ('w, 'g) harness" where
  "start_harness E opts w =
     \<lparr>h_opts = opts, h_com = ServerSocket [], h_tester = Tester 0 False (junk_time (e_junk E)),
      h_test_class = no_class, h_permuter_class = no_class,
      h_permuter = \<lparr>epochs = [], completed_permutations = {}, rand = e_rng E\<rparr>,
      h_out = \<lparr>out_text = [], out_fail = False\<rparr>, h_world = w\<rparr>"

definition harness_main :: "('w, 'g) env \<Rightarrow> (char \<times> string) list \<Rightarrow> string option \<Rightarrow> 'w
    \<Rightarrow> (int \<times> ('w, 'g) harness) option" where
  "harness_main E args test_case w =
     (case parse_options args default_options of
        None \<Rightarrow> Some (- 1, start_harness E default_options w)
      | Some opts \<Rightarrow>
          map_option (\<lambda>(code, H). (case code of None \<Rightarrow> 0 | Some c \<Rightarrow> c, H))
            (run_steps (phases E test_case) (start_harness E opts w)))"

end
