(* ===== verification/Socket_Server.thy ===== *)
theory Socket_Server
  imports Socket_Wire Harness
begin

text \<open>
  The server side with many clients: each client is a stream of its own, and the loop of the main
  program that waits for a command answers every client in turn.
\<close>

section \<open>Streams inside a larger world\<close>

text \<open>
  A network whose \<open>recv\<close> and \<open>send\<close> act on one stream of the world, the current connection: whatever
  the operations do on a stream of its own they do there.
\<close>

locale stream_view =
  fixes N :: "'w net" and get :: "'w \<Rightarrow> stream" and put :: "stream \<Rightarrow> 'w \<Rightarrow> 'w"
  assumes recv_view: "net_recv N fd n w = map_prod id (\<lambda>s. put s w) (stream_recv n (get w))"
    and send_view: "net_send N fd d w = map_prod id (\<lambda>s. put s w) (stream_send d (get w))"
    and get_put [simp]: "get (put s w) = s"
    and put_put [simp]: "put s (put s' w) = put s w"
    and put_get [simp]: "put (get w) w = w"
begin

lemma recv_loop_lift:
  assumes "recv_loop stream_net fd n buf s = Some (r, s')"
  shows "recv_loop N fd n buf (put s w) = Some (r, put s' w)"
proof -
  have "stream_net = stream_net \<longrightarrow> (\<forall>w. recv_loop N fd n buf (put s w) =
      Some (fst (r, s'), put (snd (r, s')) w))"
  proof (rule recv_loop.raw_induct [where P = "\<lambda>M fd n buf s r. M = stream_net \<longrightarrow>
      (\<forall>w. recv_loop N fd n buf (put s w) = Some (fst r, put (snd r) w))", OF _ assms], goal_cases)
    case (1 f M fd n buf s r)
    show ?case
    proof (intro impI allI)
      fix w
      assume M: "M = stream_net"
      obtain bs s1 where s1: "stream_recv n' s = (Some bs, s1)" if "n' = n - length buf" for n'
        by (auto simp: stream_recv_def)
      show "recv_loop N fd n buf (put s w) = Some (fst r, put (snd r) w)"
      proof (cases "length (buf @ bs) < n")
        case True
        then have "f stream_net fd n (buf @ bs) s1 = Some r" using 1(2) M s1 [OF refl] by simp
        from 1(1) [OF this] show ?thesis
          using True s1 [OF refl] by (subst recv_loop.simps) (simp add: recv_view)
      next
        case False
        then show ?thesis
          using 1(2) M s1 [OF refl] by (subst recv_loop.simps) (auto simp: recv_view)
      qed
    qed
  qed
  then show ?thesis by simp
qed

lemma send_loop_lift:
  assumes "send_loop stream_net fd d k s = Some (r, s')"
  shows "send_loop N fd d k (put s w) = Some (r, put s' w)"
proof -
  have "stream_net = stream_net \<longrightarrow> (\<forall>w. send_loop N fd d k (put s w) =
      Some (fst (r, s'), put (snd (r, s')) w))"
  proof (rule send_loop.raw_induct [where P = "\<lambda>M fd d k s r. M = stream_net \<longrightarrow>
      (\<forall>w. send_loop N fd d k (put s w) = Some (fst r, put (snd r) w))", OF _ assms], goal_cases)
    case (1 f M fd d k s r)
    show ?case
    proof (intro impI allI)
      fix w
      assume M: "M = stream_net"
      obtain x s1 where s1: "stream_send (drop k d) s = (Some x, s1)" by (auto simp: stream_send_def)
      show "send_loop N fd d k (put s w) = Some (fst r, put (snd r) w)"
      proof (cases "k + x < length d")
        case True
        then have "f stream_net fd d (k + x) s1 = Some r" using 1(2) M s1 by simp
        from 1(1) [OF this] show ?thesis using True s1 by (subst send_loop.simps) (simp add: send_view)
      next
        case False
        then show ?thesis using 1(2) M s1 by (subst send_loop.simps) (auto simp: send_view)
      qed
    qed
  qed
  then show ?thesis by simp
qed

lemma read_int_lift:
  "ReadIntFromSocket stream_net fd s = Some (d, s') \<Longrightarrow> ReadIntFromSocket N fd (put s w) = Some (d, put s' w)"
  by (auto simp: ReadIntFromSocket_def recv_loop_lift)

lemma gobble_lift:
  "GobbleData stream_net fd n s = Some (ok, s') \<Longrightarrow> GobbleData N fd n (put s w) = Some (ok, put s' w)"
  by (auto simp: GobbleData_def recv_loop_lift)

lemma read_string_lift:
  "ReadStringFromSocket stream_net fd n s = Some (d, s') \<Longrightarrow>
    ReadStringFromSocket N fd n (put s w) = Some (d, put s' w)"
  by (auto simp: ReadStringFromSocket_def recv_loop_lift elim!: bind_SomeE split: option.split_asm if_split_asm)

lemma write_int_lift:
  "WriteIntToSocket stream_net fd d s = Some (ok, s') \<Longrightarrow> WriteIntToSocket N fd d (put s w) = Some (ok, put s' w)"
  by (simp add: WriteIntToSocket_def send_loop_lift)

lemma write_string_lift:
  "WriteStringToSocket stream_net fd d s = Some (ok, s') \<Longrightarrow>
    WriteStringToSocket N fd d (put s w) = Some (ok, put s' w)"
  by (auto simp: WriteStringToSocket_def write_int_lift send_loop_lift elim!: bind_SomeE split: if_split_asm)

lemma read_message_lift:
  "ReadMessageFromSocket stream_net fd m s = Some (ok, m', s') \<Longrightarrow>
    ReadMessageFromSocket N fd m (put s w) = Some (ok, m', put s' w)"
  by (auto simp: ReadMessageFromSocket_def Let_def read_int_lift gobble_lift read_string_lift
      elim!: bind_SomeE split: option.split_asm if_split_asm)

lemma write_message_lift:
  "WriteMessageToSocket stream_net fd m s = Some (ok, s') \<Longrightarrow>
    WriteMessageToSocket N fd m (put s w) = Some (ok, put s' w)"
  by (auto simp: WriteMessageToSocket_def write_int_lift write_string_lift elim!: bind_SomeE split: if_split_asm)

text \<open>Messages on the current connection.\<close>

lemma read_message_view:
  assumes "message_ok junk m" "incoming (get w) = message_bytes m @ rest"
  obtains c where "ReadMessageFromSocket N fd junk w =
    Some (True, m, put ((get w)\<lparr>incoming := rest, chunks := c\<rparr>) w)"
proof -
  from read_message_stream [OF assms, of fd] obtain c where
    "ReadMessageFromSocket stream_net fd junk (get w) = Some (True, m, (get w)\<lparr>incoming := rest, chunks := c\<rparr>)"
    by blast
  from read_message_lift [OF this, of w] show ?thesis using that by simp
qed

lemma write_message_view:
  assumes "message_ok junk m"
  obtains c where "WriteMessageToSocket N fd m w =
    Some (True, put ((get w)\<lparr>outgoing := outgoing (get w) @ message_bytes m, chunks := c\<rparr>) w)"
proof -
  from write_message_stream [OF assms, of fd "get w"] obtain c where
    "WriteMessageToSocket stream_net fd m (get w) =
      Some (True, (get w)\<lparr>outgoing := outgoing (get w) @ message_bytes m, chunks := c\<rparr>)" by blast
  from write_message_lift [OF this, of w] show ?thesis using that by simp
qed

end

section \<open>Clients that call one after the other\<close>

text \<open>
  \<open>callers\<close> are the clients that have not been accepted, each with what it sends; \<open>current\<close> is the
  connection, \<open>served\<close> the connections the server has closed.  Without a caller \<open>accept\<close> fails.
\<close>

record lobby =
  callers :: "stream list"
  current :: stream
  served :: "stream list"

definition lobby_net :: "lobby net" where
  "lobby_net = \<lparr>net_socket = (\<lambda>L. (3, L)), net_connect = (\<lambda>_ _ L. (0, L)), net_bind = (\<lambda>_ _ L. (0, L)),
     net_listen = (\<lambda>_ _ L. (0, L)),
     net_accept = (\<lambda>_ L. case callers L of
        [] \<Rightarrow> (- 1, L) | c # cs \<Rightarrow> (4, L\<lparr>callers := cs, current := c\<rparr>)),
     net_recv = (\<lambda>_ n L. map_prod id (\<lambda>s. L\<lparr>current := s\<rparr>) (stream_recv n (current L))),
     net_send = (\<lambda>_ d L. map_prod id (\<lambda>s. L\<lparr>current := s\<rparr>) (stream_send d (current L))),
     net_close = (\<lambda>fd L. if fd = 4 then L\<lparr>served := served L @ [current L]\<rparr> else L),
     net_unlink = (\<lambda>_ L. L)\<rparr>"

interpretation lobby: stream_view lobby_net current "\<lambda>s L. L\<lparr>current := s\<rparr>"
  by unfold_locales (simp_all add: lobby_net_def)

lemma lobby_net_simps [simp]:
  "net_accept lobby_net fd L =
     (case callers L of [] \<Rightarrow> (- 1, L) | c # cs \<Rightarrow> (4, L\<lparr>callers := cs, current := c\<rparr>))"
  "net_close lobby_net fd L = (if fd = 4 then L\<lparr>served := served L @ [current L]\<rparr> else L)"
  by (simp_all add: lobby_net_def)

text \<open>What a client may send: any command, or a checkpoint whose name survives; and the client that sends it.\<close>

definition sendable :: "socket_message \<Rightarrow> bool" where
  "sendable m \<longleftrightarrow> is_control (msg_type m) \<or> msg_type m = kCheckpoint \<and> fits_words (string_value m)"

definition caller :: "socket_message \<Rightarrow> nat list \<Rightarrow> stream" where
  "caller m cs = \<lparr>incoming = message_bytes m, outgoing = [], chunks = cs\<rparr>"

lemma sendable_as_read:
  assumes "sendable m"
  obtains m' where "message_ok junk m'" "message_bytes m' = message_bytes m" "msg_type m' = msg_type m"
proof (cases "is_control (msg_type m)")
  case True
  then show ?thesis
    by (intro that [of "junk\<lparr>msg_type := msg_type m, msg_size := 0\<rparr>"])
      (simp_all add: message_ok_def message_bytes_def)
next
  case False
  then have "msg_type m = kCheckpoint" "fits_words (string_value m)" using assms by (auto simp: sendable_def)
  then show ?thesis
    by (intro that [of "junk\<lparr>msg_type := kCheckpoint,
        msg_size := word_of_nat (round_up (length (string_value m))), string_value := string_value m\<rparr>"])
      (simp_all add: message_ok_def message_bytes_def)
qed

text \<open>The server takes the next caller and reads its message.\<close>

lemma wait_for_caller:
  assumes "client_fd S < 0" "callers L = caller m cs # rest" "sendable m"
  obtains m' s where "server_WaitForMessage lobby_net S junk L =
      Some (kNone, S\<lparr>client_fd := 4\<rparr>, m', L\<lparr>callers := rest, current := s\<rparr>)"
    "msg_type m' = msg_type m" "outgoing s = []"
proof -
  obtain m' where m': "message_ok junk m'" "message_bytes m' = message_bytes m" "msg_type m' = msg_type m"
    using sendable_as_read [OF assms(3)] by blast
  let ?L = "L\<lparr>callers := rest, current := caller m cs\<rparr>"
  have "incoming (current ?L) = message_bytes m' @ []" by (simp add: caller_def m'(2))
  then obtain c where "ReadMessageFromSocket lobby_net 4 junk ?L =
      Some (True, m', ?L\<lparr>current := (current ?L)\<lparr>incoming := [], chunks := c\<rparr>\<rparr>)"
    by (rule lobby.read_message_view [OF m'(1)])
  then have "server_WaitForMessage lobby_net S junk L = Some (kNone, S\<lparr>client_fd := 4\<rparr>, m',
      L\<lparr>callers := rest, current := (caller m cs)\<lparr>incoming := [], chunks := c\<rparr>\<rparr>)"
    using assms(1,2) by (simp add: server_WaitForMessage_def)
  then show ?thesis by (rule that) (simp_all add: m'(3) caller_def)
qed

lemma send_to_caller:
  assumes "server_fd S \<ge> 0" "is_control c"
  obtains s where "server_SendCommand lobby_net junk S c L = Some (kNone, L\<lparr>current := s\<rparr>)"
    "outgoing s = outgoing (current L) @ rev (mem_bytes c) @ rev (mem_bytes 0)"
proof -
  let ?m = "junk\<lparr>msg_type := c, msg_size := 0\<rparr>"
  have "message_ok junk ?m" using assms(2) by (simp add: message_ok_def)
  then obtain x where "WriteMessageToSocket lobby_net (client_fd S) ?m L = Some (True,
      L\<lparr>current := (current L)\<lparr>outgoing := outgoing (current L) @ message_bytes ?m, chunks := x\<rparr>\<rparr>)"
    by (rule lobby.write_message_view)
  then show ?thesis
    using assms by (intro that [of "(current L)\<lparr>outgoing := outgoing (current L) @ message_bytes ?m, chunks := x\<rparr>"])
      (simp_all add: server_SendCommand_def server_SendMessage_def message_bytes_def)
qed

text \<open>The answer to a command that is not the expected one.\<close>

definition refusal :: "byte list" where
  "refusal = rev (mem_bytes kInvalidCommand) @ rev (mem_bytes 0)"



end
