(* ===== verification/Workloads.thy ===== *)
theory Workloads
  imports Tester
begin

text \<open>
  \<open>code/tests\<close>: the test cases, each with a setup, a workload and the check of a crash state.

  \<open>F\<close> holds the file-system calls, over a state \<open>'w\<close> of the world.  \<open>None\<close> says that a loop does not
  end or that the code accesses memory it does not own.  The object of a test case has at most one
  field that changes, \<open>text\<close>, a buffer; it is an argument, and a result of what writes to it.
\<close>

section \<open>File-system calls\<close>

datatype open_flags = Read_only | Read_write_create | Read_write_create_direct

datatype stat_result = Stat "32 word" | Enoent | Other_errno

text \<open>
  \<open>read\<close> returns the bytes it stores; \<open>f_read_null\<close> is a \<open>read\<close> into a null pointer.  \<open>mmap\<close> returns an
  address; \<open>f_store\<close> copies to an address, \<open>None\<close> if nothing is mapped there.  \<open>calloc\<close> says whether
  there was memory; \<open>posix_memalign\<close> returns 0 or an error number.
\<close>

record 'w files =
  f_mkdir :: "string \<Rightarrow> 32 word \<Rightarrow> 'w \<Rightarrow> int \<times> 'w"
  f_open :: "string \<Rightarrow> open_flags \<Rightarrow> 32 word \<Rightarrow> 'w \<Rightarrow> int \<times> 'w"
  f_close :: "int \<Rightarrow> 'w \<Rightarrow> 'w"
  f_fsync :: "int \<Rightarrow> 'w \<Rightarrow> int \<times> 'w"
  f_umask :: "32 word \<Rightarrow> 'w \<Rightarrow> 32 word \<times> 'w"
  f_write :: "int \<Rightarrow> byte list \<Rightarrow> 'w \<Rightarrow> int \<times> 'w"
  f_read :: "int \<Rightarrow> nat \<Rightarrow> 'w \<Rightarrow> int \<times> byte list \<times> 'w"
  f_read_null :: "int \<Rightarrow> nat \<Rightarrow> 'w \<Rightarrow> int \<times> 'w"
  f_stat :: "string \<Rightarrow> 'w \<Rightarrow> stat_result \<times> 'w"
  f_rename :: "string \<Rightarrow> string \<Rightarrow> 'w \<Rightarrow> int \<times> 'w"
  f_truncate :: "int \<Rightarrow> nat \<Rightarrow> 'w \<Rightarrow> int \<times> 'w"
  f_mmap :: "int \<Rightarrow> nat \<Rightarrow> 'w \<Rightarrow> u64 \<times> 'w"
  f_store :: "u64 \<Rightarrow> byte list \<Rightarrow> 'w \<Rightarrow> 'w option"
  f_munmap :: "u64 \<Rightarrow> nat \<Rightarrow> 'w \<Rightarrow> 'w"
  f_calloc :: "nat \<Rightarrow> 'w \<Rightarrow> bool \<times> 'w"
  f_memalign :: "nat \<Rightarrow> nat \<Rightarrow> 'w \<Rightarrow> int \<times> 'w"

section \<open>Names and sizes\<close>

definition TEST_DIR_PATH :: string where "TEST_DIR_PATH = ''/mnt/snapshot/test_dir''"

definition TEST_FILE_PATH :: string where "TEST_FILE_PATH = ''/mnt/snapshot/test_dir/test_file''"

definition old_path :: string where "old_path = ''/mnt/snapshot/test_file''"

definition numbered_file :: "nat \<Rightarrow> string" where
  "numbered_file i = TEST_FILE_PATH @ dec_string i"

definition TEST_FILE_PERMS :: "32 word" where "TEST_FILE_PERMS = 0x1FF"

definition NUM_TEST_FILES :: nat where "NUM_TEST_FILES = 1"

definition BIG_TEXT_SIZE :: nat where "BIG_TEXT_SIZE = 1024"

definition HUGE_TEXT_SIZE :: nat where "HUGE_TEXT_SIZE = 1024 * 1024"

definition BLOCK_SIZE :: nat where "BLOCK_SIZE = 512"

text \<open>The text of \<open>echo_sub_dir\<close>; \<open>TEST_TEXT_SIZE\<close> there is \<open>sizeof\<close>, which counts the zero byte.\<close>

definition TEXT :: "byte list" where
  "TEXT = map (word_of_nat \<circ> of_char) ''hello great big world out there'' @ [10]"

definition S_ISREG :: "32 word \<Rightarrow> bool" where "S_ISREG mode \<longleftrightarrow> mode AND 0xF000 = 0x8000"

text \<open>
  A loop over the files of a test: the body returns a result from the function, or goes on.
\<close>

fun for_files :: "(nat \<Rightarrow> 's \<Rightarrow> (int option \<times> 's) option) \<Rightarrow> nat list \<Rightarrow> 's \<Rightarrow> (int \<times> 's) option" where
  "for_files body [] s = Some (0, s)"
| "for_files body (i # is) s =
     Option.bind (body i s) (\<lambda>(r, s1). case r of None \<Rightarrow> for_files body is s1 | Some c \<Rightarrow> Some (c, s1))"

section \<open>Setup\<close>

definition make_test_dir :: "'w files \<Rightarrow> 'w \<Rightarrow> int \<times> 'w" where
  "make_test_dir F w =
     (let (res, w1) = f_mkdir F TEST_DIR_PATH 0x1FF w in
      if res < 0 then (- 1, w1)
      else
        (let (dir, w2) = f_open F TEST_DIR_PATH Read_only 0 w1 in
         if dir < 0 then (- 1, w2)
         else
           (let (res, w3) = f_fsync F dir w2 in
            if res < 0 then (- 1, w3) else (0, f_close F dir w3))))"

definition echo_setup :: "'w files \<Rightarrow> 'w \<Rightarrow> int \<times> 'w" where
  "echo_setup F w = make_test_dir F w"

definition no_sync_setup :: "'w files \<Rightarrow> 'w \<Rightarrow> int \<times> 'w" where
  "no_sync_setup F w = make_test_dir F w"

text \<open>The text is read from \<open>/dev/urandom\<close> into the object.\<close>

partial_function (option) random_loop :: "'w files \<Rightarrow> int \<Rightarrow> nat \<Rightarrow> nat \<Rightarrow> byte list \<Rightarrow> 'w
    \<Rightarrow> (bool \<times> byte list \<times> 'w) option" where
  "random_loop F fd n bytes_read text w =
     (case f_read F fd (n - bytes_read) w of (res, bs, w1) \<Rightarrow>
        if res < 0 then Some (False, text, w1)
        else if bytes_read + nat res < n
        then random_loop F fd n (bytes_read + nat res) (put_bytes bs bytes_read text) w1
        else Some (True, put_bytes bs bytes_read text, w1))"

definition random_setup :: "nat \<Rightarrow> 'w files \<Rightarrow> byte list \<Rightarrow> 'w \<Rightarrow> (int \<times> byte list \<times> 'w) option" where
  "random_setup n F text w =
     (let (res, w1) = make_test_dir F w in
      if res \<noteq> 0 then Some (- 1, text, w1)
      else
        (let (rand_fd, w2) = f_open F ''/dev/urandom'' Read_only 0 w1 in
         if rand_fd < 0 then Some (- 1, text, w2)
         else map_option
           (\<lambda>(ok, text1, w3). (if ok then 0 else - 1, text1, f_close F rand_fd w3))
           (random_loop F rand_fd n 0 text w2)))"

definition big_setup :: "'w files \<Rightarrow> byte list \<Rightarrow> 'w \<Rightarrow> (int \<times> byte list \<times> 'w) option" where
  "big_setup F text w = random_setup BIG_TEXT_SIZE F text w"

definition huge_setup :: "'w files \<Rightarrow> byte list \<Rightarrow> 'w \<Rightarrow> (int \<times> byte list \<times> 'w) option" where
  "huge_setup F text w = random_setup HUGE_TEXT_SIZE F text w"

definition mmap_setup :: "'w files \<Rightarrow> byte list \<Rightarrow> 'w \<Rightarrow> (int \<times> byte list \<times> 'w) option" where
  "mmap_setup F text w = random_setup BIG_TEXT_SIZE F text w"

definition odirect_setup :: "'w files \<Rightarrow> byte list \<Rightarrow> 'w \<Rightarrow> (int \<times> byte list \<times> 'w) option" where
  "odirect_setup F text w = random_setup BIG_TEXT_SIZE F text w"

section \<open>Creating and writing files\<close>

text \<open>The file is created with an empty file mode creation mask, which is then put back.\<close>

definition create_file :: "'w files \<Rightarrow> string \<Rightarrow> open_flags \<Rightarrow> 'w \<Rightarrow> int \<times> 'w" where
  "create_file F path flags w =
     (let (old_umask, w1) = f_umask F 0 w;
          (fd, w2) = f_open F path flags TEST_FILE_PERMS w1;
          (_, w3) = f_umask F old_umask w2
      in (fd, w3))"

text \<open>
  The loop of \<open>echo_sub_dir\<close>: \<open>written\<close> is unsigned and set to what \<open>write\<close> returns, so the test for an
  error is never true; with a value past the end of the text the next pointer is outside it.
\<close>

partial_function (option) echo_write_loop :: "'w files \<Rightarrow> int \<Rightarrow> u32 \<Rightarrow> 'w \<Rightarrow> 'w option" where
  "echo_write_loop F fd written w =
     (if written = word_of_nat (length TEXT) then Some w
      else if length TEXT < unat written then None
      else (case f_write F fd (drop (unat written) TEXT) w of (res, w1) \<Rightarrow>
              echo_write_loop F fd (word_of_int res) w1))"

definition echo_run :: "'w files \<Rightarrow> 'w \<Rightarrow> (int \<times> 'w) option" where
  "echo_run F w =
     (let (fd, w1) = create_file F TEST_FILE_PATH Read_write_create w in
      if fd = - 1 then Some (- 1, w1)
      else map_option (\<lambda>w2. (0, f_close F fd (snd (f_fsync F fd w2)))) (echo_write_loop F fd 0 w1))"

definition no_sync_run :: "'w files \<Rightarrow> 'w \<Rightarrow> (int \<times> 'w) option" where
  "no_sync_run F w =
     (let (fd, w1) = create_file F TEST_FILE_PATH Read_write_create w in
      if fd = - 1 then Some (- 1, w1)
      else map_option (\<lambda>w2. (0, f_close F fd w2)) (echo_write_loop F fd 0 w1))"

partial_function (option) write_text_loop :: "'w files \<Rightarrow> int \<Rightarrow> byte list \<Rightarrow> nat \<Rightarrow> 'w
    \<Rightarrow> (bool \<times> 'w) option" where
  "write_text_loop F fd text written w =
     (case f_write F fd (drop written text) w of (res, w1) \<Rightarrow>
        if res = - 1 then Some (False, w1)
        else if written + nat res \<noteq> length text
        then write_text_loop F fd text (written + nat res) w1
        else Some (True, w1))"

definition big_file :: "'w files \<Rightarrow> byte list \<Rightarrow> nat \<Rightarrow> 'w \<Rightarrow> (int option \<times> 'w) option" where
  "big_file F text i w =
     (let (fd, w1) = create_file F (numbered_file i) Read_write_create w in
      if fd = - 1 then Some (Some (- 1), w1)
      else map_option (\<lambda>(ok, w2). (if ok then None else Some (- 1), f_close F fd w2))
             (write_text_loop F fd text 0 w1))"

definition big_run :: "'w files \<Rightarrow> byte list \<Rightarrow> 'w \<Rightarrow> (int \<times> 'w) option" where
  "big_run F text w = for_files (big_file F text) [0..<NUM_TEST_FILES] w"

definition huge_run :: "'w files \<Rightarrow> byte list \<Rightarrow> 'w \<Rightarrow> (int \<times> 'w) option" where
  "huge_run F text w = for_files (big_file F text) [0..<NUM_TEST_FILES] w"

text \<open>
  \<open>mmap\<close> reports failure with the highest address, which the code does not test for: the pointer is
  compared with 0.
\<close>

definition mmap_file :: "'w files \<Rightarrow> byte list \<Rightarrow> nat \<Rightarrow> 'w \<Rightarrow> (int option \<times> 'w) option" where
  "mmap_file F text i w =
     (let (fd, w1) = create_file F (numbered_file i) Read_write_create w in
      if fd = - 1 then Some (Some (- 1), w1)
      else
        (let (res, w2) = f_truncate F fd BIG_TEXT_SIZE w1 in
         if res < 0 then Some (Some (- 1), w2)
         else
           (let (file_data, w3) = f_mmap F fd BIG_TEXT_SIZE w2 in
            if file_data \<le> 0 then Some (Some (- 1), w3)
            else map_option (\<lambda>w4. (None, f_close F fd (f_munmap F file_data BIG_TEXT_SIZE w4)))
                   (f_store F file_data text w3))))"

definition mmap_run :: "'w files \<Rightarrow> byte list \<Rightarrow> 'w \<Rightarrow> (int \<times> 'w) option" where
  "mmap_run F text w = for_files (mmap_file F text) [0..<NUM_TEST_FILES] w"

text \<open>\<open>sub_dir_odirect\<close> always writes a whole block from where it is, in an aligned copy of the text.\<close>

partial_function (option) write_block_loop :: "'w files \<Rightarrow> int \<Rightarrow> byte list \<Rightarrow> nat \<Rightarrow> 'w
    \<Rightarrow> (bool \<times> 'w) option" where
  "write_block_loop F fd data written w =
     (if length data < written + BLOCK_SIZE then None
      else (case f_write F fd (take BLOCK_SIZE (drop written data)) w of (res, w1) \<Rightarrow>
        if res = - 1 then Some (False, w1)
        else if written + nat res \<noteq> length data
        then write_block_loop F fd data (written + nat res) w1
        else Some (True, w1)))"

definition odirect_file :: "'w files \<Rightarrow> byte list \<Rightarrow> nat \<Rightarrow> 'w \<Rightarrow> (int option \<times> 'w) option" where
  "odirect_file F data i w =
     (let (fd, w1) = create_file F (numbered_file i) Read_write_create_direct w in
      if fd = - 1 then Some (Some (- 1), w1)
      else map_option (\<lambda>(ok, w2). (if ok then None else Some (- 1), f_close F fd w2))
             (write_block_loop F fd data 0 w1))"

text \<open>An error number is positive, so the test does not find it, and the pointer is not initialised.\<close>

definition odirect_run :: "'w files \<Rightarrow> byte list \<Rightarrow> 'w \<Rightarrow> (int \<times> 'w) option" where
  "odirect_run F text w =
     (let (res, w1) = f_memalign F BLOCK_SIZE BIG_TEXT_SIZE w in
      if res < 0 then Some (- 1, w1)
      else if res \<noteq> 0 then None
      else for_files (odirect_file F text) [0..<NUM_TEST_FILES] w1)"

text \<open>\<open>rename_root_to_sub\<close> writes its file during setup; \<open>T\<close> is its text.\<close>

definition rename_setup :: "byte list \<Rightarrow> 'w files \<Rightarrow> 'w \<Rightarrow> (int \<times> 'w) option" where
  "rename_setup T F w =
     (let (res, w1) = make_test_dir F w in
      if res \<noteq> 0 then Some (- 1, w1)
      else
        (let (fd, w2) = create_file F old_path Read_write_create w1 in
         if fd = - 1 then Some (- 1, w2)
         else map_option
           (\<lambda>(ok, w3). if \<not> ok then (- 1, f_close F fd w3)
                       else (0, f_close F fd (snd (f_fsync F fd w3))))
           (write_text_loop F fd T 0 w2)))"

definition rename_run :: "'w files \<Rightarrow> 'w \<Rightarrow> int \<times> 'w" where
  "rename_run F w =
     (let (res, w1) = f_rename F old_path TEST_FILE_PATH w in if res < 0 then (- 1, w1) else (0, w1))"

section \<open>Checking a crash state\<close>

definition mode_ok :: "32 word \<Rightarrow> bool" where
  "mode_ok mode \<longleftrightarrow> S_ISREG mode \<and> 0x1FF AND mode = TEST_FILE_PERMS"

text \<open>\<open>buf\<close> is what has been read; the first result is \<open>None\<close> after an error.\<close>

partial_function (option) read_loop :: "'w files \<Rightarrow> int \<Rightarrow> nat \<Rightarrow> byte list \<Rightarrow> 'w
    \<Rightarrow> (byte list option \<times> 'w) option" where
  "read_loop F fd n buf w =
     (case f_read F fd (n - length buf) w of (res, bs, w1) \<Rightarrow>
        if res < 0 then Some (None, w1)
        else if res = 0 then Some (Some buf, w1)
        else if length (buf @ bs) < n then read_loop F fd n (buf @ bs) w1
        else Some (Some (buf @ bs), w1))"

text \<open>
  Reading a file of \<open>n\<close> bytes and comparing it: \<open>cmp_size\<close> bytes of \<open>expected\<close> and of the buffer,
  which has \<open>n\<close>.
\<close>

definition compare_text :: "nat \<Rightarrow> byte list \<Rightarrow> nat \<Rightarrow> byte list \<Rightarrow> data_test_result \<Rightarrow> data_test_result option" where
  "compare_text cmp_size expected n buf dt =
     (if length buf \<noteq> n then Some (dt_SetError kFileDataCorrupted dt)
      else map_option (\<lambda>eq. if eq then dt else dt_SetError kFileDataCorrupted dt)
             (memcmp_eq cmp_size expected buf))"

definition read_and_compare :: "'w files \<Rightarrow> int \<Rightarrow> nat \<Rightarrow> byte list \<Rightarrow> nat \<Rightarrow> data_test_result \<Rightarrow> 'w
    \<Rightarrow> (data_test_result \<times> bool \<times> 'w) option" where
  "read_and_compare F fd cmp_size expected n dt w =
     Option.bind (read_loop F fd n [] w) (\<lambda>(buf, w1).
       case buf of
         None \<Rightarrow> Some (dt_SetError kDataOther dt, True, f_close F fd w1)
       | Some bs \<Rightarrow>
           map_option (\<lambda>dt1. (dt1, False, f_close F fd w1)) (compare_text cmp_size expected n bs dt))"

definition check_open :: "'w files \<Rightarrow> string \<Rightarrow> nat \<Rightarrow> byte list \<Rightarrow> nat \<Rightarrow> data_test_result \<Rightarrow> 'w
    \<Rightarrow> (data_test_result \<times> bool \<times> 'w) option" where
  "check_open F path cmp_size expected n dt w =
     (let (fd, w1) = f_open F path Read_only 0 w in
      if fd < 0 then Some (dt_SetError kDataOther dt, True, w1)
      else
        (let (mem, w2) = f_calloc F n w1 in
         if \<not> mem then Some (dt_SetError kDataOther dt, True, w2)
         else read_and_compare F fd cmp_size expected n dt w2))"

text \<open>The boolean says that the function returns at once.\<close>

definition check_file :: "'w files \<Rightarrow> string \<Rightarrow> nat \<Rightarrow> byte list \<Rightarrow> nat \<Rightarrow> data_test_result \<Rightarrow> 'w
    \<Rightarrow> (data_test_result \<times> bool \<times> 'w) option" where
  "check_file F path cmp_size expected n dt w =
     (case f_stat F path w of
        (Stat mode, w1) \<Rightarrow>
          if \<not> mode_ok mode then Some (dt_SetError kFileMetadataCorrupted dt, True, w1)
          else check_open F path cmp_size expected n dt w1
      | (_, w1) \<Rightarrow> Some (dt_SetError kFileMissing dt, True, w1))"

definition echo_check :: "'w files \<Rightarrow> data_test_result \<Rightarrow> 'w \<Rightarrow> (int \<times> data_test_result \<times> 'w) option" where
  "echo_check F dt w =
     map_option (\<lambda>(dt1, _, w1). (0, dt1, w1))
       (check_file F TEST_FILE_PATH (length TEXT + 1) (TEXT @ [0]) (length TEXT) dt w)"

definition no_sync_check :: "'w files \<Rightarrow> data_test_result \<Rightarrow> 'w \<Rightarrow> (int \<times> data_test_result \<times> 'w) option" where
  "no_sync_check F dt w =
     map_option (\<lambda>(dt1, _, w1). (0, dt1, w1))
       (check_file F TEST_FILE_PATH (length TEXT + 1) (TEXT @ [0]) (length TEXT) dt w)"

text \<open>The tests with numbered files: the state of the loop is the result and the world.\<close>

definition check_numbered :: "'w files \<Rightarrow> byte list \<Rightarrow> nat \<Rightarrow> nat \<Rightarrow> data_test_result \<times> 'w
    \<Rightarrow> (int option \<times> data_test_result \<times> 'w) option" where
  "check_numbered F text n i = (\<lambda>(dt, w).
     map_option (\<lambda>(dt1, stop, w1). (if stop then Some 0 else None, dt1, w1))
       (check_file F (numbered_file i) n text n dt w))"

definition big_check :: "'w files \<Rightarrow> byte list \<Rightarrow> data_test_result \<Rightarrow> 'w
    \<Rightarrow> (int \<times> data_test_result \<times> 'w) option" where
  "big_check F text dt w = for_files (check_numbered F text BIG_TEXT_SIZE) [0..<NUM_TEST_FILES] (dt, w)"

definition mmap_check :: "'w files \<Rightarrow> byte list \<Rightarrow> data_test_result \<Rightarrow> 'w
    \<Rightarrow> (int \<times> data_test_result \<times> 'w) option" where
  "mmap_check F text dt w = for_files (check_numbered F text BIG_TEXT_SIZE) [0..<NUM_TEST_FILES] (dt, w)"

definition odirect_check :: "'w files \<Rightarrow> byte list \<Rightarrow> data_test_result \<Rightarrow> 'w
    \<Rightarrow> (int \<times> data_test_result \<times> 'w) option" where
  "odirect_check F text dt w = for_files (check_numbered F text BIG_TEXT_SIZE) [0..<NUM_TEST_FILES] (dt, w)"

text \<open>
  \<open>echo_sub_dir_huge\<close> goes on without a buffer: the first \<open>read\<close> then has a null pointer, and can only
  fail or find the end of the file.
\<close>

definition huge_file_check :: "'w files \<Rightarrow> byte list \<Rightarrow> nat \<Rightarrow> data_test_result \<times> 'w
    \<Rightarrow> (int option \<times> data_test_result \<times> 'w) option" where
  "huge_file_check F text i = (\<lambda>(dt, w).
     case f_stat F (numbered_file i) w of
       (Stat mode, w1) \<Rightarrow>
         if \<not> mode_ok mode then Some (Some 0, dt_SetError kFileMetadataCorrupted dt, w1)
         else
           (let (fd, w2) = f_open F (numbered_file i) Read_only 0 w1 in
            if fd < 0 then Some (Some 0, dt_SetError kDataOther dt, w2)
            else
              (let (mem, w3) = f_calloc F HUGE_TEXT_SIZE w2 in
               if mem then
                 map_option (\<lambda>(dt1, stop, w4). (if stop then Some 0 else None, dt1, w4))
                   (read_and_compare F fd HUGE_TEXT_SIZE text HUGE_TEXT_SIZE dt w3)
               else
                 (let (res, w4) = f_read_null F fd HUGE_TEXT_SIZE w3 in
                  if res < 0 then Some (Some 0, dt_SetError kDataOther dt, f_close F fd w4)
                  else if res = 0
                  then Some (None, dt_SetError kFileDataCorrupted dt, f_close F fd w4)
                  else None)))
     | (_, w1) \<Rightarrow> Some (Some 0, dt_SetError kFileMissing dt, w1))"

definition huge_check :: "'w files \<Rightarrow> byte list \<Rightarrow> data_test_result \<Rightarrow> 'w
    \<Rightarrow> (int \<times> data_test_result \<times> 'w) option" where
  "huge_check F text dt w = for_files (huge_file_check F text) [0..<NUM_TEST_FILES] (dt, w)"

text \<open>The check of the renamed file: it must be under exactly one of its two names.\<close>

definition rename_check_found :: "byte list \<Rightarrow> 'w files \<Rightarrow> string \<Rightarrow> 32 word \<Rightarrow> data_test_result \<Rightarrow> 'w
    \<Rightarrow> (int \<times> data_test_result \<times> 'w) option" where
  "rename_check_found T F path mode dt w =
     (if \<not> mode_ok mode then Some (0, dt_SetError kFileMetadataCorrupted dt, w)
      else map_option (\<lambda>(dt1, _, w1). (0, dt1, w1)) (check_open F path (length T) T (length T) dt w))"

definition rename_check :: "byte list \<Rightarrow> 'w files \<Rightarrow> data_test_result \<Rightarrow> 'w
    \<Rightarrow> (int \<times> data_test_result \<times> 'w) option" where
  "rename_check T F dt w =
     (let (stat_old, w1) = f_stat F old_path w; (stat_new, w2) = f_stat F TEST_FILE_PATH w1 in
      case (stat_old, stat_new) of
        (Enoent, Enoent) \<Rightarrow> Some (0, dt_SetError kFileMissing dt, w2)
      | (Stat _, Stat _) \<Rightarrow> Some (- 1, dt_SetError kOldFilePersisted dt, w2)
      | (Stat mode, _) \<Rightarrow> rename_check_found T F old_path mode dt w2
      | (_, Stat mode) \<Rightarrow> rename_check_found T F TEST_FILE_PATH mode dt w2
      | _ \<Rightarrow> Some (0, dt_SetError kDataOther dt, w2))"

section \<open>Running in a child\<close>

text \<open>
  The main program forks for the setup and for the workload: the child works on a copy of the object,
  and only what it does to the world remains.
\<close>

definition in_child :: "(byte list \<Rightarrow> 'w \<Rightarrow> (int \<times> byte list \<times> 'w) option) \<Rightarrow> byte list \<Rightarrow> 'w
    \<Rightarrow> (int \<times> byte list \<times> 'w) option" where
  "in_child f text w = map_option (\<lambda>(r, _, w1). (r, text, w1)) (f text w)"

end
