(* ===== verification/Workload_Files.thy ===== *)
theory Workload_Files
  imports Workloads
begin

text \<open>
  The test cases over a file system: what a check says of a file, what a workload leaves, and the
  loops of \<open>echo_sub_dir\<close> that go wrong.
\<close>

section \<open>What a check is meant to say\<close>

type_synonym inode = "32 word \<times> byte list"

definition file_verdict :: "byte list \<Rightarrow> inode option \<Rightarrow> data_test_result \<Rightarrow> data_test_result" where
  "file_verdict text node dt =
     (case node of
        None \<Rightarrow> dt_SetError kFileMissing dt
      | Some (mode, content) \<Rightarrow>
          if \<not> mode_ok mode then dt_SetError kFileMetadataCorrupted dt
          else if take (length text) content = text then dt
          else dt_SetError kFileDataCorrupted dt)"

section \<open>A file system\<close>

text \<open>
  \<open>inode\<close> gives the mode and the contents of the file with a name, \<open>pos\<close> the name and the offset of
  an open file, \<open>umask_of\<close> the file mode creation mask.  Calls may fail, and move fewer bytes than asked
  for; a \<open>read\<close> that moves none is at the end of the file.
\<close>

locale file_api =
  fixes F :: "'w files" and inode :: "string \<Rightarrow> 'w \<Rightarrow> inode option"
    and pos :: "int \<Rightarrow> 'w \<Rightarrow> (string \<times> nat) option" and umask_of :: "'w \<Rightarrow> 32 word"
  assumes stat_law: "f_stat F p w = (case inode p w of None \<Rightarrow> Enoent | Some (m, _) \<Rightarrow> Stat m, w)"
    and open_law: "f_open F p Read_only prm w = (fd, w') \<Longrightarrow>
      inode q w' = inode q w \<and> (inode p w \<noteq> None \<longrightarrow> 0 \<le> fd \<longrightarrow> pos fd w' = Some (p, 0))"
    and create_law: "f_open F p fl prm w = (fd, w') \<Longrightarrow> inode p w = None \<Longrightarrow> fl \<noteq> Read_only \<Longrightarrow>
      (if fd = - 1 then inode p w' = None
       else pos fd w' = Some (p, 0) \<and> inode p w' = Some (0x8000 OR (prm AND NOT (umask_of w)), []))"
    and umask_law: "f_umask F m w = (old, w') \<Longrightarrow>
      old = umask_of w \<and> umask_of w' = m \<and> inode q w' = inode q w \<and> pos fd w' = pos fd w"
    and calloc_law: "f_calloc F n w = (ok, w') \<Longrightarrow> inode q w' = inode q w \<and> pos fd w' = pos fd w"
    and read_law: "pos fd w = Some (p, k) \<Longrightarrow> inode p w = Some (m, c) \<Longrightarrow> f_read F fd n w = (res, bs, w') \<Longrightarrow>
      inode q w' = inode q w \<and>
      (res < 0 \<or>
       bs = take (length bs) (drop k c) \<and> res = int (length bs) \<and> length bs \<le> n \<and>
       (bs = [] \<longrightarrow> n = 0 \<or> length c \<le> k) \<and> pos fd w' = Some (p, k + length bs))"
    and write_law: "pos fd w = Some (p, length c) \<Longrightarrow> inode p w = Some (m, c) \<Longrightarrow> d \<noteq> [] \<Longrightarrow>
      f_write F fd d w = (res, w') \<Longrightarrow>
      res = - 1 \<and> inode p w' = Some (m, c) \<or>
      (\<exists>j. 0 < j \<and> j \<le> length d \<and> res = int j \<and> inode p w' = Some (m, c @ take j d) \<and>
        pos fd w' = Some (p, length c + j))"
    and close_law: "inode q (f_close F fd w) = inode q w"
    and memalign_law: "f_memalign F a n w = (r, w') \<Longrightarrow> inode q w' = inode q w"
begin

lemma read_loop_result:
  assumes "pos fd w = Some (p, length buf)" "inode p w = Some (m, c)" "buf = take (length buf) c"
    "length buf \<le> n"
  shows "\<exists>r w'. read_loop F fd n buf w = Some (r, w') \<and> (r = None \<or> r = Some (take n c)) \<and>
    (\<forall>q. inode q w' = inode q w)"
  using assms
proof (induction "n - length buf" arbitrary: buf w rule: less_induct)
  case less
  obtain res bs w1 where r: "f_read F fd (n - length buf) w = (res, bs, w1)" by (metis prod_cases3)
  note law = read_law [OF less.prems(1,2) r]
  have same: "\<forall>q. inode q w1 = inode q w" using law by blast
  show ?case
  proof (cases "res < 0")
    case True
    then show ?thesis using r same by (subst read_loop.simps) simp
  next
    case False
    then have bs: "bs = take (length bs) (drop (length buf) c)" "res = int (length bs)"
      "length bs \<le> n - length buf" "bs = [] \<longrightarrow> n - length buf = 0 \<or> length c \<le> length buf"
      "pos fd w1 = Some (p, length buf + length bs)"
      using law by auto
    have app: "buf @ bs = take (length (buf @ bs)) c"
      using bs(1) less.prems(3) by (metis length_append take_add)
    show ?thesis
    proof (cases "bs = []")
      case True
      then have "buf = take n c" using bs(4) less.prems(3,4) by (metis diff_is_0_eq le_antisym le_trans take_all)
      then show ?thesis using r same True bs(2) by (subst read_loop.simps) simp
    next
      case False
      show ?thesis
      proof (cases "length (buf @ bs) < n")
        case True
        have "0 < length bs" using False by simp
        then have shorter: "n - length (buf @ bs) < n - length buf" using True by (simp add: diff_less_mono2)
        have at: "pos fd w1 = Some (p, length (buf @ bs))" using bs(5) by simp
        have "inode p w1 = Some (m, c)" using same less.prems(2) by simp
        from less.hyps [OF shorter at this app] have "\<exists>r w'. read_loop F fd n (buf @ bs) w1 = Some (r, w') \<and>
            (r = None \<or> r = Some (take n c)) \<and> (\<forall>q. inode q w' = inode q w1)"
          using True by simp
        then show ?thesis using r same True bs(2) \<open>bs \<noteq> []\<close> by (subst read_loop.simps) simp
      next
        case False
        then have "length (buf @ bs) = n" using bs(3) less.prems(4) by simp
        with app have "buf @ bs = take n c" by metis
        moreover have "read_loop F fd n buf w = Some (Some (buf @ bs), w1)"
          using r False bs(2) \<open>bs \<noteq> []\<close> by (subst read_loop.simps) simp
        ultimately show ?thesis using same by simp
      qed
    qed
  qed
qed

lemma compare_verdict:
  assumes "length text = n"
  shows "compare_text n text n (take n c) dt =
    Some (if take n c = text then dt else dt_SetError kFileDataCorrupted dt)"
  using assms by (auto simp: compare_text_def memcmp_eq_def)

lemma check_open_verdict:
  assumes "inode p w = Some (m, c)" "length text = n"
  shows "\<exists>dt' stop w'. check_open F p n text n dt w = Some (dt', stop, w') \<and>
    (dt' = dt_SetError kDataOther dt \<or>
     dt' = (if take n c = text then dt else dt_SetError kFileDataCorrupted dt)) \<and>
    (\<forall>q. inode q w' = inode q w)"
proof -
  obtain fd w1 where o: "f_open F p Read_only 0 w = (fd, w1)" by fastforce
  obtain ok w2 where a: "f_calloc F n w1 = (ok, w2)" by fastforce
  have same: "\<forall>q. inode q w2 = inode q w" "\<forall>q. inode q w1 = inode q w"
    using open_law [OF o] calloc_law [OF a] by auto
  show ?thesis
  proof (cases "fd < 0 \<or> \<not> ok")
    case True
    then show ?thesis using o a same by (auto simp: check_open_def)
  next
    case False
    then have "pos fd w2 = Some (p, length [])"
      using open_law [OF o] calloc_law [OF a] assms(1) by auto
    from read_loop_result [OF this, of m c n] obtain r w3 where
      r: "read_loop F fd n [] w2 = Some (r, w3)" "r = None \<or> r = Some (take n c)" "\<forall>q. inode q w3 = inode q w2"
      using same assms(1) by auto
    show ?thesis
      using False o a r same compare_verdict [OF assms(2), of c dt]
      by (auto simp: check_open_def read_and_compare_def close_law)
  qed
qed

lemma check_file_verdict:
  assumes "length text = n"
  shows "\<exists>dt' stop w'. check_file F p n text n dt w = Some (dt', stop, w') \<and>
    (dt' = dt_SetError kDataOther dt \<or> dt' = file_verdict text (inode p w) dt) \<and>
    (\<forall>q. inode q w' = inode q w)"
proof (cases "inode p w")
  case None
  then show ?thesis by (auto simp: check_file_def stat_law file_verdict_def)
next
  case (Some node)
  obtain m c where node: "node = (m, c)" by fastforce
  show ?thesis
    using Some node check_open_verdict [of p w m c "text" n dt] assms
    by (cases "mode_ok m") (auto simp: check_file_def stat_law file_verdict_def)
qed

lemma big_check_verdict:
  assumes "length text = BIG_TEXT_SIZE"
  shows "\<exists>dt' w'. big_check F text dt w = Some (0, dt', w') \<and>
    (dt' = dt_SetError kDataOther dt \<or> dt' = file_verdict text (inode (numbered_file 0) w) dt) \<and>
    (\<forall>q. inode q w' = inode q w)"
  using check_file_verdict [OF assms, of "numbered_file 0" dt w]
  by (auto simp: big_check_def NUM_TEST_FILES_def check_numbered_def split: if_split)

subsection \<open>What a workload leaves\<close>

lemma create_file_result:
  assumes "create_file F p fl w = (fd, w')" "inode p w = None" "fd \<noteq> - 1" "fl \<noteq> Read_only"
  shows "pos fd w' = Some (p, 0) \<and> inode p w' = Some (0x81FF, [])"
proof -
  obtain old w1 where u: "f_umask F 0 w = (old, w1)" by fastforce
  obtain fd' w2 where o: "f_open F p fl TEST_FILE_PERMS w1 = (fd', w2)" by fastforce
  obtain x w3 where v: "f_umask F old w2 = (x, w3)" by fastforce
  have e: "fd' = fd" "w3 = w'" using assms(1) by (simp_all add: create_file_def u o v)
  have "inode p w1 = None" "umask_of w1 = 0" using umask_law [OF u] assms(2) by simp_all
  then have "pos fd w2 = Some (p, 0)" "inode p w2 = Some (0x81FF, [])"
    using create_law [OF o] assms(3,4) e by (simp_all add: TEST_FILE_PERMS_def)
  then show ?thesis using umask_law [OF v] e by simp
qed

lemma write_text_loop_result:
  assumes "pos fd w = Some (p, k)" "inode p w = Some (m, take k txt)" "k < length txt"
  shows "\<exists>ok w'. write_text_loop F fd txt k w = Some (ok, w') \<and> (ok \<longrightarrow> inode p w' = Some (m, txt))"
  using assms
proof (induction "length txt - k" arbitrary: k w rule: less_induct)
  case less
  obtain res w1 where r: "f_write F fd (drop k txt) w = (res, w1)" by fastforce
  have len: "length (take k txt) = k" using less.prems(3) by simp
  have "pos fd w = Some (p, length (take k txt))" "drop k txt \<noteq> []" using less.prems(1,3) len by simp_all
  note law = write_law [OF this(1) less.prems(2) this(2) r]
  show ?case
  proof (cases "res = - 1")
    case True
    then show ?thesis using r by (subst write_text_loop.simps) auto
  next
    case False
    then obtain j where j: "0 < j" "j \<le> length (drop k txt)" "res = int j"
      "inode p w1 = Some (m, take k txt @ take j (drop k txt))" "pos fd w1 = Some (p, k + j)"
      using law len by auto
    have app: "take k txt @ take j (drop k txt) = take (k + j) txt" by (simp add: take_add)
    show ?thesis
    proof (cases "k + j = length txt")
      case True
      then show ?thesis using r j app by (subst write_text_loop.simps) auto
    next
      case False
      then have "k + j < length txt" using j(2) less.prems(3) by simp
      moreover from this have "length txt - (k + j) < length txt - k" using j(1) by simp
      ultimately have "\<exists>ok w'. write_text_loop F fd txt (k + j) w1 = Some (ok, w') \<and>
          (ok \<longrightarrow> inode p w' = Some (m, txt))"
        using less.hyps [of "k + j" w1] j(4,5) app by simp
      then show ?thesis using r j(3) False by (subst write_text_loop.simps) simp
    qed
  qed
qed

lemma big_run_result:
  assumes "inode (numbered_file 0) w = None" "txt \<noteq> []"
  shows "\<exists>r w'. big_run F txt w = Some (r, w') \<and> (r = 0 \<longrightarrow> inode (numbered_file 0) w' = Some (0x81FF, txt))"
proof -
  obtain fd w1 where c: "create_file F (numbered_file 0) Read_write_create w = (fd, w1)" by fastforce
  show ?thesis
  proof (cases "fd = - 1")
    case True
    then show ?thesis using c by (simp add: big_run_def NUM_TEST_FILES_def big_file_def)
  next
    case False
    have "pos fd w1 = Some (numbered_file 0, 0)" "inode (numbered_file 0) w1 = Some (0x81FF, take 0 txt)"
      using create_file_result [OF c assms(1) False] by simp_all
    from write_text_loop_result [OF this] assms(2) obtain ok w2 where
      "write_text_loop F fd txt 0 w1 = Some (ok, w2)" "ok \<longrightarrow> inode (numbered_file 0) w2 = Some (0x81FF, txt)"
      by auto
    then show ?thesis
      using c False by (auto simp: big_run_def NUM_TEST_FILES_def big_file_def close_law)
  qed
qed

lemma write_block_loop_result:
  assumes "pos fd w = Some (p, k)" "inode p w = Some (m, take k txt)"
    "write_block_loop F fd txt k w = Some (True, w')"
  shows "inode p w' = Some (m, txt)"
  using assms
proof (induction "length txt - k" arbitrary: k w rule: less_induct)
  case less
  have fit: "k + BLOCK_SIZE \<le> length txt"
    using less.prems(3) by (subst (asm) write_block_loop.simps) (simp split: if_splits)
  let ?d = "take BLOCK_SIZE (drop k txt)"
  have len: "length (take k txt) = k" "length ?d = BLOCK_SIZE" using fit by simp_all
  then have start: "pos fd w = Some (p, length (take k txt))" "?d \<noteq> []"
    using less.prems(1) by (auto simp: BLOCK_SIZE_def)
  obtain res w1 where r: "f_write F fd ?d w = (res, w1)" by fastforce
  note law = write_law [OF start(1) less.prems(2) start(2) r]
  have "res \<noteq> - 1" using less.prems(3) r fit by (subst (asm) write_block_loop.simps) auto
  then obtain j where j: "0 < j" "j \<le> BLOCK_SIZE" "res = int j" "pos fd w1 = Some (p, k + j)"
    "inode p w1 = Some (m, take k txt @ take j ?d)"
    using law len by auto
  have app: "take k txt @ take j ?d = take (k + j) txt" using j(2) by (simp add: take_add min_absorb1)
  show ?case
  proof (cases "k + j = length txt")
    case True
    then show ?thesis using less.prems(3) r j app fit by (subst (asm) write_block_loop.simps) simp
  next
    case False
    have "write_block_loop F fd txt (k + j) w1 = Some (True, w')"
      using less.prems(3) r j(3) fit False by (subst (asm) write_block_loop.simps) simp
    moreover have "length txt - (k + j) < length txt - k" using j(1) fit by (simp add: BLOCK_SIZE_def)
    ultimately show ?thesis using less.hyps [of "k + j" w1] j(4,5) app by simp
  qed
qed

lemma odirect_run_result:
  assumes "inode (numbered_file 0) w = None" "odirect_run F txt w = Some (0, w')"
  shows "inode (numbered_file 0) w' = Some (0x81FF, txt)"
proof -
  obtain r w1 where a: "f_memalign F BLOCK_SIZE BIG_TEXT_SIZE w = (r, w1)" by fastforce
  obtain fd w2 where c: "create_file F (numbered_file 0) Read_write_create_direct w1 = (fd, w2)" by fastforce
  have none: "inode (numbered_file 0) w1 = None" using memalign_law [OF a] assms(1) by simp
  from assms(2) obtain w3 where w3: "fd \<noteq> - 1" "write_block_loop F fd txt 0 w2 = Some (True, w3)"
    "w' = f_close F fd w3"
    by (auto simp: odirect_run_def NUM_TEST_FILES_def odirect_file_def a c bind_eq_Some_conv split: if_splits)
  have "pos fd w2 = Some (numbered_file 0, 0)" "inode (numbered_file 0) w2 = Some (0x81FF, take 0 txt)"
    using create_file_result [OF c none w3(1)] by simp_all
  from write_block_loop_result [OF this w3(2)] show ?thesis using w3(3) close_law by simp
qed

lemma created_mode_ok: "mode_ok 0x81FF"
  by (simp add: mode_ok_def S_ISREG_def TEST_FILE_PERMS_def)

lemma run_then_check:
  assumes "length txt = BIG_TEXT_SIZE" "inode (numbered_file 0) w = None" "big_run F txt w = Some (0, w1)"
  shows "inode (numbered_file 0) w1 = Some (0x81FF, txt) \<and>
    (\<exists>dt' w2. big_check F txt dt w1 = Some (0, dt', w2) \<and> (dt' = dt \<or> dt' = dt_SetError kDataOther dt))"
proof -
  have "txt \<noteq> []" using assms(1) by (auto simp: BIG_TEXT_SIZE_def)
  then have i: "inode (numbered_file 0) w1 = Some (0x81FF, txt)"
    using big_run_result [OF assms(2)] assms(3) by fastforce
  then show ?thesis
    using big_check_verdict [OF assms(1), of dt w1] by (auto simp: file_verdict_def created_mode_ok)
qed

subsection \<open>The renamed file\<close>

lemma rename_check_verdict:
  "\<exists>r dt' w'. rename_check T F dt w = Some (r, dt', w') \<and> (\<forall>q. inode q w' = inode q w) \<and>
     (case (inode old_path w, inode TEST_FILE_PATH w) of
        (Some _, Some _) \<Rightarrow> r = - 1 \<and> dt' = dt_SetError kOldFilePersisted dt
      | (Some nd, None) \<Rightarrow> r = 0 \<and> (dt' = dt_SetError kDataOther dt \<or> dt' = file_verdict T (Some nd) dt)
      | (None, nd) \<Rightarrow> r = 0 \<and> (dt' = dt_SetError kDataOther dt \<or> dt' = file_verdict T nd dt))"
proof -
  have found: "\<exists>dt' w'. rename_check_found T F p m dt w = Some (0, dt', w') \<and> (\<forall>q. inode q w' = inode q w) \<and>
      (dt' = dt_SetError kDataOther dt \<or> dt' = file_verdict T (Some (m, c)) dt)"
    if "inode p w = Some (m, c)" for p m c
    using check_open_verdict [OF that refl, of T dt]
    by (cases "mode_ok m") (auto simp: rename_check_found_def file_verdict_def)
  show ?thesis
    using found [of old_path] found [of TEST_FILE_PATH]
    by (auto simp: rename_check_def stat_law file_verdict_def split: option.split)
qed

subsection \<open>The check of \<open>echo_sub_dir\<close>\<close>

lemma echo_check_overread:
  assumes "inode TEST_FILE_PATH w = Some (m, c)" "mode_ok m" "length TEXT \<le> length c"
    "echo_check F dt w = Some (r, dt', w')"
  shows "dt' = dt_SetError kDataOther dt"
proof -
  obtain fd w1 where o: "f_open F TEST_FILE_PATH Read_only 0 w = (fd, w1)" by fastforce
  obtain ok w2 where a: "f_calloc F (length TEXT) w1 = (ok, w2)" by fastforce
  show ?thesis
  proof (cases "fd < 0 \<or> \<not> ok")
    case True
    then show ?thesis using assms o a
      by (auto simp: echo_check_def check_file_def stat_law check_open_def split: if_split_asm)
  next
    case False
    then have "pos fd w2 = Some (TEST_FILE_PATH, length [])" "inode TEST_FILE_PATH w2 = Some (m, c)"
      using open_law [OF o] calloc_law [OF a] assms(1) by auto
    from read_loop_result [OF this, of "length TEXT"] obtain x w3 where
      x: "read_loop F fd (length TEXT) [] w2 = Some (x, w3)" "x = None \<or> x = Some (take (length TEXT) c)"
      by auto
    have "compare_text (length TEXT + 1) (TEXT @ [0]) (length TEXT) (take (length TEXT) c) dt = None"
      using assms(3) by (simp add: compare_text_def memcmp_eq_def)
    then show ?thesis
      using False x assms o a
      by (auto simp: echo_check_def check_file_def stat_law check_open_def read_and_compare_def)
  qed
qed

end

section \<open>A file system in memory\<close>

text \<open>
  Every call succeeds; \<open>pieces\<close> are the largest numbers of bytes the next calls move.  Only one file
  is open at a time, with the descriptor 5.
\<close>

record memfs =
  nodes :: "string \<Rightarrow> inode option"
  at :: "(string \<times> nat) option"
  file_mask :: "32 word"
  pieces :: "nat list"

definition piece :: "memfs \<Rightarrow> nat \<Rightarrow> nat" where
  "piece w n = (case pieces w of [] \<Rightarrow> n | k # _ \<Rightarrow> min n (max 1 k))"

definition mem_open :: "string \<Rightarrow> open_flags \<Rightarrow> 32 word \<Rightarrow> memfs \<Rightarrow> int \<times> memfs" where
  "mem_open p fl prm w =
     (if nodes w p = None then
        (if fl = Read_only then (- 1, w)
         else (5, w\<lparr>nodes := (nodes w)(p \<mapsto> (0x8000 OR (prm AND NOT (file_mask w)), [])), at := Some (p, 0)\<rparr>))
      else (5, w\<lparr>at := Some (p, 0)\<rparr>))"

definition mem_read :: "int \<Rightarrow> nat \<Rightarrow> memfs \<Rightarrow> int \<times> byte list \<times> memfs" where
  "mem_read fd n w =
     (case at w of
        Some (p, k) \<Rightarrow>
          (case nodes w p of
             Some (m, c) \<Rightarrow>
               (let bs = take (piece w n) (drop k c)
                in (int (length bs), bs, w\<lparr>at := Some (p, k + length bs), pieces := tl (pieces w)\<rparr>))
           | None \<Rightarrow> (- 1, [], w))
      | None \<Rightarrow> (- 1, [], w))"

definition mem_write :: "int \<Rightarrow> byte list \<Rightarrow> memfs \<Rightarrow> int \<times> memfs" where
  "mem_write fd d w =
     (case at w of
        Some (p, k) \<Rightarrow>
          (case nodes w p of
             Some (m, c) \<Rightarrow>
               (let j = piece w (length d)
                in (int j, w\<lparr>nodes := (nodes w)(p \<mapsto> (m, put_bytes (take j d) k c)), at := Some (p, k + j),
                              pieces := tl (pieces w)\<rparr>))
           | None \<Rightarrow> (- 1, w))
      | None \<Rightarrow> (- 1, w))"

definition mem_files :: "memfs files" where
  "mem_files = \<lparr>f_mkdir = (\<lambda>p _ w. (0, w\<lparr>nodes := (nodes w)(p \<mapsto> (0x41FF, []))\<rparr>)), f_open = mem_open,
     f_close = (\<lambda>_ w. w), f_fsync = (\<lambda>_ w. (0, w)), f_umask = (\<lambda>m w. (file_mask w, w\<lparr>file_mask := m\<rparr>)),
     f_write = mem_write, f_read = mem_read, f_read_null = (\<lambda>_ _ w. (- 1, w)),
     f_stat = (\<lambda>p w. (case nodes w p of None \<Rightarrow> Enoent | Some (m, _) \<Rightarrow> Stat m, w)),
     f_rename = (\<lambda>p q w. case nodes w p of None \<Rightarrow> (- 1, w)
        | Some nd \<Rightarrow> (0, w\<lparr>nodes := (nodes w)(p := None, q \<mapsto> nd)\<rparr>)),
     f_truncate = (\<lambda>_ _ w. (0, w)), f_mmap = (\<lambda>_ _ w. (- 1, w)), f_store = (\<lambda>_ _ _. None),
     f_munmap = (\<lambda>_ _ w. w), f_calloc = (\<lambda>_ w. (True, w)), f_memalign = (\<lambda>_ _ w. (0, w))\<rparr>"

lemma piece_le: "piece w n \<le> n"
  by (auto simp: piece_def split: list.split)

lemma piece_pos: "0 < n \<Longrightarrow> 0 < piece w n"
  by (auto simp: piece_def split: list.split)

lemma mem_files_simps [simp]:
  "f_open mem_files = mem_open" "f_read mem_files = mem_read" "f_write mem_files = mem_write"
  "f_close mem_files fd w = w" "f_fsync mem_files fd w = (0, w)" "f_calloc mem_files n w = (True, w)"
  "f_memalign mem_files a n w = (0, w)"
  "f_umask mem_files m w = (file_mask w, w\<lparr>file_mask := m\<rparr>)"
  "f_mkdir mem_files p m w = (0, w\<lparr>nodes := (nodes w)(p \<mapsto> (0x41FF, []))\<rparr>)"
  "f_stat mem_files p w = (case nodes w p of None \<Rightarrow> Enoent | Some (m, _) \<Rightarrow> Stat m, w)"
  by (simp_all add: mem_files_def)

interpretation mem: file_api mem_files "\<lambda>p w. nodes w p" "\<lambda>fd. at" file_mask
proof (unfold_locales, goal_cases)
  case (6 fd w p k m c n res bs w' q)
  then have e: "bs = take (piece w n) (drop k c)" "res = int (length bs)"
    "w' = w\<lparr>at := Some (p, k + length bs), pieces := tl (pieces w)\<rparr>"
    by (auto simp: mem_read_def Let_def)
  have "bs = take (length bs) (drop k c)" by (simp add: e(1) min_def)
  moreover have "length bs \<le> n" using piece_le [of w n] by (simp add: e(1))
  moreover have "bs = [] \<Longrightarrow> n = 0 \<or> length c \<le> k"
    using piece_pos [of n w] by (cases "n = 0") (auto simp: e(1))
  ultimately show ?case using e(2,3) by simp
next
  case (7 fd w p c m d res w')
  then show ?case
    using piece_le [of w "length d"] piece_pos [of "length d" w]
    by (auto simp: mem_write_def put_bytes_def Let_def)
qed (auto simp: mem_open_def split: if_split_asm)

text \<open>Without limits on the pieces a text is written in one call of \<open>write\<close>.\<close>

lemma mem_write_all:
  assumes "at w = Some (p, 0)" "nodes w p = Some (m, [])" "pieces w = []" "txt \<noteq> []"
  shows "\<exists>v. write_text_loop mem_files fd txt 0 w = Some (True, v)"
  using assms by (subst write_text_loop.simps) (simp add: mem_write_def piece_def Let_def)

lemma mem_big_run:
  assumes "nodes w (numbered_file 0) = None" "pieces w = []" "txt \<noteq> []"
  shows "\<exists>w1. big_run mem_files txt w = Some (0, w1)"
proof -
  define v where "v = snd (create_file mem_files (numbered_file 0) Read_write_create w)"
  have c: "create_file mem_files (numbered_file 0) Read_write_create w = (5, v)"
    and v: "at v = Some (numbered_file 0, 0)" "nodes v (numbered_file 0) = Some (0x81FF, [])" "pieces v = []"
    using assms(1,2) by (simp_all add: v_def create_file_def mem_open_def TEST_FILE_PERMS_def)
  obtain v1 where "write_text_loop mem_files 5 txt 0 v = Some (True, v1)"
    using mem_write_all [OF v assms(3)] by blast
  then show ?thesis by (auto simp: big_run_def NUM_TEST_FILES_def big_file_def c)
qed

section \<open>The checks\<close>

text \<open>
  The check of \<open>echo_sub_dir_big\<close> always returns, changes no file, and says of the crash state what
  it should: the file is missing, has the wrong type or permissions, does not begin with the text, or
  is all right.  It says \<open>kOther\<close> when a call failed.  Reads may return any pieces.
\<close>

theorem big_check_says:
  assumes "file_api F inode pos umask_of" "length txt = BIG_TEXT_SIZE"
  shows "\<exists>dt' w'. big_check F txt dt w = Some (0, dt', w') \<and>
    (dt' = dt_SetError kDataOther dt \<or> dt' = file_verdict txt (inode (numbered_file 0) w) dt) \<and>
    (\<forall>q. inode q w' = inode q w)"
  by (rule file_api.big_check_verdict [OF assms])

definition sample_memfs :: "byte list \<Rightarrow> memfs" where
  "sample_memfs content = \<lparr>nodes = [numbered_file 0 \<mapsto> (0x81FF, content)], at = None, file_mask = 0x12,
     pieces = [300, 1]\<rparr>"

theorem big_check_says_witness:
  "\<exists>dt' w'. big_check mem_files (replicate BIG_TEXT_SIZE 7) DataTestResult
      (sample_memfs (replicate BIG_TEXT_SIZE 0)) = Some (0, dt', w') \<and>
    (dt' = dt_SetError kDataOther DataTestResult \<or> dt' = dt_SetError kFileDataCorrupted DataTestResult)"
proof -
  have l: "length (replicate BIG_TEXT_SIZE (7 :: byte)) = BIG_TEXT_SIZE" by simp
  have "file_verdict (replicate BIG_TEXT_SIZE 7) (nodes (sample_memfs (replicate BIG_TEXT_SIZE 0)) (numbered_file 0))
      DataTestResult = dt_SetError kFileDataCorrupted DataTestResult"
    by (simp add: file_verdict_def sample_memfs_def mem.created_mode_ok BIG_TEXT_SIZE_def replicate_eq_replicate)
  then show ?thesis
    using big_check_says [OF mem.file_api_axioms l, of DataTestResult "sample_memfs (replicate BIG_TEXT_SIZE 0)"]
    by auto
qed



section \<open>The workload and its text\<close>


definition random_memfs :: memfs where
  "random_memfs = \<lparr>nodes = [''/dev/urandom'' \<mapsto> (0x2000, replicate BIG_TEXT_SIZE 9)], at = None, file_mask = 0x12,
     pieces = []\<rparr>"

lemma numbered_names [simp]:
  "numbered_file 0 \<noteq> ''/dev/urandom''" "numbered_file 0 \<noteq> TEST_DIR_PATH" "TEST_DIR_PATH \<noteq> ''/dev/urandom''"
  "''/dev/urandom'' \<noteq> TEST_DIR_PATH" "''/dev/urandom'' \<noteq> numbered_file 0"
  by (simp_all add: numbered_file_def TEST_FILE_PATH_def TEST_DIR_PATH_def)


section \<open>The loops of \<open>echo_sub_dir\<close>\<close>

lemma TEXT_length [simp]: "length TEXT = 32"
  by (simp add: TEXT_def)

lemma small_word: "n < 33 \<Longrightarrow> unat (word_of_nat n :: u32) = n"
  by (simp add: unat_of_nat take_bit_nat_eq_self)

lemma echo_loop_stuck:
  assumes "echo_write_loop F fd k w = Some r" "0 < unat k" "unat k \<noteq> 32"
    "\<And>d w. d \<noteq> TEXT \<Longrightarrow> fst (f_write F fd d w) = int (length d)"
  shows False
proof -
  have "(\<forall>d w. d \<noteq> TEXT \<longrightarrow> fst (f_write F fd d w) = int (length d)) \<longrightarrow> 0 < unat k \<longrightarrow> unat k \<noteq> 32 \<longrightarrow> False"
  proof (rule echo_write_loop.raw_induct [where P = "\<lambda>F fd k w r.
        (\<forall>d w. d \<noteq> TEXT \<longrightarrow> fst (f_write F fd d w) = int (length d)) \<longrightarrow> 0 < unat k \<longrightarrow> unat k \<noteq> 32 \<longrightarrow> False",
        OF _ assms(1)], goal_cases)
    case (1 f F fd k w r)
    show ?case
    proof (intro impI)
      assume full: "\<forall>d w. d \<noteq> TEXT \<longrightarrow> fst (f_write F fd d w) = int (length d)"
        and k: "0 < unat k" "unat k \<noteq> 32"
      have "k \<noteq> 32" using k(2) by auto
      then have in_text: "\<not> 32 < unat k" using 1(2) by (auto split: if_split_asm)
      obtain res w1 where wr: "f_write F fd (drop (unat k) TEXT) w = (res, w1)" by fastforce
      have len: "length (drop (unat k) TEXT) = 32 - unat k" by simp
      with k(1) have "length (drop (unat k) TEXT) \<noteq> length TEXT" by simp
      then have "drop (unat k) TEXT \<noteq> TEXT" by metis
      then have "res = int (32 - unat k)" using full wr len by (metis fst_conv)
      then have res: "word_of_int res = (word_of_nat (32 - unat k) :: u32)" by simp
      have "f F fd (word_of_int res) w1 = Some r"
        using 1(2) \<open>k \<noteq> 32\<close> in_text wr by (simp split: if_split_asm)
      from 1(1) [OF this] full have "0 < unat (word_of_int res :: u32) \<longrightarrow> unat (word_of_int res :: u32) = 32"
        by blast
      moreover have "unat (word_of_int res :: u32) = 32 - unat k" unfolding res by (rule small_word) (use k in simp)
      ultimately show False using k in_text by simp
    qed
  qed
  then show False using assms(2-4) by blast
qed

text \<open>
  C30: \<open>echo_sub_dir\<close> writes its text correctly only if one call takes all of it.  When the first call
  writes a part, the workload never ends, even though every later call writes all it is given; and an
  error is not noticed, but taken for a position outside the text.
\<close>

theorem echo_short_write_never_ends:
  assumes "create_file F TEST_FILE_PATH Read_write_create w0 = (fd, w)" "fd \<noteq> - 1"
    "f_write F fd TEXT w = (res, w1)" "- 1 \<le> res" "res \<noteq> 0" "res < 32"
    "\<And>d v. d \<noteq> TEXT \<Longrightarrow> fst (f_write F fd d v) = int (length d)"
  shows "echo_run F w0 = None"
proof -
  let ?k = "word_of_int res :: u32"
  have "echo_write_loop F fd 0 w = echo_write_loop F fd ?k w1"
    by (subst echo_write_loop.simps) (simp add: assms(3))
  also have "echo_write_loop F fd ?k w1 = None"
  proof (cases "res = - 1")
    case True
    then show ?thesis by (subst echo_write_loop.simps) (simp add: unsigned_minus_1_eq_mask mask_eq_exp_minus_1)
  next
    case False
    then have n: "?k = word_of_nat (nat res)" "nat res < 32" "0 < nat res" using assms(4-6) by auto
    have "unat ?k = nat res" unfolding n(1) by (rule small_word) (use n(2) in simp)
    then have "0 < unat ?k" "unat ?k \<noteq> 32" using n(2,3) by simp_all
    then show ?thesis
      using echo_loop_stuck [of F fd ?k w1] assms(7) by (cases "echo_write_loop F fd ?k w1") blast+
  qed
  finally show ?thesis using assms(1,2) by (simp add: echo_run_def)
qed

text \<open>A disk that takes 10 bytes of the whole text, and all of anything else.\<close>

definition short_files :: "memfs files" where
  "short_files = mem_files\<lparr>f_write := (\<lambda>_ d w. (if d = TEXT then 10 else int (length d), w))\<rparr>"

theorem echo_short_write_never_ends_witness:
  "echo_run short_files (sample_memfs []) = None"
proof -
  have c: "create_file short_files TEST_FILE_PATH Read_write_create (sample_memfs []) =
      (5, snd (create_file short_files TEST_FILE_PATH Read_write_create (sample_memfs [])))"
    by (simp add: create_file_def short_files_def mem_files_def mem_open_def sample_memfs_def)
  show ?thesis
    by (rule echo_short_write_never_ends [OF c, where res = 10 and ?w1.0 = "snd (create_file short_files
        TEST_FILE_PATH Read_write_create (sample_memfs []))"]) (simp_all add: short_files_def)
qed



end
