(* ===== verification/Tester_Modules.thy ===== *)
theory Tester_Modules
  imports Tester
begin

text \<open>
  The kernel modules and the mount, as the harness sees them: the flags of \<open>tester\<close> against the
  state of a machine that refuses to remove what is in use.
\<close>

section \<open>A machine\<close>

text \<open>
  Which modules are loaded and whether the test file system is mounted.  \<open>insmod\<close> of a loaded
  module fails, and of the wrapper without the RAM disk; \<open>rmmod\<close> fails if the module is not there
  or in use: the RAM disk by the wrapper, both by the mount.  \<open>dev_ok\<close> says whether \<open>/dev/cow_ram0\<close>
  can be opened when the module is loaded, \<open>mount_ok\<close> whether mounting a device of it works.
\<close>

record machine =
  brd_in :: bool
  wrapper_in :: bool
  mounted :: bool
  dev_ok :: bool
  mount_ok :: bool

definition is_command :: "string \<Rightarrow> string \<Rightarrow> bool" where
  "is_command prefix c \<longleftrightarrow> take (length prefix) c = prefix"

definition run_command :: "string \<Rightarrow> machine \<Rightarrow> int \<times> machine" where
  "run_command c m =
     (if is_command COW_BRD_INSMOD c then
        (if brd_in m then (1, m) else (0, m\<lparr>brd_in := True\<rparr>))
      else if is_command COW_BRD_RMMOD c then
        (if brd_in m \<and> \<not> wrapper_in m \<and> \<not> mounted m then (0, m\<lparr>brd_in := False\<rparr>) else (1, m))
      else if is_command WRAPPER_INSMOD c then
        (if wrapper_in m \<or> \<not> brd_in m then (1, m) else (0, m\<lparr>wrapper_in := True\<rparr>))
      else if is_command WRAPPER_RMMOD c then
        (if wrapper_in m \<and> \<not> mounted m then (0, m\<lparr>wrapper_in := False\<rparr>) else (1, m))
      else (1, m))"

definition machine_os :: "machine os" where
  "machine_os = \<lparr>os_system = run_command,
     os_open = (\<lambda>p _ m. (if p = COW_BRD_PATH \<and> brd_in m \<and> dev_ok m then 5 else - 1, m)),
     os_close = (\<lambda>_ m. m),
     os_mount = (\<lambda>_ _ _ _ m. if mount_ok m \<and> brd_in m then (0, m\<lparr>mounted := True\<rparr>) else (- 1, m)),
     os_umount = (\<lambda>_ m. if mounted m then (0, m\<lparr>mounted := False\<rparr>) else (- 1, m)),
     os_ioctl = (\<lambda>_ _ m. (- 1, m)), os_rereadpt = (\<lambda>_ m. (- 1, False, m)),
     os_hwm = (\<lambda>_ _ m. Some (Some W_EINVAL, Untouched, m)), os_lseek = (\<lambda>_ _ m. (- 1, m)),
     os_write = (\<lambda>_ _ _ m. (- 1, m)), os_read = (\<lambda>_ _ m. (- 1, [], m)), os_sync = (\<lambda>m. m)\<rparr>"

lemma command_prefixes [simp]:
  "is_command p (p @ s)" "is_command COW_BRD_INSMOD (insmod_command T)"
  "is_command COW_BRD_RMMOD COW_BRD_RMMOD" "is_command WRAPPER_RMMOD WRAPPER_RMMOD"
  "\<not> is_command COW_BRD_INSMOD COW_BRD_RMMOD" "\<not> is_command COW_BRD_INSMOD (WRAPPER_INSMOD @ s)"
  "\<not> is_command COW_BRD_RMMOD (WRAPPER_INSMOD @ s)" "\<not> is_command COW_BRD_INSMOD WRAPPER_RMMOD"
  "\<not> is_command COW_BRD_RMMOD WRAPPER_RMMOD" "\<not> is_command WRAPPER_INSMOD WRAPPER_RMMOD"
  by (simp_all add: is_command_def insmod_command_def COW_BRD_INSMOD_def COW_BRD_RMMOD_def
      WRAPPER_INSMOD_def WRAPPER_RMMOD_def)

lemma machine_os_simps [simp]:
  "os_system machine_os (insmod_command T) m =
     (if brd_in m then (1, m) else (0, m\<lparr>brd_in := True\<rparr>))"
  "os_system machine_os COW_BRD_RMMOD m =
     (if brd_in m \<and> \<not> wrapper_in m \<and> \<not> mounted m then (0, m\<lparr>brd_in := False\<rparr>) else (1, m))"
  "os_system machine_os (WRAPPER_INSMOD @ s) m =
     (if wrapper_in m \<or> \<not> brd_in m then (1, m) else (0, m\<lparr>wrapper_in := True\<rparr>))"
  "os_system machine_os WRAPPER_RMMOD m =
     (if wrapper_in m \<and> \<not> mounted m then (0, m\<lparr>wrapper_in := False\<rparr>) else (1, m))"
  "os_open machine_os COW_BRD_PATH md m = (if brd_in m \<and> dev_ok m then 5 else - 1, m)"
  "os_close machine_os fd m = m"
  "os_mount machine_os a b c d m = (if mount_ok m \<and> brd_in m then (0, m\<lparr>mounted := True\<rparr>) else (- 1, m))"
  "os_umount machine_os p m = (if mounted m then (0, m\<lparr>mounted := False\<rparr>) else (- 1, m))"
  by (simp_all add: machine_os_def run_command_def)

section \<open>The flags of the harness\<close>

text \<open>The operations of the harness on modules and mounts, in any order; it mounts only when not mounted.\<close>

inductive module_reach :: "bool \<Rightarrow> bool \<Rightarrow> tester \<Rightarrow> machine \<Rightarrow> bool" for dev mnt where
  start: "module_reach dev mnt (Tester n v j)
     \<lparr>brd_in = False, wrapper_in = False, mounted = False, dev_ok = dev, mount_ok = mnt\<rparr>"
| insert_brd: "module_reach dev mnt T m \<Longrightarrow> insert_cow_brd machine_os T m = (r, T', m') \<Longrightarrow>
    module_reach dev mnt T' m'"
| remove_brd: "module_reach dev mnt T m \<Longrightarrow> remove_cow_brd machine_os T m = (r, T', m') \<Longrightarrow>
    module_reach dev mnt T' m'"
| insert_hwm: "module_reach dev mnt T m \<Longrightarrow> insert_wrapper machine_os T m = (r, T', m') \<Longrightarrow>
    module_reach dev mnt T' m'"
| remove_hwm: "module_reach dev mnt T m \<Longrightarrow> remove_wrapper machine_os T m = (r, T', m') \<Longrightarrow>
    module_reach dev mnt T' m'"
| mount_dev: "module_reach dev mnt T m \<Longrightarrow> \<not> disk_mounted T \<Longrightarrow>
    mount_device machine_os p opts T m = (r, T', m') \<Longrightarrow> module_reach dev mnt T' m'"
| umount_dev: "module_reach dev mnt T m \<Longrightarrow> umount_device machine_os T m = (r, T', m') \<Longrightarrow>
    module_reach dev mnt T' m'"

text \<open>
  The flags of the wrapper and the mount are exact.  The flag of the RAM disk errs on the safe
  side: a loaded module is known to be loaded.
\<close>

definition flags_safe :: "tester \<Rightarrow> machine \<Rightarrow> bool" where
  "flags_safe T m \<longleftrightarrow> (disk_mounted T = mounted m) \<and> (wrapper_inserted T = wrapper_in m) \<and>
     (brd_in m \<longrightarrow> cow_brd_inserted T) \<and> (wrapper_in m \<longrightarrow> brd_in m) \<and>
     (cow_brd_fd T \<noteq> - 1 \<longrightarrow> cow_brd_fd T \<ge> 0 \<and> brd_in m \<and> dev_ok m) \<and>
     (mounted m \<longrightarrow> brd_in m)"

lemma wrapper_command:
  "WRAPPER_INSMOD @ SNAPSHOT_PATH @ '' flags_device_path='' @ flags_device T @ s =
   WRAPPER_INSMOD @ (SNAPSHOT_PATH @ '' flags_device_path='' @ flags_device T @ s)"
  by simp

lemma module_reach_flags: "module_reach dev mnt T m \<Longrightarrow> flags_safe T m"
proof (induction rule: module_reach.induct)
  case (start n v j)
  then show ?case by (simp add: flags_safe_def Tester_def)
next
  case (insert_brd T m r T' m')
  then show ?case
    by (auto simp: insert_cow_brd_def flags_safe_def Let_def split: if_splits)
next
  case (remove_brd T m r T' m')
  then show ?case
    by (auto simp: remove_cow_brd_def flags_safe_def Let_def split: if_splits)
next
  case (insert_hwm T m r T' m')
  then show ?case
    by (auto simp: insert_wrapper_def flags_safe_def Let_def split: if_splits)
next
  case (remove_hwm T m r T' m')
  then show ?case
    by (auto simp: remove_wrapper_def flags_safe_def Let_def split: if_splits)
next
  case (mount_dev T m p opts r T' m')
  then show ?case
    by (auto simp: mount_device_def flags_safe_def Let_def split: if_splits)
next
  case (umount_dev T m r T' m')
  then show ?case
    by (auto simp: umount_device_def flags_safe_def Let_def split: if_splits)
qed


definition loaded_machine :: machine where
  "loaded_machine = \<lparr>brd_in = True, wrapper_in = True, mounted = True, dev_ok = True, mount_ok = True\<rparr>"

definition busy_tester :: tester where
  "busy_tester = (Tester 64 False [])\<lparr>cow_brd_inserted := True, cow_brd_fd := 5, wrapper_inserted := True,
     disk_mounted := True\<rparr>"


text \<open>
  Loading the RAM disk when its device cannot be opened. The module has been loaded; if it can
  be removed again the harness reports success and holds the module for loaded, if it cannot it
  reports an error and holds the module for removed.
\<close>

theorem open_failure_inverts_flag:
  assumes "cow_brd_fd T < 0" "os_system OS (insmod_command T) w = (0, w1)"
    "os_open OS COW_BRD_PATH ''r'' w1 = (fd, w2)" "fd < 0" "os_system OS COW_BRD_RMMOD w2 = (rm, w3)"
    "insert_cow_brd OS T w = (r, T', w')"
  shows "w' = w3 \<and> cow_brd_fd T' < 0 \<and> (r = SUCCESS \<longleftrightarrow> rm = 0) \<and> (cow_brd_inserted T' \<longleftrightarrow> rm = 0)"
  using assms by (auto simp: insert_cow_brd_def codes Let_def split: if_splits)

theorem open_failure_inverts_flag_witness:
  "\<exists>T'. insert_cow_brd machine_os (Tester 64 False [])
      \<lparr>brd_in = False, wrapper_in = False, mounted = False, dev_ok = False, mount_ok = True\<rparr> =
    (SUCCESS, T', \<lparr>brd_in = False, wrapper_in = False, mounted = False, dev_ok = False, mount_ok = True\<rparr>) \<and>
    cow_brd_inserted T'"
proof -
  let ?T = "Tester 64 False []"
  let ?m = "\<lparr>brd_in = False, wrapper_in = False, mounted = False, dev_ok = False, mount_ok = True\<rparr>"
  obtain r T' w' where e: "insert_cow_brd machine_os ?T ?m = (r, T', w')"
    by (cases "insert_cow_brd machine_os ?T ?m")
  have fd: "cow_brd_fd ?T < 0" by (simp add: Tester_def)
  have i: "os_system machine_os (insmod_command ?T) ?m = (0, ?m\<lparr>brd_in := True\<rparr>)" by simp
  have p: "os_open machine_os COW_BRD_PATH ''r'' (?m\<lparr>brd_in := True\<rparr>) = (- 1, ?m\<lparr>brd_in := True\<rparr>)" by simp
  have q: "os_system machine_os COW_BRD_RMMOD (?m\<lparr>brd_in := True\<rparr>) = (0, ?m)" by simp
  have neg: "(- 1 :: int) < 0" by simp
  show ?thesis using open_failure_inverts_flag [OF fd i p neg q e] e by auto
qed

end
