(* ===== verification/Harness_Clean.thy ===== *)
theory Harness_Clean
  imports Harness Tester_Modules
begin

text \<open>
  The main program leaves no kernel module behind and nothing mounted, on every path that returns:
  the argument goes over the machine of \<open>Tester_Modules\<close>, as a part of a world in which everything
  else, the network, the files, the linker, the devices and the test case, may do what it likes.
\<close>

section \<open>A world with a machine in it\<close>

definition module_command :: "string \<Rightarrow> bool" where
  "module_command c \<longleftrightarrow> is_command COW_BRD_INSMOD c \<or> is_command COW_BRD_RMMOD c \<or>
     is_command WRAPPER_INSMOD c \<or> is_command WRAPPER_RMMOD c"

lemma run_other_command: "\<not> module_command c \<Longrightarrow> snd (run_command c m) = m"
  by (simp add: module_command_def run_command_def)

lemma other_commands [simp]:
  "\<not> module_command (fsck_command T)" "\<not> module_command (CHR ''m'' # s)"
  by (simp_all add: module_command_def is_command_def COW_BRD_INSMOD_def COW_BRD_RMMOD_def
      WRAPPER_INSMOD_def WRAPPER_RMMOD_def fsck_command_def TEST_CASE_FSCK_def)

lemma module_commands [simp]:
  "module_command (insmod_command T)" "module_command COW_BRD_RMMOD" "module_command WRAPPER_RMMOD"
  "module_command (WRAPPER_INSMOD @ s)"
  by (simp_all add: module_command_def)

lemma run_commands [simp]:
  "run_command (insmod_command T) m = (if brd_in m then (1, m) else (0, m\<lparr>brd_in := True\<rparr>))"
  "run_command COW_BRD_RMMOD m =
     (if brd_in m \<and> \<not> wrapper_in m \<and> \<not> mounted m then (0, m\<lparr>brd_in := False\<rparr>) else (1, m))"
  "run_command (WRAPPER_INSMOD @ s) m =
     (if wrapper_in m \<or> \<not> brd_in m then (1, m) else (0, m\<lparr>wrapper_in := True\<rparr>))"
  "run_command WRAPPER_RMMOD m =
     (if wrapper_in m \<and> \<not> mounted m then (0, m\<lparr>wrapper_in := False\<rparr>) else (1, m))"
  by (simp_all add: run_command_def)

text \<open>
  What the flags of the tester must say of the machine for the cleanup to work, and the machine it
  leaves.
\<close>

definition flags_cover :: "tester \<Rightarrow> machine \<Rightarrow> bool" where
  "flags_cover T m \<longleftrightarrow> disk_mounted T = mounted m \<and> wrapper_inserted T = wrapper_in m \<and>
     (brd_in m \<longrightarrow> cow_brd_inserted T) \<and> (wrapper_in m \<longrightarrow> brd_in m) \<and> (mounted m \<longrightarrow> brd_in m)"

definition clean_machine :: "machine \<Rightarrow> bool" where
  "clean_machine m \<longleftrightarrow> \<not> brd_in m \<and> \<not> wrapper_in m \<and> \<not> mounted m"

lemma flags_cover_cong:
  "disk_mounted T' = disk_mounted T \<Longrightarrow> wrapper_inserted T' = wrapper_inserted T \<Longrightarrow>
   cow_brd_inserted T' = cow_brd_inserted T \<Longrightarrow> flags_cover T' m = flags_cover T m"
  by (simp add: flags_cover_def)

text \<open>
  \<open>mach\<close> finds the machine in the world.  The module commands act on it, and report, as
  \<open>run_command\<close> says; a mount that succeeds mounts a device of the RAM disk; unmounting what is
  mounted succeeds.
\<close>

locale machine_world =
  fixes E :: "('w, 'g) env" and mach :: "'w \<Rightarrow> machine"
  assumes system_mach: "os_system (e_os E) c w = (r, w') \<Longrightarrow> mach w' = snd (run_command c (mach w))"
    and system_result: "os_system (e_os E) c w = (r, w') \<Longrightarrow> module_command c \<Longrightarrow>
      r = fst (run_command c (mach w))"
    and mount_mach: "os_mount (e_os E) d p f opts w = (r, w') \<Longrightarrow>
      if r < 0 then mach w' = mach w else brd_in (mach w) \<and> mach w' = (mach w)\<lparr>mounted := True\<rparr>"
    and umount_mach: "os_umount (e_os E) p w = (r, w') \<Longrightarrow>
      if mounted (mach w) then 0 \<le> r \<and> mach w' = (mach w)\<lparr>mounted := False\<rparr> else mach w' = mach w"
    and open_mach: "os_open (e_os E) p md w = (fd, w') \<Longrightarrow> mach w' = mach w"
    and close_mach: "mach (os_close (e_os E) fd w) = mach w"
    and ioctl_mach: "os_ioctl (e_os E) fd cmd w = (r, w') \<Longrightarrow> mach w' = mach w"
    and hwm_mach: "os_hwm (e_os E) fd cmd w = Some (err, um, w') \<Longrightarrow> mach w' = mach w"
    and lseek_mach: "os_lseek (e_os E) fd off w = (r, w') \<Longrightarrow> mach w' = mach w"
    and write_mach: "os_write (e_os E) fd buf n w = (r, w') \<Longrightarrow> mach w' = mach w"
    and read_mach: "os_read (e_os E) fd n w = (r, bs, w') \<Longrightarrow> mach w' = mach w"
    and sync_mach: "mach (os_sync (e_os E) w) = mach w"
    and socket_mach: "net_socket (e_net E) w = (r, w') \<Longrightarrow> mach w' = mach w"
    and bind_mach: "net_bind (e_net E) fd path w = (r, w') \<Longrightarrow> mach w' = mach w"
    and listen_mach: "net_listen (e_net E) fd q w = (r, w') \<Longrightarrow> mach w' = mach w"
    and accept_mach: "net_accept (e_net E) fd w = (r, w') \<Longrightarrow> mach w' = mach w"
    and recv_mach: "net_recv (e_net E) fd n w = (rd, w') \<Longrightarrow> mach w' = mach w"
    and send_mach: "net_send (e_net E) fd dat w = (sk, w') \<Longrightarrow> mach w' = mach w"
    and net_close_mach: "mach (net_close (e_net E) fd w) = mach w"
    and unlink_mach: "mach (net_unlink (e_net E) path w) = mach w"
    and dl_open_mach: "dl_open (e_dl E) path w = (h, w') \<Longrightarrow> mach w' = mach w"
    and dl_sym_mach: "dl_sym (e_dl E) h str w = (f', err', w') \<Longrightarrow> mach w' = mach w"
    and dl_close_mach: "mach (dl_close (e_dl E) h w) = mach w"
    and dl_make_mach: "dl_make (e_dl E) h w = (i, w') \<Longrightarrow> mach w' = mach w"
    and dl_destroy_mach: "mach (dl_destroy (e_dl E) h i w) = mach w"
    and check_mach: "e_check E dt w = (cr, dt', w') \<Longrightarrow> mach w' = mach w"
    and setup_mach: "e_child_setup E w = (pid, st, w') \<Longrightarrow> mach w' = mach w"
    and run_mach: "e_child_run E w = (pid, st, w') \<Longrightarrow> mach w' = mach w"
    and write_bytes_mach: "mach (e_write_bytes E path bs w) = mach w"
    and write_text_mach: "mach (e_write_text E path txt w) = mach w"
begin

text \<open>The laws for what a call returns as a pair.\<close>

lemma mach_snd [simp]:
  "mach (snd (os_open (e_os E) p md w)) = mach w" "mach (snd (os_ioctl (e_os E) fd cmd w)) = mach w"
  "mach (snd (os_lseek (e_os E) fd off w)) = mach w" "mach (snd (os_write (e_os E) fd buf n w)) = mach w"
  "mach (snd (snd (os_read (e_os E) fd n w))) = mach w" "mach (snd (net_recv (e_net E) fd n w)) = mach w"
  "mach (snd (net_send (e_net E) fd dat w)) = mach w"
  by (metis prod.collapse open_mach ioctl_mach lseek_mach write_mach read_mach recv_mach send_mach)+

lemmas same_world = open_mach ioctl_mach hwm_mach lseek_mach write_mach read_mach recv_mach send_mach
  socket_mach bind_mach listen_mach accept_mach check_mach

lemmas same_world_eq [simp] = close_mach sync_mach net_close_mach unlink_mach dl_close_mach dl_destroy_mach
  write_bytes_mach write_text_mach

subsection \<open>Loops that leave the machine alone\<close>

lemma recv_loop_mach:
  assumes "recv_loop (e_net E) fd n buf w = Some (d, w')"
  shows "mach w' = mach w"
proof -
  have "e_net E = e_net E \<longrightarrow> mach (snd (d, w')) = mach w"
  proof (rule recv_loop.raw_induct
      [where P = "\<lambda>N fd n buf w r. N = e_net E \<longrightarrow> mach (snd r) = mach w", OF _ assms], goal_cases)
    case (1 f N s n buf w r)
    from 1(2) show ?case by (auto split: prod.split_asm option.split_asm if_split_asm dest!: 1(1) recv_mach)
  qed
  then show ?thesis by simp
qed

lemma send_loop_mach:
  assumes "send_loop (e_net E) fd dat k w = Some (ok, w')"
  shows "mach w' = mach w"
proof -
  have "e_net E = e_net E \<longrightarrow> mach (snd (ok, w')) = mach w"
  proof (rule send_loop.raw_induct
      [where P = "\<lambda>N fd dat k w r. N = e_net E \<longrightarrow> mach (snd r) = mach w", OF _ assms], goal_cases)
    case (1 f N s dat k w r)
    from 1(2) show ?case by (auto split: prod.split_asm option.split_asm if_split_asm dest!: 1(1) send_mach)
  qed
  then show ?thesis by simp
qed

lemma write_all_loop_mach:
  assumes "write_all_loop (e_os E) fd dat n k w = Some (ok, w')"
  shows "mach w' = mach w"
proof -
  have "e_os E = e_os E \<longrightarrow> mach (snd (ok, w')) = mach w"
  proof (rule write_all_loop.raw_induct
      [where P = "\<lambda>OS fd dat n k w r. OS = e_os E \<longrightarrow> mach (snd r) = mach w", OF _ assms], goal_cases)
    case (1 f OS fd dat n k w r)
    from 1(2) show ?case
      by (auto simp: Let_def bind_eq_Some_conv split: prod.split_asm option.split_asm if_split_asm dest!: 1(1) same_world)
  qed
  then show ?thesis by simp
qed

lemma drop_caches_loop_mach:
  assumes "drop_caches_loop (e_os E) fd w = Some (ok, w')"
  shows "mach w' = mach w"
proof -
  have "e_os E = e_os E \<longrightarrow> mach (snd (ok, w')) = mach w"
  proof (rule drop_caches_loop.raw_induct
      [where P = "\<lambda>OS fd w r. OS = e_os E \<longrightarrow> mach (snd r) = mach w", OF _ assms], goal_cases)
    case (1 f OS fd w r)
    from 1(2) show ?case
      by (auto simp: Let_def bind_eq_Some_conv split: prod.split_asm option.split_asm if_split_asm dest!: 1(1) same_world)
  qed
  then show ?thesis by simp
qed

lemma read_expire_loop_mach:
  assumes "read_expire_loop (e_os E) fd k buf w = Some (ok, m, buf', w')"
  shows "mach w' = mach w"
proof -
  have "e_os E = e_os E \<longrightarrow> mach ((\<lambda>(_, _, _, w). w) (ok, m, buf', w')) = mach w"
  proof (rule read_expire_loop.raw_induct
      [where P = "\<lambda>OS fd k buf w r. OS = e_os E \<longrightarrow> mach ((\<lambda>(_, _, _, w). w) r) = mach w", OF _ assms], goal_cases)
    case (1 f OS fd k buf w r)
    from 1(2) show ?case
      by (auto simp: Let_def bind_eq_Some_conv split: prod.split_asm option.split_asm if_split_asm dest!: 1(1) same_world)
  qed
  then show ?thesis by simp
qed

lemma snapshot_read_loop_mach:
  assumes "snapshot_read_loop (e_os E) fd n k buf w = Some (buf', w')"
  shows "mach w' = mach w"
proof -
  have "e_os E = e_os E \<longrightarrow> mach (snd (buf', w')) = mach w"
  proof (rule snapshot_read_loop.raw_induct
      [where P = "\<lambda>OS fd n k buf w r. OS = e_os E \<longrightarrow> mach (snd r) = mach w", OF _ assms], goal_cases)
    case (1 f OS fd n k buf w r)
    from 1(2) show ?case
      by (auto simp: Let_def bind_eq_Some_conv split: prod.split_asm option.split_asm if_split_asm dest!: 1(1) same_world)
  qed
  then show ?thesis by simp
qed

lemma snapshot_write_loop_mach:
  assumes "snapshot_write_loop (e_os E) fd n k buf w = Some w'"
  shows "mach w' = mach w"
proof -
  have "e_os E = e_os E \<longrightarrow> mach ( w') = mach w"
  proof (rule snapshot_write_loop.raw_induct
      [where P = "\<lambda>OS fd n k buf w r. OS = e_os E \<longrightarrow> mach ( r) = mach w", OF _ assms], goal_cases)
    case (1 f OS fd n k buf w r)
    from 1(2) show ?case
      by (auto simp: Let_def bind_eq_Some_conv split: prod.split_asm option.split_asm if_split_asm dest!: 1(1) same_world)
  qed
  then show ?thesis by simp
qed

lemma get_log_loop_mach:
  assumes "get_log_loop (os_hwm (e_os E) fd) jm jd log w = Some (r, log', w')"
  shows "mach w' = mach w"
proof -
  have "os_hwm (e_os E) fd = os_hwm (e_os E) fd \<longrightarrow> mach ((\<lambda>(_, _, w). w) (r, log', w')) = mach w"
  proof (rule get_log_loop.raw_induct
      [where P = "\<lambda>io jm jd log w r. io = os_hwm (e_os E) fd \<longrightarrow> mach ((\<lambda>(_, _, w). w) r) = mach w", OF _ assms], goal_cases)
    case (1 f io jm jd log w r)
    from 1(2) show ?case
      by (auto simp: Let_def bind_eq_Some_conv split: prod.split_asm option.split_asm if_split_asm dest!: 1(1) same_world)
  qed
  then show ?thesis by simp
qed

subsection \<open>Operations that leave the machine alone\<close>

lemmas loops_mach = recv_loop_mach send_loop_mach write_all_loop_mach drop_caches_loop_mach
  read_expire_loop_mach snapshot_read_loop_mach snapshot_write_loop_mach get_log_loop_mach

lemma read_int_mach: "ReadIntFromSocket (e_net E) fd w = Some (d, w') \<Longrightarrow> mach w' = mach w"
  by (auto simp: ReadIntFromSocket_def dest!: recv_loop_mach)

lemma write_int_mach: "WriteIntToSocket (e_net E) fd d w = Some (ok, w') \<Longrightarrow> mach w' = mach w"
  by (auto simp: WriteIntToSocket_def dest!: send_loop_mach)

lemma gobble_mach: "GobbleData (e_net E) fd n w = Some (ok, w') \<Longrightarrow> mach w' = mach w"
  by (auto simp: GobbleData_def dest!: recv_loop_mach)

lemma read_string_mach: "ReadStringFromSocket (e_net E) fd n w = Some (d, w') \<Longrightarrow> mach w' = mach w"
  by (auto simp: ReadStringFromSocket_def bind_eq_Some_conv split: option.split_asm if_split_asm
      dest!: recv_loop_mach)

lemma write_string_mach: "WriteStringToSocket (e_net E) fd str w = Some (ok, w') \<Longrightarrow> mach w' = mach w"
  by (auto simp: WriteStringToSocket_def bind_eq_Some_conv split: if_split_asm
      dest!: send_loop_mach write_int_mach)

lemma read_message_mach: "ReadMessageFromSocket (e_net E) fd m w = Some (ok, m', w') \<Longrightarrow> mach w' = mach w"
  by (auto simp: ReadMessageFromSocket_def Let_def elim!: bind_SomeE split: option.split_asm if_split_asm
      dest!: read_int_mach gobble_mach read_string_mach)

lemma write_message_mach: "WriteMessageToSocket (e_net E) fd m w = Some (ok, w') \<Longrightarrow> mach w' = mach w"
  by (auto simp: WriteMessageToSocket_def bind_eq_Some_conv split: if_split_asm
      dest!: write_int_mach write_string_mach)

lemma server_send_mach: "server_SendCommand (e_net E) j S c w = Some (e, w') \<Longrightarrow> mach w' = mach w"
  by (auto simp: server_SendCommand_def server_SendMessage_def split: if_split_asm dest!: write_message_mach)

lemma server_wait_mach: "server_WaitForMessage (e_net E) S m w = Some (e, S', m', w') \<Longrightarrow> mach w' = mach w"
  by (auto simp: server_WaitForMessage_def Let_def split: if_split_asm prod.split_asm
      dest!: accept_mach read_message_mach)

lemma server_init_mach: "server_Init (e_net E) q S w = Some (r, S', w') \<Longrightarrow> mach w' = mach w"
  by (auto simp: server_Init_def Let_def split: if_split_asm prod.split_asm
      dest!: socket_mach bind_mach listen_mach)

lemma server_close_mach: "server_CloseClient (e_net E) S w = (S', w') \<Longrightarrow> mach w' = mach w"
  by (auto simp: server_CloseClient_def)

lemma server_delete_mach [simp]: "mach (server_delete (e_net E) S w) = mach w"
  by (simp add: server_delete_def)

lemma await_command_mach:
  assumes "await_command (e_net E) j c S m w = Some (ok, S', w')"
  shows "mach w' = mach w"
proof -
  have "e_net E = e_net E \<longrightarrow> mach (snd (snd (ok, S', w'))) = mach w"
  proof (rule await_command.raw_induct
      [where P = "\<lambda>N j c S m w r. N = e_net E \<longrightarrow> mach (snd (snd r)) = mach w", OF _ assms], goal_cases)
    case (1 f N j c S m w r)
    from 1(2) show ?case
      by (auto simp: server_CloseClient_def elim!: bind_SomeE split: if_split_asm
          dest!: 1(1) server_wait_mach server_send_mach)
  qed
  then show ?thesis by simp
qed

lemma write_data_mach: "test_write_data R (e_os E) fd dws w = Some (ok, w') \<Longrightarrow> mach w' = mach w"
proof (induction dws arbitrary: w)
  case (Cons d dws)
  from Cons.prems show ?case
    by (auto elim!: bind_SomeE split: prod.split_asm if_split_asm
        dest!: Cons.IH write_all_loop_mach lseek_mach)
qed simp

lemma unload_mach [simp]: "mach (snd (unload_class (e_dl E) L w)) = mach w"
  by (simp add: unload_class_def)

lemma load_mach: "load_class (e_dl E) L path fs ds w = (r, L', w') \<Longrightarrow> mach w' = mach w"
  by (auto simp: load_class_def Let_def split: prod.split_asm if_split_asm
      dest!: dl_open_mach dl_sym_mach dl_make_mach)

lemma expire_mach:
  "update_dirty_expire_time (e_os E) t T w = Some (d, T', w') \<Longrightarrow>
    mach w' = mach w \<and> (\<exists>b. T' = T\<lparr>dirty_expire_time := b\<rparr>)"
  by (auto simp: update_dirty_expire_time_def read_dirty_expire_time_def write_dirty_expire_time_def
      Let_def bind_eq_Some_conv split: prod.split_asm if_split_asm dest!: open_mach read_expire_loop_mach
      write_all_loop_mach)

lemma hwm_command_mach: "hwm_command (e_os E) c T w = Some w' \<Longrightarrow> mach w' = mach w"
  by (auto simp: hwm_command_def split: if_split_asm dest!: hwm_mach)

lemma get_log_mach:
  "get_wrapper_log (e_os E) jm jd T w = Some (r, T', w') \<Longrightarrow>
    mach w' = mach w \<and> (\<exists>l. T' = T\<lparr>log_data := l\<rparr>)"
  by (auto simp: get_wrapper_log_def split: if_split_asm dest!: get_log_loop_mach)
    (metis tester.surjective tester.update_convs(13))

lemma save_mach: "log_snapshot_save (e_os E) jb ok T w = Some (r, file, w') \<Longrightarrow> mach w' = mach w"
  by (auto simp: log_snapshot_save_def split: if_split_asm dest!: snapshot_read_loop_mach)

lemma load_image_mach: "log_snapshot_load (e_os E) file T w = Some (r, w') \<Longrightarrow> mach w' = mach w"
  by (auto simp: log_snapshot_load_def Let_def split: prod.split_asm option.split_asm if_split_asm
      dest!: snapshot_write_loop_mach ioctl_mach open_mach lseek_mach)

lemma caches_mach: "clear_caches (e_os E) w = Some (r, w') \<Longrightarrow> mach w' = mach w"
  by (auto simp: clear_caches_def Let_def split: prod.split_asm if_split_asm dest!: drop_caches_loop_mach open_mach)

subsection \<open>Operations on modules and mounts\<close>

lemma system_other: "os_system (e_os E) c w = (r, w') \<Longrightarrow> \<not> module_command c \<Longrightarrow> mach w' = mach w"
  using system_mach run_other_command by metis

lemma system_module:
  "os_system (e_os E) c w = (r, w') \<Longrightarrow> module_command c \<Longrightarrow>
    r = fst (run_command c (mach w)) \<and> mach w' = snd (run_command c (mach w))"
  using system_mach system_result by blast

lemma insert_brd_cover:
  assumes "insert_cow_brd (e_os E) T w = (r, T', w')" "clean_machine (mach w)" "cow_brd_fd T < 0"
    "\<not> disk_mounted T" "\<not> wrapper_inserted T"
  shows "flags_cover T' (mach w') \<and> \<not> disk_mounted T' \<and> r = SUCCESS"
  using assms
  by (auto simp: insert_cow_brd_def flags_cover_def clean_machine_def Let_def
      split: prod.split_asm if_split_asm dest!: system_module open_mach)

lemma mount_cover:
  assumes "mount_device (e_os E) d opts T w = (r, T', w')" "flags_cover T (mach w)" "\<not> disk_mounted T"
  shows "flags_cover T' (mach w')"
  using assms
  by (auto simp: mount_device_def flags_cover_def Let_def split: prod.split_asm if_split_asm
      dest!: mount_mach)

lemma umount_cover:
  assumes "umount_device (e_os E) T w = (r, T', w')" "flags_cover T (mach w)"
  shows "flags_cover T' (mach w') \<and> \<not> disk_mounted T' \<and> r = SUCCESS"
  using assms
  by (auto simp: umount_device_def flags_cover_def Let_def split: prod.split_asm if_split_asm
      dest!: umount_mach)

lemma insert_wrapper_cover:
  assumes "insert_wrapper (e_os E) T w = (r, T', w')" "flags_cover T (mach w)"
  shows "flags_cover T' (mach w') \<and> disk_mounted T' = disk_mounted T"
  using assms
  by (auto simp: insert_wrapper_def flags_cover_def Let_def split: prod.split_asm if_split_asm
      dest!: system_module)

lemma remove_wrapper_cover:
  assumes "remove_wrapper (e_os E) T w = (r, T', w')" "flags_cover T (mach w)"
  shows "flags_cover T' (mach w') \<and> disk_mounted T' = disk_mounted T \<and>
    (\<not> disk_mounted T \<longrightarrow> r = SUCCESS \<and> \<not> wrapper_inserted T')"
  using assms
  by (auto simp: remove_wrapper_def flags_cover_def Let_def split: prod.split_asm if_split_asm
      dest!: system_module)

lemma remove_brd_cover:
  assumes "remove_cow_brd (e_os E) T w = (r, T', w')" "flags_cover T (mach w)"
  shows "flags_cover T' (mach w') \<and> disk_mounted T' = disk_mounted T \<and>
    (\<not> disk_mounted T \<and> \<not> wrapper_inserted T \<longrightarrow> clean_machine (mach w'))"
proof (cases "cow_brd_inserted T")
  case True
  define w1 where "w1 = (if cow_brd_fd T \<noteq> - 1 then os_close (e_os E) (cow_brd_fd T) w else w)"
  obtain rm w2 where rm: "os_system (e_os E) COW_BRD_RMMOD w1 = (rm, w2)" by fastforce
  have m1: "mach w1 = mach w" by (simp add: w1_def)
  have w': "w' = w2" and t: "cow_brd_inserted T' \<or> rm = 0" "disk_mounted T' = disk_mounted T"
    "wrapper_inserted T' = wrapper_inserted T"
    using assms(1) rm True by (auto simp: remove_cow_brd_def w1_def Let_def split: if_split_asm)
  have "rm = 0 \<Longrightarrow> \<not> brd_in (mach w2) \<and> \<not> wrapper_in (mach w2) \<and> \<not> mounted (mach w2)"
    and "wrapper_in (mach w2) = wrapper_in (mach w)" "mounted (mach w2) = mounted (mach w)"
    "brd_in (mach w2) \<longrightarrow> brd_in (mach w)" "\<not> wrapper_in (mach w) \<Longrightarrow> \<not> mounted (mach w) \<Longrightarrow> \<not> brd_in (mach w2)"
    "wrapper_in (mach w) \<or> mounted (mach w) \<Longrightarrow> mach w2 = mach w"
    using system_module [OF rm] assms(2) m1 by (auto simp: flags_cover_def split: if_split_asm)
  then show ?thesis using assms(2) t w' by (auto simp: flags_cover_def clean_machine_def)
qed (use assms in \<open>auto simp: remove_cow_brd_def flags_cover_def clean_machine_def\<close>)

lemma cleanup_cover:
  assumes "cleanup_harness (e_os E) unload T w = (T', w')" "flags_cover T (mach w)"
    "\<And>w. mach (unload w) = mach w"
  shows "flags_cover T' (mach w') \<and> \<not> disk_mounted T' \<and> clean_machine (mach w')"
proof -
  obtain r1 T1 w1 where u: "umount_device (e_os E) T w = (r1, T1, w1)" by (metis prod_cases3)
  obtain r2 T2 w2 where v: "remove_wrapper (e_os E) T1 w1 = (r2, T2, w2)" by (metis prod_cases3)
  obtain r3 T3 w3 where b: "remove_cow_brd (e_os E) T2 w2 = (r3, T3, w3)" by (metis prod_cases3)
  note uc = umount_cover [OF u assms(2)]
  note vc = remove_wrapper_cover [OF v conjunct1 [OF uc]]
  note bc = remove_brd_cover [OF b conjunct1 [OF vc]]
  show ?thesis
    using assms(1,3) uc vc bc by (auto simp: cleanup_harness_def u v b split: if_split_asm)
qed

subsection \<open>Testing\<close>

lemma check_written_cover:
  assumes "check_written (e_os E) (e_check E) wexit info T suite w = (T', suite', w')"
    "flags_cover T (mach w)" "\<not> disk_mounted T"
  shows "flags_cover T' (mach w') \<and> \<not> disk_mounted T'"
proof -
  obtain fsck w1 where s: "os_system (e_os E) (fsck_command T) w = (fsck, w1)" by fastforce
  obtain r T1 w2 where m: "mount_device (e_os E) SNAPSHOT_PATH None T w1 = (r, T1, w2)"
    by (metis prod_cases3)
  obtain cr dt w3 where c: "e_check E (data_test info) w2 = (cr, dt, w3)" by (metis prod_cases3)
  obtain u T2 w4 where u: "umount_device (e_os E) T1 w3 = (u, T2, w4)" by (metis prod_cases3)
  have w1: "mach w1 = mach w" using system_other [OF s] by simp
  have t1: "flags_cover T1 (mach w2)" using mount_cover [OF m] assms(2,3) w1 by simp
  have t2: "flags_cover T2 (mach w4) \<and> \<not> disk_mounted T2"
    using umount_cover [OF u] t1 check_mach [OF c] by simp
  have f: "r \<noteq> SUCCESS \<Longrightarrow> \<not> disk_mounted T1"
    using m by (auto simp: mount_device_def Let_def split: prod.split_asm if_split_asm)
  show ?thesis
    using assms w1 t1 t2 f
    by (auto simp: check_written_def check_mounted_def s m c u Let_def split: if_split_asm)
qed

lemma check_crash_state_cover:
  assumes "check_crash_state R (e_os E) (e_check E) wexit junk dws T suite w = Some (T', suite', w')"
    "flags_cover T (mach w)" "\<not> disk_mounted T"
  shows "flags_cover T' (mach w') \<and> \<not> disk_mounted T'"
  using assms
  by (auto simp: check_crash_state_def clone_device_restore_def Let_def elim!: bind_SomeE
      split: prod.split_asm if_split_asm dest!: open_mach ioctl_mach write_data_mach check_written_cover)

lemma permutation_rounds_cover:
  assumes "permutation_rounds R (e_os E) (e_check E) wexit junk gen n P T suite w = Some (T', P', suite', w')"
    "flags_cover T (mach w)" "\<not> disk_mounted T"
  shows "flags_cover T' (mach w') \<and> \<not> disk_mounted T'"
  using assms
proof (induction n arbitrary: P T suite w)
  case (Suc n)
  from Suc.prems show ?case
    by (auto elim!: bind_SomeE split: if_split_asm dest!: check_crash_state_cover dest: Suc.IH)
qed simp

subsection \<open>Steps of the main program\<close>

text \<open>
  A step takes the states of \<open>P\<close> to states of \<open>Q\<close>, or ends the program with a clean machine.
  \<open>covered\<close> states can be cleaned up, \<open>idle\<close> ones have nothing mounted.
\<close>

definition covered :: "('w, 'g) harness \<Rightarrow> bool" where
  "covered H \<longleftrightarrow> flags_cover (h_tester H) (mach (h_world H)) \<and>
     (opt_flags_dev (h_opts H) \<noteq> [] \<or> opt_log_file_load (h_opts H) \<noteq> [])"

definition idle :: "('w, 'g) harness \<Rightarrow> bool" where
  "idle H \<longleftrightarrow> covered H \<and> \<not> disk_mounted (h_tester H)"

definition left_clean :: "('w, 'g) harness \<Rightarrow> bool" where
  "left_clean H \<longleftrightarrow> clean_machine (mach (h_world H))"

definition ok_step :: "(('w, 'g) harness \<Rightarrow> bool) \<Rightarrow> ('w, 'g) harness step \<Rightarrow>
    (('w, 'g) harness \<Rightarrow> bool) \<Rightarrow> bool" where
  "ok_step P f Q \<longleftrightarrow> (\<forall>H c H'. P H \<longrightarrow> f H = Some (c, H') \<longrightarrow>
     (case c of None \<Rightarrow> Q H' | Some _ \<Rightarrow> left_clean H'))"

lemma ok_steps_nil: "ok_step P (run_steps []) P"
  by (simp add: ok_step_def)

lemma ok_steps_cons: "ok_step P f Q \<Longrightarrow> ok_step Q (run_steps fs) R \<Longrightarrow> ok_step P (run_steps (f # fs)) R"
  unfolding ok_step_def
  by (fastforce elim!: bind_SomeE split: option.splits)

lemma ok_steps_append:
  "ok_step P (run_steps fs) Q \<Longrightarrow> ok_step Q (run_steps gs) R \<Longrightarrow> ok_step P (run_steps (fs @ gs)) R"
proof (induction fs arbitrary: P)
  case (Cons f fs)
  show ?case
    unfolding ok_step_def append_Cons
  proof (intro allI impI)
    fix H c H'
    assume p: "P H" and r: "run_steps (f # fs @ gs) H = Some (c, H')"
    from r obtain c1 H1 where f: "f H = Some (c1, H1)"
      and k: "(case c1 of None \<Rightarrow> run_steps (fs @ gs) H1 | Some x \<Rightarrow> Some (Some x, H1)) = Some (c, H')"
      by (auto elim!: bind_SomeE)
    show "case c of None \<Rightarrow> R H' | Some _ \<Rightarrow> left_clean H'"
    proof (cases c1)
      case None
      have "ok_step (\<lambda>H. H = H1) (run_steps fs) Q"
        using Cons.prems(1) p f None by (fastforce simp: ok_step_def)
      from Cons.IH [OF this Cons.prems(2)] show ?thesis using k None by (simp add: ok_step_def)
    next
      case (Some x)
      then show ?thesis using Cons.prems(1) p f k by (fastforce simp: ok_step_def)
    qed
  qed
qed (auto simp: ok_step_def)

lemma ok_weaken: "ok_step P f Q \<Longrightarrow> (\<And>H. P' H \<Longrightarrow> P H) \<Longrightarrow> (\<And>H. Q H \<Longrightarrow> Q' H) \<Longrightarrow> ok_step P' f Q'"
  by (fastforce simp: ok_step_def split: option.splits)

lemma ok_go_on: "(\<And>H. P H \<Longrightarrow> Q (f H)) \<Longrightarrow> ok_step P (go_on f) Q"
  by (auto simp: ok_step_def go_on_def)

lemma ok_or_fail:
  assumes "\<And>H. covered H \<Longrightarrow> left_clean (g H)"
    and "\<And>H r H'. P H \<Longrightarrow> f H = Some (r, H') \<Longrightarrow> covered H' \<and> (r = SUCCESS \<longrightarrow> Q H')"
  shows "ok_step P (or_fail g f) Q"
  using assms by (fastforce simp: ok_step_def or_fail_def split: if_split_asm)

lemma cleanup_keeps: "covered H \<Longrightarrow> idle (cleanup E H) \<and> left_clean (cleanup E H)"
  unfolding cleanup_def
  by (auto simp: idle_def covered_def left_clean_def Let_def split: prod.split dest!: cleanup_cover)

lemma give_up_clean: "covered H \<Longrightarrow> left_clean (give_up E H)"
  unfolding give_up_def by (rule conjunct2 [OF cleanup_keeps]) (simp add: covered_def delete_com_def)

lemmas ok_cleanup = ok_or_fail [OF conjunct2 [OF cleanup_keeps]]
lemmas ok_give_up = ok_or_fail [OF give_up_clean]

text \<open>Operations: what they do to the state.\<close>

lemma on_tester_ok:
  assumes "on_tester f H = Some (r, H')"
    "\<And>T' w'. f (h_tester H) (h_world H) = (r, T', w') \<Longrightarrow> flags_cover T' (mach w')" "covered H"
  shows "covered H'"
  using assms by (auto simp: on_tester_def covered_def Let_def split: prod.split_asm)

lemma same_machine:
  assumes "covered H" "mach (h_world H') = mach (h_world H)" "h_tester H' = h_tester H" "h_opts H' = h_opts H"
  shows "covered H' \<and> (idle H \<longrightarrow> idle H')"
  using assms by (simp add: covered_def idle_def)

lemma covered_world: "covered H \<Longrightarrow> mach w = mach (h_world H) \<Longrightarrow> covered (H\<lparr>h_world := w\<rparr>)"
  by (simp add: covered_def)

lemma send_keeps: "send_command E c H = Some (r, H') \<Longrightarrow> covered H \<Longrightarrow> covered H' \<and> (idle H \<longrightarrow> idle H')"
  by (rule same_machine) (auto simp: send_command_def dest!: server_send_mach)

lemma await_keeps: "await E c H = Some (r, H') \<Longrightarrow> covered H \<Longrightarrow> covered H' \<and> (idle H \<longrightarrow> idle H')"
  by (rule same_machine) (auto simp: await_def dest!: await_command_mach)

lemma close_client_keeps: "covered H \<Longrightarrow> covered (close_client E H) \<and> (idle H \<longrightarrow> idle (close_client E H))"
  by (rule same_machine) (auto simp: close_client_def server_CloseClient_def)

lemma idle_covered: "idle H \<Longrightarrow> covered H" by (simp add: idle_def)

lemma on_world_keeps:
  assumes "on_world f H = Some (r, H')" "\<And>r w'. f (h_tester H) (h_world H) = (r, w') \<Longrightarrow> mach w' = mach (h_world H)"
    "covered H"
  shows "covered H' \<and> (idle H \<longrightarrow> idle H')"
  by (rule same_machine) (use assms in \<open>auto simp: on_world_def Let_def split: prod.split_asm\<close>)

lemma on_world_opt_keeps:
  assumes "on_world_opt f H = Some (r, H')"
    "\<And>r w'. f (h_tester H) (h_world H) = Some (r, w') \<Longrightarrow> mach w' = mach (h_world H)" "covered H"
  shows "covered H' \<and> (idle H \<longrightarrow> idle H')"
  by (rule same_machine) (use assms in \<open>auto simp: on_world_opt_def\<close>)

lemma wrapper_call_ok:
  assumes "\<And>T w w'. f T w = Some w' \<Longrightarrow> mach w' = mach w"
  shows "ok_step covered (wrapper_call f) covered"
  using assms by (auto simp: ok_step_def wrapper_call_def covered_def)

lemma hwm_calls_ok:
  "ok_step covered (wrapper_call (clear_wrapper_log (e_os E))) covered"
  "ok_step covered (wrapper_call (begin_wrapper_logging (e_os E))) covered"
  "ok_step covered (wrapper_call (end_wrapper_logging (e_os E))) covered"
  by (rule wrapper_call_ok, simp add: clear_wrapper_log_def begin_wrapper_logging_def
      end_wrapper_logging_def hwm_command_mach)+

lemma umount_ok: "ok_step covered (or_fail (cleanup E) (on_tester (umount_device (e_os E)))) idle"
  by (rule ok_cleanup)
    (auto simp: on_tester_def covered_def idle_def Let_def split: prod.split_asm dest!: umount_cover)

lemma mount_raw_ok:
  "ok_step idle (or_fail (cleanup E)
     (\<lambda>H. on_tester (mount_device_raw (e_os E) (Some (opt_mount_opts (h_opts H)))) H)) covered"
  by (rule ok_cleanup)
    (auto simp: on_tester_def covered_def idle_def mount_device_raw_def Let_def
      split: prod.split_asm if_split_asm dest!: mount_cover)

lemma mount_wrapper_ok:
  "ok_step idle (or_fail (cleanup E)
     (\<lambda>H. on_tester (mount_wrapper_device (e_os E) (Some (opt_mount_opts (h_opts H)))) H)) covered"
  by (rule ok_cleanup)
    (auto simp: on_tester_def covered_def idle_def mount_wrapper_device_def Let_def
      split: prod.split_asm dest!: mount_cover)

lemma insert_wrapper_ok: "ok_step idle (or_fail (cleanup E) (on_tester (insert_wrapper (e_os E)))) idle"
  by (rule ok_cleanup)
    (auto simp: on_tester_def covered_def idle_def Let_def split: prod.split_asm dest!: insert_wrapper_cover)

lemma remove_wrapper_ok: "ok_step idle (or_fail (cleanup E) (on_tester (remove_wrapper (e_os E)))) idle"
  by (rule ok_cleanup)
    (auto simp: on_tester_def covered_def idle_def Let_def split: prod.split_asm dest!: remove_wrapper_cover)

lemma get_ioctl_ok: "ok_step covered (or_fail (cleanup E) (on_tester (get_wrapper_ioctl (e_os E)))) covered"
proof (rule ok_cleanup)
  fix H r H'
  assume c: "covered H" and f: "on_tester (get_wrapper_ioctl (e_os E)) H = Some (r, H')"
  obtain fd w where o: "os_open (e_os E) FULL_WRAPPER_PATH ''r'' (h_world H) = (fd, w)" by fastforce
  have "H' = H\<lparr>h_tester := (h_tester H)\<lparr>ioctl_fd := fd\<rparr>, h_world := w\<rparr>"
    using f by (simp add: on_tester_def get_wrapper_ioctl_def o split: if_split_asm)
  then have "covered H'" using c open_mach [OF o] by (simp add: covered_def flags_cover_def)
  then show "covered H' \<and> (r = SUCCESS \<longrightarrow> covered H')" by blast
qed

lemma drop_ioctl_ok: "ok_step idle (go_on (drop_wrapper_ioctl E)) idle"
  by (rule ok_go_on)
    (auto simp: drop_wrapper_ioctl_def put_wrapper_ioctl_def idle_def covered_def flags_cover_def)

lemma fetch_log_ok: "ok_step covered (or_fail (cleanup E) (fetch_log E)) covered"
  by (rule ok_cleanup) (auto simp: fetch_log_def covered_def flags_cover_def dest!: get_log_mach)

subsection \<open>Phases\<close>

lemma user_setup_ok: "ok_step covered (user_setup E) covered"
proof -
  have "ok_step covered (or_fail (give_up E) (await E kBeginLog)) covered"
    by (rule ok_give_up) (auto dest: await_keeps)
  moreover have "ok_step covered (standalone_setup E) covered"
    by (auto simp: ok_step_def standalone_setup_def Let_def split: prod.split_asm if_split_asm
        dest!: setup_mach intro!: covered_world idle_covered [OF conjunct1 [OF cleanup_keeps]])
  ultimately show ?thesis by (simp add: ok_step_def user_setup_def)
qed

lemma save_image_ok: "ok_step idle (or_fail (cleanup E) (save_image E)) idle"
proof (rule ok_cleanup)
  fix H r H'
  assume i: "idle H" and s: "save_image E H = Some (r, H')"
  have "covered H' \<and> (idle H \<longrightarrow> idle H')"
    by (rule same_machine [OF idle_covered [OF i]])
      (use s in \<open>auto simp: save_image_def Let_def split: if_split_asm option.split dest!: save_mach\<close>)
  then show "covered H' \<and> (r = SUCCESS \<longrightarrow> idle H')" using i by blast
qed

lemma format_mach: "format_drive (e_os E) T w = (r, w') \<Longrightarrow> mach w' = mach w"
  by (auto simp: format_drive_def Let_def split: prod.split_asm if_split_asm dest!: system_other)

lemma clone_mach: "clone_device (e_os E) T w = (r, w') \<Longrightarrow> mach w' = mach w"
  by (auto simp: clone_device_def Let_def split: prod.split_asm if_split_asm dest!: ioctl_mach)

lemma world_ok:
  assumes "\<And>T w r w'. f T w = (r, w') \<Longrightarrow> mach w' = mach w"
  shows "ok_step idle (or_fail (cleanup E) (on_world f)) idle"
proof (rule ok_cleanup)
  fix H r H'
  assume i: "idle H" and f: "on_world f H = Some (r, H')"
  show "covered H' \<and> (r = SUCCESS \<longrightarrow> idle H')"
    using on_world_keeps [OF f _ idle_covered [OF i]] assms i by meson
qed

lemma world_opt_ok:
  assumes "\<And>T w r w'. f T w = Some (r, w') \<Longrightarrow> mach w' = mach w"
  shows "ok_step idle (or_fail (cleanup E) (on_world_opt f)) idle"
proof (rule ok_cleanup)
  fix H r H'
  assume i: "idle H" and f: "on_world_opt f H = Some (r, H')"
  show "covered H' \<and> (r = SUCCESS \<longrightarrow> idle H')"
    using on_world_opt_keeps [OF f _ idle_covered [OF i]] assms i by meson
qed

lemma create_image_ok:
  "ok_step (\<lambda>H. idle H \<and> opt_log_file_load (h_opts H) = []) (run_steps (create_image E)) idle"
proof -
  have c: "ok_step (\<lambda>H. idle H \<and> opt_log_file_load (h_opts H) = []) check_flags_device idle"
    by (auto simp: ok_step_def check_flags_device_def idle_def covered_def)
  have d: "ok_step idle (go_on (\<lambda>H. H\<lparr>h_tester := set_flag_device (opt_flags_dev (h_opts H)) (h_tester H)\<rparr>)) idle"
    by (rule ok_go_on) (auto simp: idle_def covered_def flags_cover_def set_flag_device_def)
  show ?thesis
    unfolding create_image_def
    by (intro ok_steps_cons [OF c] ok_steps_cons [OF d] ok_steps_cons [OF world_ok]
        ok_steps_cons [OF mount_raw_ok] ok_steps_cons [OF user_setup_ok] ok_steps_cons [OF umount_ok]
        ok_steps_cons [OF save_image_ok] ok_steps_nil) (simp_all add: format_mach clone_mach)
qed

lemma phase1_ok: "ok_step idle (phase1 E) idle"
proof -
  have "ok_step idle (or_fail (cleanup E) (load_image_file E)) idle"
    unfolding load_image_file_def
  proof (rule ok_cleanup)
    fix H r H'
    assume i: "idle H" and f: "on_world_opt (\<lambda>T w. log_snapshot_load (e_os E)
      (e_read_bytes E (opt_log_file_load (h_opts H) @ ''_snap'') w) T w) H = Some (r, H')"
    show "covered H' \<and> (r = SUCCESS \<longrightarrow> idle H')"
      using on_world_opt_keeps [OF f _ idle_covered [OF i]] load_image_mach i by meson
  qed
  then show ?thesis using create_image_ok by (simp add: ok_step_def phase1_def)
qed

lemma user_workload_ok: "ok_step covered (user_workload E) covered"
proof -
  have a: "ok_step covered (or_fail (give_up E) (send_command E kBeginLogDone)) covered"
    by (rule ok_give_up) (auto dest: send_keeps)
  have b: "ok_step covered (go_on (close_client E)) covered"
    by (rule ok_go_on) (use close_client_keeps in blast)
  have c: "ok_step covered (or_fail (give_up E) (await E kEndLog)) covered"
    by (rule ok_give_up) (auto dest: await_keeps)
  have d: "ok_step covered (standalone_run E) covered"
    by (auto simp: ok_step_def standalone_run_def Let_def split: prod.split_asm if_split_asm
        dest!: run_mach intro!: covered_world conjunct2 [OF cleanup_keeps])
  have "ok_step covered (run_steps [or_fail (give_up E) (send_command E kBeginLogDone), go_on (close_client E),
      or_fail (give_up E) (await E kEndLog)]) covered"
    by (intro ok_steps_cons [OF a] ok_steps_cons [OF b] ok_steps_cons [OF c] ok_steps_nil)
  then show ?thesis using d by (simp add: ok_step_def user_workload_def)
qed

lemma save_profile_ok: "ok_step idle (or_fail (cleanup E) (save_profile E)) idle"
proof (rule ok_cleanup)
  fix H r H'
  assume i: "idle H" and s: "save_profile E H = Some (r, H')"
  have "covered H' \<and> (idle H \<longrightarrow> idle H')"
    by (rule same_machine [OF idle_covered [OF i]])
      (use s in \<open>auto simp: save_profile_def Let_def split: if_split_asm\<close>)
  then show "covered H' \<and> (r = SUCCESS \<longrightarrow> idle H')" using i by blast
qed

lemma answer_end_log_ok: "ok_step idle (answer_end_log E) idle"
proof -
  have a: "ok_step idle (or_fail (give_up E) (send_command E kEndLogDone)) idle"
    by (rule ok_give_up) (auto dest: send_keeps idle_covered)
  have b: "ok_step idle (go_on (close_client E)) idle"
    by (rule ok_go_on) (use close_client_keeps idle_covered in blast)
  have "ok_step idle (run_steps [or_fail (give_up E) (send_command E kEndLogDone), go_on (close_client E)]) idle"
    by (intro ok_steps_cons [OF a] ok_steps_cons [OF b] ok_steps_nil)
  then show ?thesis by (simp add: ok_step_def answer_end_log_def)
qed

lemma record_workload_ok: "ok_step idle (run_steps (record_workload E)) idle"
  unfolding record_workload_def
  by (intro ok_steps_cons [OF insert_wrapper_ok] ok_steps_cons [OF mount_wrapper_ok]
      ok_steps_cons [OF get_ioctl_ok] ok_steps_cons [OF hwm_calls_ok(1)] ok_steps_cons [OF hwm_calls_ok(2)]
      ok_steps_cons [OF user_workload_ok] ok_steps_cons [OF hwm_calls_ok(3)] ok_steps_cons [OF fetch_log_ok]
      ok_steps_cons [OF umount_ok] ok_steps_cons [OF drop_ioctl_ok] ok_steps_cons [OF remove_wrapper_ok]
      ok_steps_cons [OF save_profile_ok] ok_steps_cons [OF answer_end_log_ok] ok_steps_nil)

lemma load_profile_ok: "ok_step idle (or_fail (cleanup E) (load_profile E)) idle"
  by (rule ok_cleanup)
    (auto simp: load_profile_def idle_def covered_def flags_cover_def split: if_split_asm)

lemma phase2_ok: "ok_step idle (phase2 E) idle"
proof -
  have a: "ok_step idle (or_fail (cleanup E) (on_world_opt (\<lambda>T. clear_caches (e_os E)))) idle"
    by (rule world_opt_ok) (rule caches_mach)
  have b: "ok_step idle (\<lambda>H. if opt_log_file_load (h_opts H) = [] then run_steps (record_workload E) H
      else or_fail (cleanup E) (load_profile E) H) idle"
    using record_workload_ok load_profile_ok by (simp add: ok_step_def)
  have "ok_step idle (run_steps [or_fail (cleanup E) (on_world_opt (\<lambda>T. clear_caches (e_os E))),
      \<lambda>H. if opt_log_file_load (h_opts H) = [] then run_steps (record_workload E) H
      else or_fail (cleanup E) (load_profile E) H]) idle"
    by (intro ok_steps_cons [OF a] ok_steps_cons [OF b] ok_steps_nil)
  then show ?thesis by (simp add: ok_step_def phase2_def)
qed

lemma await_tests_ok: "ok_step idle (await_tests E) idle"
proof -
  have "ok_step idle (or_fail (give_up E) (await E kRunTests)) idle"
    by (rule ok_give_up) (auto dest: await_keeps idle_covered)
  then show ?thesis by (simp add: ok_step_def await_tests_def)
qed

lemma run_tests_ok: "ok_step idle (run_tests E) idle"
  unfolding ok_step_def
proof (intro allI impI)
  fix H c H'
  assume i: "idle H" and f: "run_tests E H = Some (c, H')"
  show "case c of None \<Rightarrow> idle H' | Some _ \<Rightarrow> left_clean H'"
  proof (cases "opt_dry_run (h_opts H)")
    case True
    then show ?thesis using i f by (simp add: run_tests_def)
  next
    case False
    then obtain res more T P w where t: "test_check_random_permutations (e_flags E) (e_os E) (e_check E)
        (e_wexit E) (junk_word (e_junk E)) (e_indet E) (e_gen E) (opt_iterations (h_opts H)) (h_permuter H)
        (h_tester H) (h_world H) = Some (res, more, T, P, w)"
      using f by (auto simp: run_tests_def)
    obtain r T1 w1 where b: "remove_cow_brd (e_os E) T w = (r, T1, w1)" by (metis prod_cases3)
    obtain T0 P0 suite where p: "permutation_rounds (e_flags E) (e_os E) (e_check E) (e_wexit E)
        (junk_word (e_junk E)) (e_gen E) (nat (opt_iterations (h_opts H)))
        ((h_permuter H)\<lparr>epochs := InitDataVector (e_flags E) (e_indet E) (log_data (h_tester H))\<rparr>)
        (h_tester H) TestSuiteResult (h_world H) = Some (T0, P0, suite, w)"
      and T: "T = T0\<lparr>test_results := test_results T0 @ [suite]\<rparr>"
      using t by (auto simp: test_check_random_permutations_def)
    have "flags_cover T0 (mach w) \<and> \<not> disk_mounted T0"
      using permutation_rounds_cover [OF p] i by (simp add: idle_def covered_def)
    then have "flags_cover T (mach w) \<and> \<not> disk_mounted T" by (auto simp: T flags_cover_def)
    then have "flags_cover T1 (mach w1) \<and> \<not> disk_mounted T1" using remove_brd_cover [OF b] by blast
    then show ?thesis using f False t b i by (auto simp: run_tests_def idle_def covered_def)
  qed
qed

definition finished :: "('w, 'g) harness \<Rightarrow> bool" where
  "finished H \<longleftrightarrow> idle H \<and> left_clean H"

lemma answer_tests_ok: "ok_step finished (answer_tests E) finished"
proof -
  have a: "ok_step finished (or_fail (give_up E) (send_command E kRunTestsDone)) finished"
  proof (rule ok_give_up)
    fix H r H'
    assume i: "finished H" and s: "send_command E kRunTestsDone H = Some (r, H')"
    have "mach (h_world H') = mach (h_world H)" using s by (auto simp: send_command_def dest!: server_send_mach)
    then show "covered H' \<and> (r = SUCCESS \<longrightarrow> finished H')"
      using i send_keeps [OF s] by (auto simp: finished_def left_clean_def idle_covered)
  qed
  have b: "ok_step finished (go_on (delete_com E)) finished"
    by (rule ok_go_on) (auto simp: finished_def idle_def covered_def left_clean_def delete_com_def)
  have "ok_step finished (run_steps [or_fail (give_up E) (send_command E kRunTestsDone), go_on (delete_com E)]) finished"
    by (intro ok_steps_cons [OF a] ok_steps_cons [OF b] ok_steps_nil)
  then show ?thesis by (auto simp: ok_step_def answer_tests_def)
qed

text \<open>Before the RAM disk is loaded the machine is clean.\<close>

definition before :: "('w, 'g) harness \<Rightarrow> bool" where
  "before H \<longleftrightarrow> left_clean H \<and> (opt_flags_dev (h_opts H) \<noteq> [] \<or> opt_log_file_load (h_opts H) \<noteq> [])"

definition fresh :: "('w, 'g) harness \<Rightarrow> bool" where
  "fresh H \<longleftrightarrow> before H \<and> cow_brd_fd (h_tester H) < 0 \<and> \<not> disk_mounted (h_tester H) \<and>
     \<not> wrapper_inserted (h_tester H)"

lemma open_background_ok: "ok_step before (open_background E) before"
  by (auto simp: ok_step_def open_background_def before_def left_clean_def Let_def delete_com_def
      split: if_split_asm dest!: server_init_mach)

lemma insert_brd_ok: "ok_step fresh (or_fail id (on_tester (insert_cow_brd (e_os E)))) idle"
  by (auto simp: ok_step_def or_fail_def on_tester_def fresh_def before_def left_clean_def idle_def covered_def
      Let_def split: prod.split_asm dest!: insert_brd_cover)

lemma tester_step_ok:
  assumes "\<And>H r H'. f H = Some (r, H') \<Longrightarrow> mach (h_world H') = mach (h_world H) \<and> h_opts H' = h_opts H \<and>
    disk_mounted (h_tester H') = disk_mounted (h_tester H) \<and>
    wrapper_inserted (h_tester H') = wrapper_inserted (h_tester H) \<and>
    cow_brd_inserted (h_tester H') = cow_brd_inserted (h_tester H)"
  shows "ok_step idle (or_fail (cleanup E) f) idle"
proof (rule ok_cleanup)
  fix H r H'
  assume i: "idle H" and f: "f H = Some (r, H')"
  show "covered H' \<and> (r = SUCCESS \<longrightarrow> idle H')"
    using i assms [OF f] by (auto simp: idle_def covered_def flags_cover_def)
qed

lemma phase0_ok: "ok_step before (run_steps (phase0 E test_case)) idle"
proof -
  have a: "ok_step before (check_arguments test_case) before"
    by (auto simp: ok_step_def check_arguments_def before_def split: if_split_asm)
  have b: "ok_step before (go_on (make_tester E)) fresh"
    by (rule ok_go_on) (auto simp: fresh_def before_def left_clean_def make_tester_def Tester_def)
  have c: "ok_step idle (go_on set_file_system) idle"
    by (rule ok_go_on)
      (auto simp: idle_def covered_def flags_cover_def set_file_system_def set_device_def set_fs_type_def)
  have d: "ok_step idle (or_fail (cleanup E) (load_test_case E p)) idle" for p
    by (rule tester_step_ok) (auto simp: load_test_case_def Let_def split: prod.split_asm dest!: load_mach)
  have e: "ok_step idle (or_fail (cleanup E) (load_permuter E)) idle"
    by (rule tester_step_ok) (auto simp: load_permuter_def Let_def split: prod.split_asm dest!: load_mach)
  have f: "ok_step idle (or_fail (cleanup E) (set_expire_time E)) idle"
    by (rule tester_step_ok) (auto simp: set_expire_time_def dest!: expire_mach)
  show ?thesis
    unfolding phase0_def
    by (intro ok_steps_cons [OF a] ok_steps_cons [OF open_background_ok] ok_steps_cons [OF b]
        ok_steps_cons [OF insert_brd_ok] ok_steps_cons [OF c] ok_steps_cons [OF d] ok_steps_cons [OF e]
        ok_steps_cons [OF f] ok_steps_nil)
qed

lemma phases_ok: "ok_step before (run_steps (phases E test_case)) finished"
proof -
  have c: "ok_step idle (go_on (cleanup E)) finished"
    by (rule ok_go_on) (use cleanup_keeps idle_covered in \<open>auto simp: finished_def\<close>)
  have "ok_step idle (run_steps [phase1 E, phase2 E, await_tests E, run_tests E, go_on (cleanup E),
      answer_tests E]) finished"
    by (intro ok_steps_cons [OF phase1_ok] ok_steps_cons [OF phase2_ok] ok_steps_cons [OF await_tests_ok]
        ok_steps_cons [OF run_tests_ok] ok_steps_cons [OF c] ok_steps_cons [OF answer_tests_ok] ok_steps_nil)
  then show ?thesis unfolding phases_def by (rule ok_steps_append [OF phase0_ok])
qed

theorem main_clean:
  assumes "harness_main E args test_case w = Some (code, H)" "clean_machine (mach w)"
    "parse_options args default_options = Some opts" "opt_flags_dev opts \<noteq> [] \<or> opt_log_file_load opts \<noteq> []"
  shows "clean_machine (mach (h_world H))"
proof -
  obtain c where r: "run_steps (phases E test_case) (start_harness E opts w) = Some (c, H)"
    using assms(1,3) by (auto simp: harness_main_def)
  have "before (start_harness E opts w)"
    using assms(2,4) by (simp add: before_def left_clean_def start_harness_def)
  then show ?thesis
    using phases_ok r by (fastforce simp: ok_step_def finished_def left_clean_def split: option.splits)
qed

end

end
