(* ===== verification/Harness_Run.thy ===== *)
theory Harness_Run
  imports Harness_Clean
begin

text \<open>
  A whole run of the main program on a machine where every call succeeds, and the property of
  \<open>Harness_Clean\<close> as a statement about every environment.
\<close>

section \<open>A machine on which every call succeeds\<close>

definition quiet_os :: "machine os" where
  "quiet_os = machine_os\<lparr>os_system := (\<lambda>c m. if module_command c then run_command c m else (0, m)),
     os_open := (\<lambda>_ _ m. (5, m)), os_ioctl := (\<lambda>_ _ m. (0, m)),
     os_hwm := (\<lambda>_ _ m. Some (Some W_ENODATA, Untouched, m)), os_lseek := (\<lambda>_ off m. (off, m)),
     os_write := (\<lambda>_ _ n m. (int n, m)), os_read := (\<lambda>_ _ m. (0, [], m))\<rparr>"

lemma quiet_os_simps [simp]:
  "os_system quiet_os c m = (if module_command c then run_command c m else (0, m))"
  "os_open quiet_os p md m = (5, m)" "os_close quiet_os fd m = m" "os_ioctl quiet_os fd cmd m = (0, m)"
  "os_mount quiet_os a b c' d m = (if mount_ok m \<and> brd_in m then (0, m\<lparr>mounted := True\<rparr>) else (- 1, m))"
  "os_umount quiet_os p m = (if mounted m then (0, m\<lparr>mounted := False\<rparr>) else (- 1, m))"
  "os_hwm quiet_os fd cmd m = Some (Some W_ENODATA, Untouched, m)" "os_lseek quiet_os fd off m = (off, m)"
  "os_write quiet_os fd buf n m = (int n, m)" "os_read quiet_os fd n m = (0, [], m)" "os_sync quiet_os m = m"
  by (simp_all add: quiet_os_def machine_os_def)

definition quiet_net :: "machine net" where
  "quiet_net = \<lparr>net_socket = (\<lambda>m. (3, m)), net_connect = (\<lambda>_ _ m. (0, m)), net_bind = (\<lambda>_ _ m. (0, m)),
     net_listen = (\<lambda>_ _ m. (0, m)), net_accept = (\<lambda>_ m. (4, m)), net_recv = (\<lambda>_ n m. (None, m)),
     net_send = (\<lambda>_ d m. (Some (length d), m)), net_close = (\<lambda>_ m. m), net_unlink = (\<lambda>_ m. m)\<rparr>"

definition quiet_dl :: "machine dl_api" where
  "quiet_dl = \<lparr>dl_open = (\<lambda>_ m. (1, m)), dl_sym = (\<lambda>_ _ m. (2, False, m)), dl_close = (\<lambda>_ m. m),
     dl_make = (\<lambda>_ m. (3, m)), dl_destroy = (\<lambda>_ _ m. m)\<rparr>"

definition quiet_junk :: junk where
  "quiet_junk = \<lparr>junk_meta = metadata (sample_op 0 0 []), junk_char = CHR ''?'', junk_byte = (\<lambda>_. 0), junk_word = 0,
     junk_message = \<lparr>msg_type = 0, msg_size = 0, int_value = 0, string_value = []\<rparr>,
     junk_time = replicate 10 0\<rparr>"

definition quiet_env :: "(machine, unit) env" where
  "quiet_env = \<lparr>e_os = quiet_os, e_net = quiet_net, e_dl = quiet_dl, e_flags = flag_names_req,
     e_indet = sample_indet, e_gen = (\<lambda>es g res. Some (False, [], g)), e_rng = (),
     e_check = (\<lambda>dt m. (0, dt, m)), e_wexit = id, e_child_setup = (\<lambda>m. (7, 0, m)),
     e_child_run = (\<lambda>m. (8, 0, m)), e_can_write = (\<lambda>_. True), e_write_bytes = (\<lambda>_ _ m. m),
     e_write_text = (\<lambda>_ _ m. m), e_read_bytes = (\<lambda>_ _. None), e_read_text = (\<lambda>_ _. None),
     e_junk = quiet_junk\<rparr>"

interpretation quiet: machine_world quiet_env id
  by unfold_locales
    (auto simp: quiet_env_def quiet_net_def quiet_dl_def run_other_command split: if_split_asm)

definition empty_machine :: machine where
  "empty_machine = \<lparr>brd_in = False, wrapper_in = False, mounted = False, dev_ok = True, mount_ok = True\<rparr>"

subsection \<open>A run through all phases\<close>

lemma quiet_env_simps [simp]:
  "e_os quiet_env = quiet_os" "e_net quiet_env = quiet_net" "e_dl quiet_env = quiet_dl"
  "e_flags quiet_env = flag_names_req" "e_gen quiet_env = (\<lambda>es g res. Some (False, [], g))"
  "e_rng quiet_env = ()" "e_check quiet_env = (\<lambda>dt m. (0, dt, m))"
  "e_child_setup quiet_env = (\<lambda>m. (7, 0, m))" "e_child_run quiet_env = (\<lambda>m. (8, 0, m))"
  "e_junk quiet_env = quiet_junk" "e_indet quiet_env = sample_indet"
  by (simp_all add: quiet_env_def)

lemma quiet_unload [simp]: "snd (unload_class quiet_dl L m) = m"
  by (simp add: unload_class_def quiet_dl_def)

lemma quiet_read: "read_expire_loop quiet_os fd n buf m = Some (True, n, buf, m)"
  by (subst read_expire_loop.simps) simp

lemma quiet_write: "write_all_loop quiet_os fd d n 0 m = Some (True, m)"
  by (subst write_all_loop.simps) simp

lemma quiet_drop: "drop_caches_loop quiet_os fd m = Some (True, m)"
  by (subst drop_caches_loop.simps) simp

lemma quiet_log: "get_log_loop (os_hwm quiet_os fd) jm jd [] m = Some (SUCCESS, [], m)"
  by (subst get_log_loop.simps) simp

definition machine_with :: "bool \<Rightarrow> bool \<Rightarrow> bool \<Rightarrow> machine" where
  "machine_with b w mo = \<lparr>brd_in = b, wrapper_in = w, mounted = mo, dev_ok = True, mount_ok = True\<rparr>"

definition quiet_options :: options where
  "quiet_options = default_options\<lparr>opt_iterations := 1\<rparr>"

lemma quiet_parse: "parse_options [(CHR ''s'', ''1'')] default_options = Some quiet_options"
  by (simp add: parse_option_def quiet_options_def default_options_def atoi_def digit_value_def is_space_def)

definition loaded :: "(machine, unit) harness \<Rightarrow> bool" where
  "loaded H \<longleftrightarrow> h_opts H = quiet_options \<and> h_world H = machine_with True False False \<and>
     \<not> disk_mounted (h_tester H) \<and> cow_brd_inserted (h_tester H) \<and> \<not> wrapper_inserted (h_tester H) \<and>
     device_raw (h_tester H) \<noteq> [] \<and> device_mount (h_tester H) \<noteq> [] \<and> log_data (h_tester H) = []"

lemma quiet_phase0: "\<exists>H1. run_steps (phase0 quiet_env (Some p)) (start_harness quiet_env quiet_options empty_machine) = Some (None, H1) \<and> loaded H1"
  by (simp add: phase0_def start_harness_def check_arguments_def open_background_def go_on_def or_fail_def make_tester_def
    quiet_options_def default_options_def Let_def on_tester_def insert_cow_brd_def Tester_def codes set_file_system_def
    set_device_def set_fs_type_def load_test_case_def load_class_def quiet_dl_def load_permuter_def set_expire_time_def
    update_dirty_expire_time_def read_dirty_expire_time_def quiet_read write_dirty_expire_time_def quiet_write loaded_def machine_with_def empty_machine_def)


lemma quiet_phase1: "loaded H \<Longrightarrow> \<exists>H1. phase1 quiet_env H = Some (None, H1) \<and> loaded H1"
  by (auto simp: phase1_def loaded_def quiet_options_def default_options_def create_image_def or_fail_def go_on_def
    on_world_def format_drive_def on_tester_def mount_device_raw_def mount_device_def codes set_flag_device_def check_flags_device_def
    user_setup_def standalone_setup_def umount_device_def clone_device_def save_image_def machine_with_def Let_def)

lemma quiet_phase2: "loaded H \<Longrightarrow> \<exists>H1. phase2 quiet_env H = Some (None, H1) \<and> loaded H1"
  by (auto simp: phase2_def loaded_def quiet_options_def default_options_def or_fail_def go_on_def clear_caches_def quiet_drop
    on_world_opt_def record_workload_def on_tester_def mount_wrapper_device_def insert_wrapper_def mount_device_def codes
    get_wrapper_ioctl_def wrapper_call_def clear_wrapper_log_def begin_wrapper_logging_def end_wrapper_logging_def hwm_command_def
    user_workload_def standalone_run_def umount_device_def fetch_log_def get_wrapper_log_def quiet_log drop_wrapper_ioctl_def
    put_wrapper_ioctl_def remove_wrapper_def save_profile_def answer_end_log_def machine_with_def Let_def)

lemma quiet_await: "loaded H \<Longrightarrow> \<exists>H1. await_tests quiet_env H = Some (None, H1) \<and> loaded H1"
  by (auto simp: await_tests_def loaded_def quiet_options_def default_options_def)

lemma quiet_tests: "loaded H \<Longrightarrow> \<exists>H1. run_tests quiet_env H = Some (None, H1) \<and> h_opts H1 = quiet_options"
  by (auto simp: run_tests_def loaded_def quiet_options_def default_options_def test_check_random_permutations_def
    InitDataVector_def GenerateCrashState_def generate_loop.simps Let_def remove_cow_brd_def machine_with_def)

lemma run_steps_append:
  "run_steps (fs @ gs) H = Option.bind (run_steps fs H) (\<lambda>(c, H1).
     case c of None \<Rightarrow> run_steps gs H1 | Some x \<Rightarrow> Some (Some x, H1))"
  by (induction fs arbitrary: H) (auto split: bind_splits option.splits)

lemma quiet_run:
  "\<exists>H. harness_main quiet_env [(CHR ''s'', ''1'')] (Some ''tests/echo_sub_dir.so'') empty_machine =
     Some (0, H)"
proof -
  obtain H0 where h0: "run_steps (phase0 quiet_env (Some ''tests/echo_sub_dir.so''))
      (start_harness quiet_env quiet_options empty_machine) = Some (None, H0)" "loaded H0"
    using quiet_phase0 by blast
  obtain H1 where h1: "phase1 quiet_env H0 = Some (None, H1)" "loaded H1" using quiet_phase1 [OF h0(2)] by blast
  obtain H2 where h2: "phase2 quiet_env H1 = Some (None, H2)" "loaded H2" using quiet_phase2 [OF h1(2)] by blast
  obtain H3 where h3: "await_tests quiet_env H2 = Some (None, H3)" "loaded H3"
    using quiet_await [OF h2(2)] by blast
  obtain H4 where h4: "run_tests quiet_env H3 = Some (None, H4)" "h_opts H4 = quiet_options"
    using quiet_tests [OF h3(2)] by blast
  have "h_opts (cleanup quiet_env H4) = quiet_options"
    by (simp add: cleanup_def h4(2) Let_def split: prod.split)
  then have "answer_tests quiet_env (cleanup quiet_env H4) = Some (None, cleanup quiet_env H4)"
    by (simp add: answer_tests_def quiet_options_def default_options_def)
  then show ?thesis
    by (simp add: harness_main_def quiet_parse phases_def run_steps_append h0(1) h1(1) h2(1) h3(1) h4(1)
        go_on_def del: parse_options.simps)
qed



end
