(* ===== verification/Test_Cases.thy ===== *)
theory Test_Cases
  imports Workload_Files Harness_Run Tester_Checks
begin

text \<open>
  The test cases as objects: \<open>tests/BaseTestCase.h\<close>, the factories of the shared objects, and the calls
  of the harness through the class loader.  Then what a test case, the tester and the main program are
  together: a workload in a child of the main program, and the test of one crash state.
\<close>

section \<open>Test cases\<close>

text \<open>
  The virtual functions of \<open>BaseTestCase\<close>, as functions of the one field that changes (the buffer
  \<open>text\<close>; unused where the class has none), and an object: its class and that field.
\<close>

record 'w base_test_case =
  tc_setup :: "byte list \<Rightarrow> 'w \<Rightarrow> (int \<times> byte list \<times> 'w) option"
  tc_run :: "byte list \<Rightarrow> 'w \<Rightarrow> (int \<times> 'w) option"
  tc_check_test :: "byte list \<Rightarrow> data_test_result \<Rightarrow> 'w \<Rightarrow> (int \<times> data_test_result \<times> 'w) option"

record 'w test_object =
  to_class :: "'w base_test_case"
  to_text :: "byte list"

definition echo_sub_dir :: "'w files \<Rightarrow> 'w base_test_case" where
  "echo_sub_dir F = \<lparr>tc_setup = (\<lambda>text w. case echo_setup F w of (r, w1) \<Rightarrow> Some (r, text, w1)),
     tc_run = (\<lambda>_. echo_run F), tc_check_test = (\<lambda>_. echo_check F)\<rparr>"

definition echo_sub_dir_no_sync :: "'w files \<Rightarrow> 'w base_test_case" where
  "echo_sub_dir_no_sync F = \<lparr>tc_setup = (\<lambda>text w. case no_sync_setup F w of (r, w1) \<Rightarrow> Some (r, text, w1)),
     tc_run = (\<lambda>_. no_sync_run F), tc_check_test = (\<lambda>_. no_sync_check F)\<rparr>"

definition echo_sub_dir_big :: "'w files \<Rightarrow> 'w base_test_case" where
  "echo_sub_dir_big F = \<lparr>tc_setup = big_setup F, tc_run = big_run F, tc_check_test = big_check F\<rparr>"

text \<open>The classes of \<open>echo_sub_dir_huge.cpp\<close> and \<open>sub_dir_mmap.cpp\<close> are called \<open>echo_sub_dir_big\<close>, too.\<close>

definition echo_sub_dir_huge :: "'w files \<Rightarrow> 'w base_test_case" where
  "echo_sub_dir_huge F = \<lparr>tc_setup = huge_setup F, tc_run = huge_run F, tc_check_test = huge_check F\<rparr>"

definition sub_dir_mmap :: "'w files \<Rightarrow> 'w base_test_case" where
  "sub_dir_mmap F = \<lparr>tc_setup = mmap_setup F, tc_run = mmap_run F, tc_check_test = mmap_check F\<rparr>"

definition sub_dir_odirect :: "'w files \<Rightarrow> 'w base_test_case" where
  "sub_dir_odirect F = \<lparr>tc_setup = odirect_setup F, tc_run = odirect_run F, tc_check_test = odirect_check F\<rparr>"

text \<open>The characters of the text outside ASCII, in UTF-8.\<close>

definition ascii :: "string \<Rightarrow> byte list" where "ascii s = map (word_of_nat \<circ> of_char) s"

abbreviation ldquo :: "byte list" where "ldquo \<equiv> [0xE2, 0x80, 0x9C]"
abbreviation rdquo :: "byte list" where "rdquo \<equiv> [0xE2, 0x80, 0x9D]"
abbreviation lsquo :: "byte list" where "lsquo \<equiv> [0xE2, 0x80, 0x98]"
abbreviation rsquo :: "byte list" where "rsquo \<equiv> [0xE2, 0x80, 0x99]"
abbreviation mdash :: "byte list" where "mdash \<equiv> [0xE2, 0x80, 0x94]"
abbreviation a_acute :: "byte list" where "a_acute \<equiv> [0xC3, 0xA1]"
abbreviation e_acute :: "byte list" where "e_acute \<equiv> [0xC3, 0xA9]"
abbreviation i_acute :: "byte list" where "i_acute \<equiv> [0xC3, 0xAD]"
abbreviation e_uml :: "byte list" where "e_uml \<equiv> [0xC3, 0xAB]"

definition TEST_TEXT :: "byte list" where
  "TEST_TEXT = concat
    [ldquo, ascii ''Well, Prince, so Genoa and Lucca are now just family estates of the '',
     ascii ''Buonapartes. But I warn you, if you don'', rsquo, ascii ''t tell me that this means war, '',
     ascii ''if you still try to defend the infamies and horrors perpetrated by that '',
     ascii ''Antichrist'', mdash, ascii ''I really believe he is Antichrist'', mdash, ascii ''I will have nothing '',
     ascii ''more to do with you and you are no longer my friend, no longer my '',
     lsquo, ascii ''faithful slave,'', rsquo, ascii '' as you call yourself! But how do you do? I see I '',
     ascii ''have frightened you'', mdash, ascii ''sit down and tell me all the news.'', rdquo, ascii '' '',
     ascii ''It was in July, 1805, and the speaker was the well-known Anna P'', a_acute, ascii ''vlovna '',
     ascii ''Sch'', e_acute, ascii ''rer, maid of honor and favorite of the Empress M'', a_acute, ascii ''rya F'', e_uml, ascii ''dorovna. '',
     ascii ''With these words she greeted Prince Vas'', i_acute, ascii ''li Kur'', a_acute, ascii ''gin, a man of high '',
     ascii ''rank and importance, who was the first to arrive at her reception. Anna '',
     ascii ''P'', a_acute, ascii ''vlovna had had a cough for some days. She was, as she said, suffering '',
     ascii ''from la grippe; grippe being then a new word in St. Petersburg, used '',
     ascii ''only by the elite. '',
     ascii ''All her invitations without exception, written in French, and delivered '',
     ascii ''by a scarlet-liveried footman that morning, ran as follows: '',
     ldquo, ascii ''If you have nothing better to do, Count (or Prince), and if the '',
     ascii ''prospect of spending an evening with a poor invalid is not too terrible, '',
     ascii ''I shall be very charmed to see you tonight between 7 and 10'', mdash, ascii ''Annette '',
     ascii ''Sch'', e_acute, ascii ''rer.'', rdquo, ascii '' '',
     ldquo, ascii ''Heavens! what a virulent attack!'', rdquo, ascii '' replied the prince, not in the '',
     ascii ''least disconcerted by this reception. He had just entered, wearing an '',
     ascii ''embroidered court uniform, knee breeches, and shoes, and had stars on '',
     ascii ''his breast and a serene expression on his flat face. He spoke in that '',
     ascii ''refined French in which our grandfathers not only spoke but thought, and '',
     ascii ''with the gentle, patronizing intonation natural to a man of importance '',
     ascii ''who had grown old in society and at court. He went up to Anna P'', a_acute, ascii ''vlovna, '',
     ascii ''kissed her hand, presenting to her his bald, scented, and shining head, '',
     ascii ''and complacently seated himself on the sofa. '',
     ldquo, ascii ''First of all, dear friend, tell me how you are. Set your friend'', rsquo, ascii ''s '',
     ascii ''mind at rest,'', rdquo, ascii '' said he without altering his tone, beneath the '',
     ascii ''politeness and affected sympathy of which indifference and even irony '',
     ascii ''could be discerned. '',
     ldquo, ascii ''Can one be well while suffering morally? Can one be calm in times '',
     ascii ''like these if one has any feeling?'', rdquo, ascii '' said Anna P'', a_acute, ascii ''vlovna. '', ldquo, ascii ''You are '',
     ascii ''staying the whole evening, I hope?'', rdquo, ascii '' '']"

text \<open>There is no zero byte in it, so \<open>strlen\<close> is its length.\<close>

lemma TEST_TEXT_strlen: "length TEST_TEXT = 2297" "0 \<notin> set TEST_TEXT"
  by (simp_all add: TEST_TEXT_def ascii_def)

definition rename_root_to_sub :: "'w files \<Rightarrow> 'w base_test_case" where
  "rename_root_to_sub F =
     \<lparr>tc_setup = (\<lambda>text w. map_option (\<lambda>(r, w1). (r, text, w1)) (rename_setup TEST_TEXT F w)),
      tc_run = (\<lambda>_ w. Some (rename_run F w)), tc_check_test = (\<lambda>_. rename_check TEST_TEXT F)\<rparr>"

text \<open>
  The factory of a shared object, \<open>new\<close> of its class: the buffer of the object is not initialised, its
  bytes are \<open>junk\<close>.
\<close>

definition test_case_get_instance :: "'w base_test_case \<Rightarrow> byte list \<Rightarrow> 'w test_object" where
  "test_case_get_instance C junk = \<lparr>to_class = C, to_text = junk\<rparr>"

section \<open>The calls of the harness\<close>

text \<open>
  \<open>objs\<close> is what the pointers of the class loader point to.  \<open>None\<close> is a call through a pointer to no
  object, or a function that does not return.
\<close>

type_synonym 'w test_objects = "nat \<Rightarrow> 'w test_object option"

definition test_setup :: "class_loader \<Rightarrow> 'w test_objects \<Rightarrow> 'w \<Rightarrow> (int \<times> 'w test_objects \<times> 'w) option" where
  "test_setup L objs w =
     Option.bind (objs (get_instance L)) (\<lambda>tc.
       map_option (\<lambda>(r, text, w1). (r, objs(get_instance L \<mapsto> tc\<lparr>to_text := text\<rparr>), w1))
         (tc_setup (to_class tc) (to_text tc) w))"

definition test_run :: "class_loader \<Rightarrow> 'w test_objects \<Rightarrow> 'w \<Rightarrow> (int \<times> 'w) option" where
  "test_run L objs w =
     Option.bind (objs (get_instance L)) (\<lambda>tc. tc_run (to_class tc) (to_text tc) w)"

definition test_check :: "class_loader \<Rightarrow> 'w test_objects \<Rightarrow> data_test_result \<Rightarrow> 'w
    \<Rightarrow> (int \<times> data_test_result \<times> 'w) option" where
  "test_check L objs dt w =
     Option.bind (objs (get_instance L)) (\<lambda>tc. tc_check_test (to_class tc) (to_text tc) dt w)"

text \<open>What \<open>wait\<close> stores for a child whose \<open>main\<close> has returned \<open>r\<close>.\<close>

definition exit_status :: "int \<Rightarrow> int" where
  "exit_status r = (r mod 256) * 256"

section \<open>The workload of the main program\<close>

text \<open>The workloads that write one text to a numbered file, and the checks that look for it.\<close>

definition writes_text :: "'w files \<Rightarrow> 'w base_test_case \<Rightarrow> bool" where
  "writes_text F C \<longleftrightarrow> C = echo_sub_dir_big F \<or> C = echo_sub_dir_huge F \<or> C = sub_dir_odirect F"

definition checks_text :: "'w files \<Rightarrow> 'w base_test_case \<Rightarrow> bool" where
  "checks_text F C \<longleftrightarrow> C = echo_sub_dir_big F \<or> C = sub_dir_mmap F \<or> C = sub_dir_odirect F"

lemma big_run_statuses:
  assumes "big_run F text w = Some (r, w')"
  shows "r = 0 \<or> r = - 1"
  using assms
  by (auto simp: big_run_def NUM_TEST_FILES_def big_file_def Let_def bind_eq_Some_conv split: prod.splits if_splits)

lemma odirect_run_statuses:
  assumes "odirect_run F text w = Some (r, w')"
  shows "r = 0 \<or> r = - 1"
  using assms
  by (auto simp: odirect_run_def NUM_TEST_FILES_def odirect_file_def Let_def bind_eq_Some_conv
      split: prod.splits if_splits)

lemma huge_run_big: "huge_run F text w = big_run F text w"
  by (simp add: huge_run_def big_run_def)

lemma check_text_big: "checks_text F C \<Longrightarrow> tc_check_test C text dt w = big_check F text dt w"
  by (auto simp: checks_text_def echo_sub_dir_big_def sub_dir_mmap_def sub_dir_odirect_def big_check_def
      mmap_check_def odirect_check_def)

lemma text_written:
  assumes fs: "file_api F inode pos umask_of" and C: "writes_text F C"
    and run: "tc_run C text w = Some (r, w')" "inode (numbered_file 0) w = None" "text \<noteq> []"
  shows "(r = 0 \<or> r = - 1) \<and> (r = 0 \<longrightarrow> inode (numbered_file 0) w' = Some (0x81FF, text))"
proof (cases "C = sub_dir_odirect F")
  case True
  then have o: "odirect_run F text w = Some (r, w')" using run(1) by (simp add: sub_dir_odirect_def)
  then show ?thesis using odirect_run_statuses [OF o] file_api.odirect_run_result [OF fs run(2)] by blast
next
  case False
  then have b: "big_run F text w = Some (r, w')"
    using run(1) C by (auto simp: writes_text_def echo_sub_dir_big_def echo_sub_dir_huge_def huge_run_big)
  then show ?thesis using big_run_statuses [OF b] file_api.big_run_result [OF fs run(2,3)] by auto
qed

lemma exit_status_zero: "r = 0 \<or> r = - 1 \<Longrightarrow> exit_status r = 0 \<longleftrightarrow> r = 0"
  by (auto simp: exit_status_def)

text \<open>
  C11: the recorded workload is the workload of the test case.  The child of the main program runs
  \<open>test_run\<close> of the loaded test case, or is killed by a signal, whose number is then in the low bits of
  the status.  When the test case is \<open>echo_sub_dir_big\<close>, \<open>echo_sub_dir_huge\<close> or \<open>sub_dir_odirect\<close>, the main
  program either gives up with -1, or goes on to fetch the log; and it goes on only if the file
  holds, with the right mode, all of the text of the object.
\<close>

theorem standalone_run_leaves_text:
  assumes fs: "file_api F inode pos umask_of"
    and obj: "objs (get_instance L) = Some (test_case_get_instance C txt)" "txt \<noteq> []" "writes_text F C"
    and child: "\<And>w pid st w'. e_child_run E w = (pid, st, w') \<Longrightarrow>
      pid < 0 \<or> 0 < pid \<and> st mod 128 \<noteq> 0 \<or>
      0 < pid \<and> (\<exists>r. test_run L objs w = Some (r, w') \<and> st = exit_status r)"
    and new: "inode (numbered_file 0) (h_world H) = None"
  shows "\<exists>c H'. standalone_run E H = Some (c, H') \<and>
    (c = Some (- 1) \<or> c = None \<and> inode (numbered_file 0) (h_world H') = Some (0x81FF, txt))"
proof -
  obtain pid st w' where e: "e_child_run E (h_world H) = (pid, st, w')" by (rule prod_cases3)
  show ?thesis
  proof (cases "pid < 0 \<or> st \<noteq> 0")
    case True
    then show ?thesis using e by (auto simp: standalone_run_def Let_def)
  next
    case False
    then obtain r where r: "tc_run C txt (h_world H) = Some (r, w')" "exit_status r = 0"
      using child [OF e] obj(1) by (auto simp: test_run_def test_case_get_instance_def)
    from text_written [OF fs obj(3) r(1) new obj(2)] exit_status_zero r(2)
    have "inode (numbered_file 0) w' = Some (0x81FF, txt)" by blast
    then show ?thesis using False e by (simp add: standalone_run_def)
  qed
qed

text \<open>The file system in memory, with a main program around it.\<close>

definition mem_env :: "(memfs \<Rightarrow> int \<times> int \<times> memfs) \<Rightarrow> (memfs, unit) env" where
  "mem_env run =
     \<lparr>e_os = no_os,
      e_net = \<lparr>net_socket = (\<lambda>w. (- 1, w)), net_connect = (\<lambda>_ _ w. (- 1, w)), net_bind = (\<lambda>_ _ w. (- 1, w)),
        net_listen = (\<lambda>_ _ w. (- 1, w)), net_accept = (\<lambda>_ w. (- 1, w)), net_recv = (\<lambda>_ n w. (None, w)),
        net_send = (\<lambda>_ d w. (None, w)), net_close = (\<lambda>_ w. w), net_unlink = (\<lambda>_ w. w)\<rparr>,
      e_dl = \<lparr>dl_open = (\<lambda>_ w. (0, w)), dl_sym = (\<lambda>_ _ w. (0, True, w)), dl_close = (\<lambda>_ w. w),
        dl_make = (\<lambda>_ w. (0, w)), dl_destroy = (\<lambda>_ _ w. w)\<rparr>,
      e_flags = flag_names_req, e_indet = sample_indet, e_gen = (\<lambda>es g res. Some (False, [], g)), e_rng = (),
      e_check = (\<lambda>dt w. (0, dt, w)), e_wexit = id, e_child_setup = (\<lambda>w. (- 1, 0, w)), e_child_run = run,
      e_can_write = (\<lambda>_. False), e_write_bytes = (\<lambda>_ _ w. w), e_write_text = (\<lambda>_ _ w. w),
      e_read_bytes = (\<lambda>_ _. None), e_read_text = (\<lambda>_ _. None), e_junk = quiet_junk\<rparr>"

definition empty_memfs :: memfs where
  "empty_memfs = \<lparr>nodes = Map.empty, at = None, file_mask = 0x12, pieces = []\<rparr>"

definition big_loader :: class_loader where
  "big_loader = no_class\<lparr>instance_ptr := 3\<rparr>"

definition big_objects :: "memfs test_objects" where
  "big_objects = [3 \<mapsto> test_case_get_instance (echo_sub_dir_big mem_files) (replicate BIG_TEXT_SIZE 7)]"

definition big_child :: "memfs \<Rightarrow> int \<times> int \<times> memfs" where
  "big_child w = (case test_run big_loader big_objects w of Some (r, w') \<Rightarrow> (9, exit_status r, w') | None \<Rightarrow> (- 1, 0, w))"

lemma big_child_run:
  "big_child w = (pid, st, w') \<Longrightarrow>
    pid < 0 \<or> 0 < pid \<and> (\<exists>r. test_run big_loader big_objects w = Some (r, w') \<and> st = exit_status r)"
  by (auto simp: big_child_def split: option.splits)

theorem standalone_run_leaves_text_witness:
  "\<exists>H. standalone_run (mem_env big_child) (start_harness (mem_env big_child) default_options empty_memfs) =
      Some (None, H) \<and>
    nodes (h_world H) (numbered_file 0) = Some (0x81FF, replicate BIG_TEXT_SIZE 7)"
proof -
  let ?E = "mem_env big_child" and ?t = "replicate BIG_TEXT_SIZE (7 :: byte)"
  let ?H = "start_harness ?E default_options empty_memfs"
  have obj: "big_objects (get_instance big_loader) = Some (test_case_get_instance (echo_sub_dir_big mem_files) ?t)"
    "?t \<noteq> []" "writes_text mem_files (echo_sub_dir_big mem_files)"
    by (simp_all add: big_objects_def big_loader_def get_instance_def BIG_TEXT_SIZE_def writes_text_def)
  have new: "nodes (h_world ?H) (numbered_file 0) = None" by (simp add: start_harness_def empty_memfs_def)
  have child: "pid < 0 \<or> 0 < pid \<and> st mod 128 \<noteq> 0 \<or>
      0 < pid \<and> (\<exists>r. test_run big_loader big_objects w = Some (r, w') \<and> st = exit_status r)"
    if "e_child_run ?E w = (pid, st, w')" for w pid st w'
    using big_child_run [of w pid st w'] that by (auto simp: mem_env_def)
  obtain w1 where "big_run mem_files ?t empty_memfs = Some (0, w1)"
    using mem_big_run [of empty_memfs ?t] obj(2) by (auto simp: empty_memfs_def)
  then have "e_child_run ?E (h_world ?H) = (9, 0, w1)"
    using obj by (simp add: mem_env_def big_child_def test_run_def test_case_get_instance_def echo_sub_dir_big_def
        exit_status_def start_harness_def)
  then have "\<exists>H'. standalone_run ?E ?H = Some (None, H')" by (simp add: standalone_run_def)
  then show ?thesis
    using standalone_run_leaves_text [where E = ?E, OF mem.file_api_axioms obj child new] by auto
qed

section \<open>The test of a crash state\<close>

definition intact :: "byte list \<Rightarrow> inode option \<Rightarrow> bool" where
  "intact text node =
     (case node of None \<Rightarrow> False | Some (mode, content) \<Rightarrow> mode_ok mode \<and> take (length text) content = text)"

lemma file_verdict_error:
  "dt_GetError (file_verdict text node DataTestResult) = kClean \<longleftrightarrow> intact text node"
  by (auto simp: file_verdict_def intact_def dt_GetError_def dt_SetError_def DataTestResult_def split: option.split)

text \<open>A test that is added to a suite is counted once: as a failure, or as one of the two ways to pass.\<close>

lemma count_results_add:
  "num_failed (count_results (AddCompletedTest i s)) =
    num_failed (count_results s) + (if passed i \<or> passed_fixed i then 0 else 1)"
  by (simp add: count_results_def count_results_counts count_of_snoc AddCompletedTest_def del: fold_append)

text \<open>
  C6: the test of a crash state is right.  With \<open>echo_sub_dir_big\<close>, \<open>sub_dir_mmap\<close> or \<open>sub_dir_odirect\<close>
  loaded, a crash state that has been written to the snapshot is counted as passed only if fsck and
  mount succeed and the file, on the disk that fsck has left, has the mode and the text it was given;
  and if all of that is so it does count as passed (as fixed, when fsck had to repair something), unless
  a call failed.  Everything else is counted as a failure.
\<close>

theorem crash_state_verdict:
  assumes fs: "file_api F inode pos umask_of"
    and obj: "objs (get_instance L) = Some (test_case_get_instance C txt)"
      "length txt = BIG_TEXT_SIZE" "checks_text F C"
    and check: "\<And>dt v. test_check L objs dt v = Some (check dt v)"
    and run: "check_written OS check wexit (SingleTestInfo junk) T suite w = (T', suite', w')"
    and steps: "os_system OS (fsck_command T) w = (fsck, w1)"
      "os_mount OS SNAPSHOT_PATH MNT_MNT_POINT (fs_type T) None w1 = (m, w2)"
  shows "\<exists>info. suite' = AddCompletedTest info suite \<and>
    (let good = (fsck = 0 \<or> wexit fsck = 1) \<and> 0 \<le> m \<and> intact txt (inode (numbered_file 0) w2) in
      (passed info \<or> passed_fixed info \<longrightarrow> good) \<and>
      (good \<longrightarrow> dt_GetError (data_test info) = kDataOther \<or>
        (if fsck = 0 then passed info else passed_fixed info)) \<and>
      num_failed (count_results suite') =
        num_failed (count_results suite) + (if passed info \<or> passed_fixed info then 0 else 1))"
proof -
  obtain dt v where c: "check DataTestResult w2 = (0, dt, v)"
    and dt: "dt = dt_SetError kDataOther DataTestResult \<or>
      dt = file_verdict txt (inode (numbered_file 0) w2) DataTestResult"
    using file_api.big_check_verdict [OF fs obj(2), of DataTestResult w2] check [of DataTestResult w2] obj(1,3)
    by (auto simp: test_check_def test_case_get_instance_def check_text_big)
  have e: "dt_GetError dt = kDataOther \<or> (dt_GetError dt = kClean \<longleftrightarrow> intact txt (inode (numbered_file 0) w2))"
    using dt file_verdict_error [of "txt" "inode (numbered_file 0) w2"] by (auto simp: dt_GetError_def dt_SetError_def)
  note defs = check_written_def check_mounted_def mount_device_def codes steps c SingleTestInfo_def
    FileSystemTestResult_def fs_error_def ft_SetError_def ft_GetError_def passed_def passed_fixed_def
  consider "\<not> (fsck = 0 \<or> wexit fsck = 1)" | "fsck = 0 \<or> wexit fsck = 1" "m < 0"
    | "fsck = 0 \<or> wexit fsck = 1" "0 \<le> m" by linarith
  then show ?thesis
  proof cases
    case 1
    then have "suite' = AddCompletedTest (fs_error kCheck ((SingleTestInfo junk)
        \<lparr>fs_test := (FileSystemTestResult junk)\<lparr>fs_check_return := word_of_int fsck\<rparr>\<rparr>)) suite"
      using run by (simp add: defs)
    then show ?thesis using 1 by (auto simp: count_results_add defs fs_errors)
  next
    case 2
    then have "suite' = AddCompletedTest (fs_error kUnmountable ((SingleTestInfo junk)
        \<lparr>fs_test := (FileSystemTestResult junk)\<lparr>fs_check_return := word_of_int fsck\<rparr>\<rparr>)) suite"
      using run by (auto simp: defs)
    then show ?thesis using 2 by (auto simp: count_results_add defs fs_errors)
  next
    case 3
    let ?i = "(SingleTestInfo junk)\<lparr>data_test := dt, fs_test := (FileSystemTestResult junk)
        \<lparr>fs_check_return := word_of_int fsck\<rparr>\<rparr>"
    have "suite' = AddCompletedTest (if fsck \<noteq> 0 then fs_error kFixed ?i else ?i) suite"
      using 3 run by (auto simp: defs Let_def split: prod.splits if_splits)
    then show ?thesis using 3 e by (cases "fsck = 0") (auto simp: count_results_add defs)
  qed
qed

text \<open>Machines on which fsck finds nothing and the mount succeeds, over the files in memory.\<close>

definition mem_os :: "memfs os" where
  "mem_os = no_os\<lparr>os_system := (\<lambda>_ w. (0, w)), os_mount := (\<lambda>_ _ _ _ w. (0, w))\<rparr>"

definition mem_check :: "memfs check_test" where
  "mem_check dt w = the (test_check big_loader big_objects dt w)"

lemma mem_check: "test_check big_loader big_objects dt w = Some (mem_check dt w)"
proof -
  have "length (replicate BIG_TEXT_SIZE (7 :: byte)) = BIG_TEXT_SIZE" by simp
  from mem.big_check_verdict [OF this, of dt w] show ?thesis
    by (auto simp: mem_check_def test_check_def big_objects_def big_loader_def get_instance_def
        test_case_get_instance_def echo_sub_dir_big_def)
qed

theorem crash_state_verdict_witness:
  "\<exists>T' suite' w'. check_written mem_os mem_check id (SingleTestInfo 0) (Tester 64 False []) TestSuiteResult
      (sample_memfs (replicate BIG_TEXT_SIZE 0)) = (T', suite', w') \<and>
    num_failed (count_results suite') = 1"
proof -
  let ?w = "sample_memfs (replicate BIG_TEXT_SIZE 0)" and ?t = "replicate BIG_TEXT_SIZE (7 :: byte)"
  have obj: "big_objects (get_instance big_loader) = Some (test_case_get_instance (echo_sub_dir_big mem_files) ?t)"
    "length ?t = BIG_TEXT_SIZE" "checks_text mem_files (echo_sub_dir_big mem_files)"
    by (simp_all add: big_objects_def big_loader_def get_instance_def checks_text_def)
  have bad: "\<not> intact ?t (nodes ?w (numbered_file 0))"
    by (simp add: intact_def sample_memfs_def BIG_TEXT_SIZE_def replicate_eq_replicate)
  have steps: "os_system mem_os c ?w = (0, ?w)" "os_mount mem_os a b c' d ?w = (0, ?w)" for c a b c' d
    by (simp_all add: mem_os_def)
  obtain T' suite' w' where r: "check_written mem_os mem_check id (SingleTestInfo 0) (Tester 64 False []) TestSuiteResult
      ?w = (T', suite', w')" by (rule prod_cases3)
  have "num_failed (count_results TestSuiteResult) = 0"
    by (simp add: count_results_def TestSuiteResult_def no_counts_def)
  then show ?thesis
    using crash_state_verdict [OF mem.file_api_axioms obj mem_check r steps(1) steps(2)] bad r by (auto simp: Let_def)
qed

section \<open>The test of the renamed file\<close>

text \<open>A file system whose calls touch no other file, and in which \<open>rename\<close>, when it succeeds, moves the file.\<close>

locale rename_api = file_api +
  assumes mkdir_law: "f_mkdir F p m w = (r, w') \<Longrightarrow> q \<noteq> p \<Longrightarrow> inode q w' = inode q w"
    and fsync_law: "f_fsync F fd w = (r, w') \<Longrightarrow> inode q w' = inode q w"
    and open_other: "f_open F p fl prm w = (fd, w') \<Longrightarrow> q \<noteq> p \<Longrightarrow> inode q w' = inode q w"
    and write_other: "pos fd w = Some (p, k) \<Longrightarrow> f_write F fd d w = (r, w') \<Longrightarrow> q \<noteq> p \<Longrightarrow> inode q w' = inode q w"
    and rename_law: "f_rename F p p' w = (r, w') \<Longrightarrow> 0 \<le> r \<Longrightarrow> p \<noteq> p' \<Longrightarrow>
      inode p w' = None \<and> inode p' w' = inode p w"
begin

lemma make_test_dir_keeps:
  assumes "make_test_dir F w = (r, w')" "q \<noteq> TEST_DIR_PATH"
  shows "inode q w' = inode q w"
proof -
  obtain r1 w1 where m: "f_mkdir F TEST_DIR_PATH 0x1FF w = (r1, w1)" by fastforce
  obtain fd w2 where o: "f_open F TEST_DIR_PATH Read_only 0 w1 = (fd, w2)" by fastforce
  obtain r2 w3 where s: "f_fsync F fd w2 = (r2, w3)" by fastforce
  have "inode q w1 = inode q w" "inode q w2 = inode q w1" "inode q w3 = inode q w2"
    using mkdir_law [OF m assms(2)] open_other [OF o assms(2)] fsync_law [OF s] by simp_all
  then show ?thesis
    using assms(1) by (auto simp: make_test_dir_def m o s close_law split: if_splits)
qed

lemma create_file_other:
  assumes "create_file F p fl w = (fd, w')" "q \<noteq> p"
  shows "inode q w' = inode q w"
proof -
  obtain old w1 where u: "f_umask F 0 w = (old, w1)" by fastforce
  obtain fd' w2 where o: "f_open F p fl TEST_FILE_PERMS w1 = (fd', w2)" by fastforce
  obtain x w3 where v: "f_umask F old w2 = (x, w3)" by fastforce
  have "w' = w3" using assms(1) by (simp add: create_file_def u o v)
  then show ?thesis
    using umask_law [OF u, of q fd] open_other [OF o assms(2)] umask_law [OF v, of q fd] by simp
qed

lemma write_text_loop_other:
  assumes "pos fd w = Some (p, k)" "inode p w = Some (m, take k txt)" "k < length txt"
    "write_text_loop F fd txt k w = Some (ok, w')" "q \<noteq> p"
  shows "inode q w' = inode q w"
  using assms(1-4)
proof (induction "length txt - k" arbitrary: k w rule: less_induct)
  case less
  obtain res w1 where r: "f_write F fd (drop k txt) w = (res, w1)" by fastforce
  have len: "length (take k txt) = k" using less.prems(3) by simp
  have "pos fd w = Some (p, length (take k txt))" "drop k txt \<noteq> []" using less.prems(1,3) len by simp_all
  note law = write_law [OF this(1) less.prems(2) this(2) r]
  have same: "inode q w1 = inode q w" using write_other [OF less.prems(1) r assms(5)] .
  show ?case
  proof (cases "res \<noteq> - 1 \<and> k + nat res \<noteq> length txt")
    case False
    then show ?thesis using less.prems(4) r same by (subst (asm) write_text_loop.simps) (auto split: if_splits)
  next
    case True
    then obtain j where j: "0 < j" "j \<le> length (drop k txt)" "res = int j"
      "inode p w1 = Some (m, take k txt @ take j (drop k txt))" "pos fd w1 = Some (p, k + j)"
      using law len by auto
    have "k + j < length txt" using j(2,3) True less.prems(3) by simp
    moreover have "length txt - (k + j) < length txt - k" using j(1) less.prems(3) by simp
    moreover have "write_text_loop F fd txt (k + j) w1 = Some (ok, w')"
      using less.prems(4) r j(3) True by (subst (asm) write_text_loop.simps) simp
    ultimately have "inode q w' = inode q w1"
      using less.hyps [of "k + j" w1] j(4,5) by (simp add: take_add)
    then show ?thesis using same by simp
  qed
qed

lemma rename_setup_result:
  assumes "rename_setup T F w = Some (0, w')" "inode old_path w = None" "T \<noteq> []"
  shows "inode old_path w' = Some (0x81FF, T) \<and> inode TEST_FILE_PATH w' = inode TEST_FILE_PATH w"
proof -
  have ne: "old_path \<noteq> TEST_DIR_PATH" "TEST_FILE_PATH \<noteq> TEST_DIR_PATH" "TEST_FILE_PATH \<noteq> old_path"
    by (simp_all add: old_path_def TEST_DIR_PATH_def TEST_FILE_PATH_def)
  obtain r1 w1 where d: "make_test_dir F w = (r1, w1)" by fastforce
  obtain fd w2 where c: "create_file F old_path Read_write_create w1 = (fd, w2)" by fastforce
  note keep = make_test_dir_keeps [OF d ne(1)] make_test_dir_keeps [OF d ne(2)] create_file_other [OF c ne(3)]
  have ok: "r1 = 0" "fd \<noteq> - 1" using assms(1) by (auto simp: rename_setup_def d c split: if_splits)
  have "inode old_path w1 = None" using keep(1) assms(2) by simp
  then have new: "pos fd w2 = Some (old_path, 0)" "inode old_path w2 = Some (0x81FF, take 0 T)"
    using create_file_result [OF c] ok(2) by simp_all
  have "0 < length T" using assms(3) by simp
  from write_text_loop_result [OF new this] obtain b w3 where l: "write_text_loop F fd T 0 w2 = Some (b, w3)"
    "b \<longrightarrow> inode old_path w3 = Some (0x81FF, T)" by blast
  obtain r4 w4 where f: "f_fsync F fd w3 = (r4, w4)" by fastforce
  have w': "w' = f_close F fd w4" "b" using assms(1) ok l f by (auto simp: rename_setup_def d c split: if_splits)
  show ?thesis
    using w' l(2) fsync_law [OF f] close_law keep write_text_loop_other [OF new \<open>0 < length T\<close> l(1) ne(3)] by simp
qed

lemma found_intact:
  assumes "case (inode old_path w, inode TEST_FILE_PATH w) of
      (Some nd, None) \<Rightarrow> nd = (0x81FF, T) | (None, Some nd) \<Rightarrow> nd = (0x81FF, T) | _ \<Rightarrow> False"
  shows "\<exists>dt' w'. rename_check T F dt w = Some (0, dt', w') \<and> (dt' = dt \<or> dt' = dt_SetError kDataOther dt)"
  using rename_check_verdict [of T dt w] assms
  by (auto simp: file_verdict_def created_mode_ok split: option.splits)

lemma rename_accepted:
  assumes "rename_setup T F w0 = Some (0, w1)" "rename_run F w1 = (0, w2)" "T \<noteq> []"
    "inode old_path w0 = None" "inode TEST_FILE_PATH w0 = None" "w = w1 \<or> w = w2"
  shows "\<exists>dt' w'. rename_check T F dt w = Some (0, dt', w') \<and> (dt' = dt \<or> dt' = dt_SetError kDataOther dt)"
proof (rule found_intact)
  have one: "inode old_path w1 = Some (0x81FF, T)" "inode TEST_FILE_PATH w1 = None"
    using rename_setup_result [OF assms(1,4,3)] assms(5) by simp_all
  obtain r v where m: "f_rename F old_path TEST_FILE_PATH w1 = (r, v)" by fastforce
  have "0 \<le> r" "v = w2" using assms(2) by (auto simp: rename_run_def m split: if_splits)
  then have "inode old_path w2 = None" "inode TEST_FILE_PATH w2 = inode old_path w1"
    using rename_law [OF m] by (simp_all add: old_path_def TEST_FILE_PATH_def)
  then show "case (inode old_path w, inode TEST_FILE_PATH w) of
      (Some nd, None) \<Rightarrow> nd = (0x81FF, T) | (None, Some nd) \<Rightarrow> nd = (0x81FF, T) | _ \<Rightarrow> False"
    using assms(6) one by auto
qed

end

interpretation mem_moves: rename_api mem_files "\<lambda>p w. nodes w p" "\<lambda>fd. at" file_mask
  by unfold_locales
    (auto simp: mem_open_def mem_write_def mem_files_def Let_def split: if_split_asm option.splits)

lemma TEST_TEXT_not_empty [simp]: "TEST_TEXT \<noteq> []"
  by (simp add: TEST_TEXT_def)

text \<open>
  C24: \<open>rename_root_to_sub\<close> raises no false alarm.  Loaded and called as the harness calls it, from a file
  system that has neither name: when setup and workload succeed, the check finds the file right in the
  state before the workload and in the state after it, unless a call of the check fails.
\<close>

theorem rename_never_alarms:
  assumes fs: "rename_api F inode pos umask_of"
    and obj: "objs (get_instance L) = Some (test_case_get_instance (rename_root_to_sub F) junk)"
    and none: "inode old_path w0 = None" "inode TEST_FILE_PATH w0 = None"
    and before: "test_setup L objs w0 = Some (0, objs', w1)" and run: "test_run L objs' w1 = Some (0, w2)"
    and w: "w = w1 \<or> w = w2"
  shows "\<exists>dt' w'. test_check L objs' dt w = Some (0, dt', w') \<and> (dt' = dt \<or> dt' = dt_SetError kDataOther dt)"
proof -
  have s: "rename_setup TEST_TEXT F w0 = Some (0, w1)"
    and o: "objs' (get_instance L) = Some (test_case_get_instance (rename_root_to_sub F) junk)"
    using before obj by (auto simp: test_setup_def test_case_get_instance_def rename_root_to_sub_def)
  have r: "rename_run F w1 = (0, w2)"
    using run o by (simp add: test_run_def test_case_get_instance_def rename_root_to_sub_def)
  show ?thesis
    using rename_api.rename_accepted [OF fs s r _ none w, of dt] o
    by (simp add: test_check_def test_case_get_instance_def rename_root_to_sub_def)
qed

definition rename_objects :: "memfs test_objects" where
  "rename_objects = [3 \<mapsto> test_case_get_instance (rename_root_to_sub mem_files) []]"

lemma mem_rename_runs:
  "\<exists>w1 w2. rename_setup TEST_TEXT mem_files empty_memfs = Some (0, w1) \<and> rename_run mem_files w1 = (0, w2)"
proof -
  let ?v = "empty_memfs\<lparr>nodes := [TEST_DIR_PATH \<mapsto> (0x41FF, [])], at := Some (TEST_DIR_PATH, 0)\<rparr>"
  have ne: "old_path \<noteq> TEST_DIR_PATH" by (simp add: old_path_def TEST_DIR_PATH_def)
  have d: "make_test_dir mem_files empty_memfs = (0, ?v)"
    by (simp add: make_test_dir_def mem_open_def empty_memfs_def)
  define u where "u = snd (create_file mem_files old_path Read_write_create ?v)"
  have c: "create_file mem_files old_path Read_write_create ?v = (5, u)"
    and u: "at u = Some (old_path, 0)" "nodes u old_path = Some (0x81FF, [])" "pieces u = []"
    using ne by (simp_all add: u_def create_file_def mem_open_def TEST_FILE_PERMS_def empty_memfs_def)
  obtain w1 where l: "write_text_loop mem_files 5 TEST_TEXT 0 u = Some (True, w1)"
    using mem_write_all [OF u TEST_TEXT_not_empty] by blast
  have s: "rename_setup TEST_TEXT mem_files empty_memfs = Some (0, w1)" by (simp add: rename_setup_def d c l)
  have "nodes w1 old_path = Some (0x81FF, TEST_TEXT)"
    using mem_moves.rename_setup_result [OF s] by (simp add: empty_memfs_def)
  then have "\<exists>w2. rename_run mem_files w1 = (0, w2)" by (simp add: rename_run_def mem_files_def)
  with s show ?thesis by blast
qed

theorem rename_never_alarms_witness:
  "\<exists>objs' w1 w2. test_setup big_loader rename_objects empty_memfs = Some (0, objs', w1) \<and>
    test_run big_loader objs' w1 = Some (0, w2) \<and>
    (\<exists>dt' w'. test_check big_loader objs' DataTestResult w2 = Some (0, dt', w') \<and>
      (dt' = DataTestResult \<or> dt' = dt_SetError kDataOther DataTestResult))"
proof -
  have obj: "rename_objects (get_instance big_loader) = Some (test_case_get_instance (rename_root_to_sub mem_files) [])"
    by (simp add: rename_objects_def big_loader_def get_instance_def)
  obtain w1 w2 where r: "rename_setup TEST_TEXT mem_files empty_memfs = Some (0, w1)" "rename_run mem_files w1 = (0, w2)"
    using mem_rename_runs by blast
  have t: "test_setup big_loader rename_objects empty_memfs = Some (0, rename_objects, w1)"
    using obj r(1) by (auto simp: test_setup_def test_case_get_instance_def rename_root_to_sub_def)
  have x: "test_run big_loader rename_objects w1 = Some (0, w2)"
    using obj r(2) by (simp add: test_run_def test_case_get_instance_def rename_root_to_sub_def)
  have n: "nodes empty_memfs old_path = None" "nodes empty_memfs TEST_FILE_PATH = None"
    by (simp_all add: empty_memfs_def)
  show ?thesis
    using rename_never_alarms [OF mem_moves.rename_api_axioms obj n t x disjI2 [OF refl], of DataTestResult] t x by blast
qed

end
