(* ===== verification/Spec2Isabelle.thy ===== *)
theory Spec2Isabelle
  imports Tester_States Tester_Timing Tester_Image Cow_Brd_Race Disk_Wrapper_Race Cow_Brd_Xip Disk_Write_Print Scratch_Programs
    Socket_Server Test_Cases
begin

text \<open>
  CrashMonkey (\<open>src/code\<close>) tests whether a file system survives a crash.  Its main program loads a
  RAM disk with copy-on-write snapshots into the kernel, formats it, freezes it, mounts the snapshot
  through a driver that records every block request, runs a workload, fetches the recorded log,
  and then, many times over, restores the snapshot, writes a crash state to it, that is an order and
  subset of the logged requests that the barriers among them allow, and checks what the file
  system makes of it.

  \<^bold>\<open>The parts, in the order of the program.\<close>

  \<^item> \<open>Cow_Brd\<close> models \<open>cow_brd.c\<close>, the RAM disk: the pages of a device as a finite map from page
    numbers (the radix tree), a snapshot as a device whose reads fall through to a parent; requests
    (\<open>brd_make_request\<close> down to \<open>copy_to_brd\<close>), ioctls, loading, probing and unloading.
    \<open>Cow_Brd_Store\<close> relates it to an array of bytes (\<open>disk_byte\<close>): what a read, a write and a discard
    do to the contents, and where the code does something else (a write that crosses into a new page).
    \<open>Cow_Brd_Steps\<close> is the step relation of a driver under any requests and ioctls, with the
    invariant \<open>brd_inv\<close>: well-formedness, and a restored snapshot shows the frozen disk.  \<open>Cow_Brd_Xip\<close>
    has direct access to pages, which is compiled only under \<open>CONFIG_BLK_DEV_XIP\<close>, and the freeing of
    a single page: what they do to the contents.  \<open>Cow_Brd_Race\<close> cuts \<open>brd_insert_page\<close> and \<open>copy_to_brd\<close>
    into steps and lets several writers run at once: safe on the base disk, also for a reader among
    them, not on a snapshot.
  \<^item> \<open>Disk_Wrapper\<close> models \<open>disk_wrapper.c\<close>, the recording driver: the log as a linked list of
    nodes in a heap, with \<open>None\<close> for every access to a freed or missing node.  \<open>Disk_Wrapper_Log\<close> shows
    that no sequence of requests and ioctls faults as long as memory lasts, that the log is the list of
    logged requests in order, and what happens when memory does not last.  \<open>Disk_Wrapper_Race\<close> lets
    several requests run at once through the driver, which takes no lock: the log stays a list, and may
    lose entries.
  \<^item> \<open>Disk_Write\<close> and \<open>Disk_Write_IO\<close> model \<open>utils/utils.cpp\<close> and \<open>utils_c.c\<close>: a logged operation, the
    predicates and updates of its flags, and its text form; the round trip of saved logs.
    \<open>Disk_Write_Print\<close> has copies of an operation and the operators that print it.
  \<^item> \<open>Permuter\<close> models \<open>permuter/Permuter.cpp\<close>: dividing a log into epochs, with the splitting of
    operations that flush, and the loop that asks for crash states until one is new.  A one-pass
    definition (\<open>expand\<close>, \<open>segments\<close>) says which epochs there should be, \<open>InitDataVector_epochs\<close> that the
    code makes them.  \<open>Random_Permuter\<close> models \<open>RandomPermuter.cpp\<close>; the relation \<open>crash_state_of\<close> says
    which crash states the barriers allow, and the code generates exactly those.
  \<^item> \<open>Results\<close> models \<open>results\<close>: error codes, their names and the counts of a suite of tests.
  \<^item> \<open>Class_Loader\<close> models \<open>utils/ClassLoader.h\<close>.
  \<^item> \<open>Tester\<close> models \<open>harness/Tester.cpp\<close>: every operation on modules, mounts, logs, images and crash
    states, over a record of system calls.  \<open>Tester_Replay\<close> puts the recording driver, the tester and
    the RAM disk together: fetching a log and writing it to the snapshot rebuilds the disk.
    \<open>Tester_Checks\<close> is about the checking of crash states.  \<open>Tester_States\<close> puts it together with the
    permuter and the RAM disk: every operation of a generated crash state is well typed for the device,
    and fsck is started, round after round, on the frozen base image with one crash state of the log on
    it (locale \<open>snapshot_tests\<close>, interpreted on a test bench that has a snapshot of \<open>Cow_Brd\<close> in it and
    remembers the disks fsck has seen).  \<open>Tester_Timing\<close> follows the tests once more with the readings of
    the clock: they do the same, and the phases add up to no more than the total.  \<open>Tester_Image\<close> is about saving and loading the
    base image, \<open>Tester_Modules\<close> about the flags of the tester and the cleanup.
  \<^item> \<open>Sockets\<close> models \<open>utils/communication\<close> and \<open>user_tools\<close>: messages on a byte stream, client, server,
    and the tools that send one command.  \<open>Socket_Wire\<close> proves the round trip over a stream that moves
    bytes in any pieces, and where the protocol breaks; \<open>Socket_Server\<close> that the loop waiting for a
    command serves every client.
  \<^item> \<open>Harness\<close> models \<open>harness/c_harness.cpp\<close>, the main program, as lists of steps, each of which goes
    on or returns from \<open>main\<close>.  \<open>Harness_Clean\<close> proves, step by step, that the program leaves no module
    and no mount behind; \<open>Harness_Run\<close> states it for every environment and runs all phases once.

  \<^item> \<open>Workloads\<close> models \<open>tests\<close>, the seven test cases: setup, workload and the check of a crash state, over
    the file-system calls.  \<open>Workload_Files\<close> says what the checks make of a file and what the workloads
    leave, over any file system with the laws of \<open>file_api\<close>, and where two of them go wrong.
    \<open>Test_Cases\<close> has them as objects behind the class loader (\<open>BaseTestCase.h\<close>, the factories, \<open>test_setup\<close>
    and \<open>test_run\<close> of the tester) and puts test case, tester and main program together: the main program
    goes on after a workload only if the file is complete, the verdict on a crash state is
    right (\<open>crash_state_verdict\<close>), and \<open>rename_root_to_sub\<close> raises no false alarm.

  \<^item> \<open>Scratch_Programs\<close> models the programs for trying the modules by hand: \<open>ioctl_test.c\<close>,
    \<open>testing/log_on_off.c\<close> and \<open>tests/test_get_log_ent_size.c\<close>.

  \<open>Prelude\<close> holds what these share: bit masks, removal from lists, numbers as text.  \<open>Interleaving\<close> has the
  step relation of several threads on one shared state.

  \<^bold>\<open>Interfaces.\<close>  A locale stands where one part relies on another: what the permuter asks of
  \<open>gen_one_state\<close> (provided by \<open>Random_Permuter\<close>), a file of blocks that the tester writes a log to or
  reads an image from (provided by the RAM disk), the machine the crash state tests run on (provided by a
  snapshot of the RAM disk with any fsck, mount and test case that leave it a snapshot), the ioctls of a log (provided by the recording driver),
  a codec on a stream (integers, strings, messages), a stream inside a larger world (the server with
  its clients), a world with a machine in it (the main program), a file system (the test cases), and threads that keep an
  invariant (\<open>interleaving\<close>, provided by the writers of the RAM disk and the requests of the recording driver).  Each is interpreted on the
  definitions of the part that provides it.

  \<^bold>\<open>Parameters.\<close>  What is not in the repository is an argument of the definitions that use it: the values
  of the kernel's request flags (\<open>R\<close>, distinct bits where a property needs it), the system calls of the
  tester (\<open>OS\<close>), the socket calls (\<open>N\<close>), the dynamic linker (\<open>DL\<close>), the kernel functions of the RAM disk (\<open>K\<close>),
  random numbers (\<open>draw\<close>, which may return any number in the range asked for), the check the tester
  calls and \<open>fork\<close> with its child (\<open>Test_Cases\<close> says what they are when a test case is loaded), and the
  file-system calls of the test cases (\<open>F\<close>).  Variables the code reads before it has written them are parameters too
  (\<open>J\<close>, \<open>junk\<close>).  Where a property holds for every behaviour of such a parameter that its documentation
  allows, the behaviour is the predicate of a locale (\<open>machine_world\<close>, \<open>file_api\<close>), and an interpretation
  on a concrete function shows that it can be met.

  \<^bold>\<open>Termination.\<close>  There is no fuel.  A loop that ends whatever its calls return is a total function.
  A loop around a system call, which may go on forever, is a partial function into an option: \<open>None\<close>
  means that it does not return (or that the program faults), and the properties that promise a
  result prove that it is \<open>Some\<close>.

  \<^bold>\<open>Widths.\<close>  Flags and sectors are words of 64 bits, sizes and counters of 32, and wrap as in the code;
  ranges compared after a conversion to 32 bits keep it.  Positions in buffers and in pages are \<open>nat\<close>;
  results of system calls are \<open>int\<close>.

  The readings of the clock are a sequence of integers (nanoseconds), one per call; the properties ask of it
  only that it never decreases.

  \<^bold>\<open>Not modelled.\<close>  Messages for humans (progress, \<open>printk\<close>) and the sleeps; RCU; concurrency
  outside the two race theories (everywhere else the requests come one after the other), where a \<open>memcpy\<close> is
  one step and memory is sequentially consistent; the submission
  of a request to the wrapped device and the completion of requests, which are calls of the kernel; the
  splitting of the argument vector by \<open>getopt_long\<close> (its two tables are modelled, and agree);
  \<open>testing/test_get_log_ent_size.c\<close>, which uses ioctls that do not exist; the macros of \<open>bio_alias.h\<close>; the
  functions that \<open>delete\<close> a test case; unit tests.
\<close>

end
